(* ===== verification/Prelude.thy ===== *)
theory Prelude
  imports Main "HOL-Library.Sublist" "HOL-Library.Word"
begin

text \<open>
  Shared library of the development.  A Rust \<open>String\<close> or \<open>&str\<close> is its sequence of UTF-8 bytes, a
  \<^typ>\<open>string\<close>; the operations of the Rust standard library that the crates use on strings
  (\<open>split\<close>, \<open>split_once\<close>, \<open>strip_prefix\<close>, \<open>trim\<close>, \<open>parse::<i64>\<close>, \<open>parse::<u64>\<close>, \<open>to_string\<close> on
  integers) are executable functions here, with the lemmas the components share.  Fallible
  operations return a sum: \<^const>\<open>Inl\<close> the error, \<^const>\<open>Inr\<close> the value.
\<close>

named_theorems res_simps \<open>unfolding rules of the result combinators\<close>

type_synonym byte = "8 word"

section \<open>Results\<close>

definition rbind :: "'e + 'a \<Rightarrow> ('a \<Rightarrow> 'e + 'b) \<Rightarrow> 'e + 'b" where
  "rbind r f = (case r of Inl e \<Rightarrow> Inl e | Inr x \<Rightarrow> f x)"

definition ensure :: "bool \<Rightarrow> 'e \<Rightarrow> 'e + unit" where
  "ensure b e = (if b then Inr () else Inl e)"

definition is_ok :: "'e + 'a \<Rightarrow> bool" where
  "is_ok r = (case r of Inl e \<Rightarrow> False | Inr x \<Rightarrow> True)"

lemma is_ok_simps [simp]: "is_ok (Inr x)" "\<not> is_ok (Inl e)"
  by (simp_all add: is_ok_def)

lemma is_ok_iff: "is_ok r \<longleftrightarrow> (\<exists>x. r = Inr x)"
  by (cases r) simp_all

lemma rbind_simps [simp]: "rbind (Inl e) f = Inl e" "rbind (Inr x) f = f x"
  by (simp_all add: rbind_def)

lemma rbind_Inr_iff [res_simps]: "rbind r f = Inr y \<longleftrightarrow> (\<exists>x. r = Inr x \<and> f x = Inr y)"
  by (cases r) auto

lemma ensure_Inr_iff [res_simps]: "ensure b e = Inr u \<longleftrightarrow> b"
  by (simp add: ensure_def)

lemma is_ok_ensure [simp]: "is_ok (ensure b e) = b"
  by (simp add: ensure_def)

lemma is_ok_rbind [res_simps]: "is_ok (rbind r f) \<longleftrightarrow> (\<exists>x. r = Inr x \<and> is_ok (f x))"
  by (cases r) auto

section \<open>Splitting and joining\<close>

fun split_on :: "char \<Rightarrow> string \<Rightarrow> string list" where
  "split_on c [] = [[]]"
| "split_on c (x # xs) =
    (if x = c then [] # split_on c xs
     else (case split_on c xs of [] \<Rightarrow> [[x]] | l # ls \<Rightarrow> (x # l) # ls))"

fun join_on :: "char \<Rightarrow> string list \<Rightarrow> string" where
  "join_on c [] = []"
| "join_on c [l] = l"
| "join_on c (l # l' # ls) = l @ c # join_on c (l' # ls)"

fun split_once :: "char \<Rightarrow> string \<Rightarrow> (string \<times> string) option" where
  "split_once c [] = None"
| "split_once c (x # xs) =
    (if x = c then Some ([], xs)
     else map_option (\<lambda>(a, b). (x # a, b)) (split_once c xs))"

definition strip_prefix :: "string \<Rightarrow> string \<Rightarrow> string option" where
  "strip_prefix p s = (if prefix p s then Some (drop (length p) s) else None)"

lemma split_on_not_Nil [simp]: "split_on c s \<noteq> []"
  by (induction s) (auto split: list.split)

lemma split_on_Cons_ex: "\<exists>l ls. split_on c s = l # ls"
  using split_on_not_Nil [of c s] by (cases "split_on c s") simp_all

lemma join_on_Cons: "ls \<noteq> [] \<Longrightarrow> join_on c (l # ls) = l @ c # join_on c ls"
  by (cases ls) simp_all

lemma join_on_append_head: "join_on c ((x # l) # ls) = x # join_on c (l # ls)"
  by (cases ls) simp_all

lemma join_split [simp]: "join_on c (split_on c s) = s"
proof (induction s)
  case (Cons x xs)
  obtain l ls where "split_on c xs = l # ls"
    using split_on_Cons_ex by blast
  with Cons show ?case
    by (simp add: join_on_append_head)
qed simp

lemma split_on_no_sep: "l \<in> set (split_on c s) \<Longrightarrow> c \<notin> set l"
proof (induction s arbitrary: l)
  case (Cons x xs)
  obtain k ks where kks: "split_on c xs = k # ks"
    using split_on_Cons_ex by blast
  show ?case
  proof (cases "x = c")
    case True
    with Cons show ?thesis by auto
  next
    case False
    with Cons.prems kks have "l = x # k \<or> l \<in> set ks" by simp
    with False kks Cons.IH [of k] Cons.IH [of l] show ?thesis by auto
  qed
qed simp

lemma split_on_id: "c \<notin> set s \<Longrightarrow> split_on c s = [s]"
  by (induction s) auto

lemma split_on_append: "c \<notin> set l \<Longrightarrow> split_on c (l @ c # s) = l # split_on c s"
  by (induction l) auto

lemma split_join:
  assumes "ls \<noteq> []" and "\<And>l. l \<in> set ls \<Longrightarrow> c \<notin> set l"
  shows "split_on c (join_on c ls) = ls"
  using assms
proof (induction c ls rule: join_on.induct)
  case (3 c l l' ls)
  from "3.prems" have "c \<notin> set l" by simp
  moreover from "3.prems" have "split_on c (join_on c (l' # ls)) = l' # ls"
    by (intro "3.IH") auto
  ultimately show ?case by (simp add: split_on_append)
qed (simp_all add: split_on_id)

lemma split_once_Some: "split_once c s = Some (a, b) \<longleftrightarrow> s = a @ c # b \<and> c \<notin> set a"
proof (induction s arbitrary: a)
  case (Cons x xs)
  then show ?case by (cases a; cases "x = c") force+
qed simp

lemma append_sep_inj:
  fixes c :: char
  assumes "c \<notin> set a" and "c \<notin> set a'"
  shows "a @ c # b = a' @ c # b' \<longleftrightarrow> a = a' \<and> b = b'"
proof
  assume "a @ c # b = a' @ c # b'"
  then have "split_once c (a @ c # b) = Some (a', b')" using assms by (simp add: split_once_Some)
  moreover have "split_once c (a @ c # b) = Some (a, b)" using assms by (simp add: split_once_Some)
  ultimately show "a = a' \<and> b = b'" by simp
qed simp

lemma append_sep_ex:
  fixes c :: char
  assumes "c \<notin> set k" and "\<And>k'. k' \<in> K \<Longrightarrow> c \<notin> set k'"
  shows "(\<exists>k' a'. k' \<in> K \<and> k @ c # a = k' @ c # a' \<and> Q a') \<longleftrightarrow> k \<in> K \<and> Q a"
proof
  assume "\<exists>k' a'. k' \<in> K \<and> k @ c # a = k' @ c # a' \<and> Q a'"
  then obtain k' a' where *: "k' \<in> K" "k @ c # a = k' @ c # a'" "Q a'" by blast
  then have "k = k' \<and> a = a'" using append_sep_inj [OF assms(1) assms(2) [OF *(1)]] by blast
  with * show "k \<in> K \<and> Q a" by blast
qed blast

lemma split_once_None: "split_once c s = None \<longleftrightarrow> c \<notin> set s"
  by (induction s) auto

lemma strip_prefix_Some: "strip_prefix p s = Some r \<longleftrightarrow> s = p @ r"
  by (auto simp: strip_prefix_def prefix_def)

section \<open>Whitespace\<close>

text \<open>
  \<open>str::trim\<close> removes the characters with the Unicode property White_Space at both ends.  On UTF-8
  bytes these are the sequences below; UTF-8 is self-synchronising, so a suffix of a valid string
  that equals one of them is that character.
\<close>

definition ws_seqs :: "string list" where
  "ws_seqs =
    map (map char_of)
      ([[9], [10], [11], [12], [13], [32], [194, 133], [194, 160], [225, 154, 128],
        [226, 128, 168], [226, 128, 169], [226, 128, 175], [226, 129, 159], [227, 128, 128]]
       @ map (\<lambda>k. [226, 128, k]) [128..<139] :: nat list list)"

function strip_seqs :: "string list \<Rightarrow> string \<Rightarrow> string" where
  "strip_seqs ws s =
    (case find (\<lambda>w. w \<noteq> [] \<and> prefix w s) ws of
       None \<Rightarrow> s
     | Some w \<Rightarrow> strip_seqs ws (drop (length w) s))"
  by pat_completeness auto
termination
proof (relation "measure (\<lambda>(ws, s). length s)", goal_cases)
  case (2 ws s w)
  then have "w \<noteq> []" and "prefix w s" by (auto simp: find_Some_iff)
  then have "0 < length w" and "length w \<le> length s" by (simp_all add: prefix_length_le)
  then have "length s - length w < length s" by linarith
  then show ?case by simp
qed simp

declare strip_seqs.simps [simp del]

definition trim_start :: "string \<Rightarrow> string" where
  "trim_start s = strip_seqs ws_seqs s"

definition trim_end :: "string \<Rightarrow> string" where
  "trim_end s = rev (strip_seqs (map rev ws_seqs) (rev s))"

definition trim :: "string \<Rightarrow> string" where
  "trim s = trim_end (trim_start s)"

lemma strip_seqs_suffix: "suffix (strip_seqs ws s) s"
proof (induction ws s rule: strip_seqs.induct)
  case (1 ws s)
  show ?case
  proof (cases "find (\<lambda>w. w \<noteq> [] \<and> prefix w s) ws")
    case None
    then show ?thesis by (subst strip_seqs.simps) simp
  next
    case (Some w)
    with 1 have "suffix (strip_seqs ws (drop (length w) s)) s"
      using suffix_drop suffix_order.trans by blast
    with Some show ?thesis by (subst strip_seqs.simps) simp
  qed
qed

lemma strip_seqs_id: "\<forall>w \<in> set ws. w \<noteq> [] \<longrightarrow> \<not> prefix w s \<Longrightarrow> strip_seqs ws s = s"
  by (subst strip_seqs.simps) (auto split: option.split simp: find_Some_iff)

lemma strip_seqs_clean: "w \<in> set ws \<Longrightarrow> w \<noteq> [] \<Longrightarrow> \<not> prefix w (strip_seqs ws s)"
proof (induction ws s rule: strip_seqs.induct)
  case (1 ws s)
  show ?case
  proof (cases "find (\<lambda>w. w \<noteq> [] \<and> prefix w s) ws")
    case None
    then have "strip_seqs ws s = s" by (subst strip_seqs.simps) simp
    with None 1 show ?thesis by (auto simp: find_None_iff)
  next
    case (Some w')
    with 1 show ?thesis by (subst strip_seqs.simps) simp
  qed
qed

lemma strip_seqs_idem [simp]: "strip_seqs ws (strip_seqs ws s) = strip_seqs ws s"
  by (rule strip_seqs_id) (auto dest: strip_seqs_clean)

lemma trim_start_suffix: "suffix (trim_start s) s"
  unfolding trim_start_def by (rule strip_seqs_suffix)

lemma trim_end_prefix: "prefix (trim_end s) s"
  using strip_seqs_suffix [of "map rev ws_seqs" "rev s"]
  unfolding trim_end_def suffix_to_prefix by simp

lemma trim_sublist: "sublist (trim s) s"
  unfolding trim_def
  by (rule sublist_order.order.trans [OF prefix_imp_sublist [OF trim_end_prefix]
        suffix_imp_sublist [OF trim_start_suffix]])

lemma set_trim_subset: "set (trim s) \<subseteq> set s"
  by (rule set_mono_sublist [OF trim_sublist])

text \<open>A string of visible ASCII characters has no whitespace to trim.\<close>

definition visible :: "char \<Rightarrow> bool" where
  "visible c \<longleftrightarrow> 33 \<le> (of_char c :: nat) \<and> (of_char c :: nat) \<le> 126"

lemma ws_seqs_invisible: "w \<in> set ws_seqs \<Longrightarrow> w \<noteq> [] \<and> \<not> visible (hd w) \<and> \<not> visible (last w)"
proof -
  have "list_all (\<lambda>w. w \<noteq> [] \<and> \<not> visible (hd w) \<and> \<not> visible (last w)) ws_seqs"
    by (simp add: ws_seqs_def visible_def upt_rec)
  then show "w \<in> set ws_seqs \<Longrightarrow> w \<noteq> [] \<and> \<not> visible (hd w) \<and> \<not> visible (last w)"
    by (simp add: list_all_iff)
qed

lemma trim_visible:
  assumes "list_all visible s"
  shows "trim s = s"
proof -
  have v: "\<And>c. c \<in> set s \<Longrightarrow> visible c" using assms by (simp add: list_all_iff)
  have "\<not> prefix w s" if "w \<in> set ws_seqs" for w
  proof
    assume "prefix w s"
    then have "hd w \<in> set s" using ws_seqs_invisible [OF that] by (cases w) (auto simp: prefix_def)
    with v ws_seqs_invisible [OF that] show False by blast
  qed
  then have "trim_start s = s" unfolding trim_start_def by (intro strip_seqs_id) blast
  moreover have "\<not> prefix (rev w) (rev s)" if "w \<in> set ws_seqs" for w
  proof
    assume "prefix (rev w) (rev s)"
    then have "hd (rev w) \<in> set (rev s)" using ws_seqs_invisible [OF that]
      by (cases "rev w") (auto simp: prefix_def)
    with v ws_seqs_invisible [OF that] show False by (simp add: hd_rev)
  qed
  then have "strip_seqs (map rev ws_seqs) (rev s) = rev s" by (intro strip_seqs_id) auto
  ultimately show ?thesis by (simp add: trim_def trim_end_def)
qed

section \<open>Decimal integers\<close>

definition is_digit :: "char \<Rightarrow> bool" where
  "is_digit c \<longleftrightarrow> 48 \<le> (of_char c :: nat) \<and> (of_char c :: nat) \<le> 57"

definition digit_char :: "nat \<Rightarrow> char" where
  "digit_char d = char_of (48 + d)"

definition digits_val :: "string \<Rightarrow> nat" where
  "digits_val s = foldl (\<lambda>a c. 10 * a + ((of_char c :: nat) - 48)) 0 s"

definition parse_nat :: "string \<Rightarrow> nat option" where
  "parse_nat s = (if s \<noteq> [] \<and> list_all is_digit s then Some (digits_val s) else None)"

definition parse_unsigned :: "nat \<Rightarrow> string \<Rightarrow> nat option" where
  "parse_unsigned hi s =
    (case parse_nat (case s of c # cs \<Rightarrow> if c = CHR ''+'' then cs else s | [] \<Rightarrow> s) of
       None \<Rightarrow> None
     | Some n \<Rightarrow> if n \<le> hi then Some n else None)"

abbreviation u64_max :: nat where "u64_max \<equiv> 18446744073709551615"
abbreviation u32_max :: nat where "u32_max \<equiv> 4294967295"
abbreviation i64_max :: nat where "i64_max \<equiv> 9223372036854775807"

definition parse_i64 :: "string \<Rightarrow> int option" where
  "parse_i64 s =
    (case s of
       [] \<Rightarrow> None
     | c # cs \<Rightarrow>
         if c = CHR ''-'' then
           (case parse_nat cs of
              None \<Rightarrow> None
            | Some n \<Rightarrow> if n \<le> i64_max + 1 then Some (- int n) else None)
         else map_option int (parse_unsigned i64_max s))"

definition is_i64 :: "int \<Rightarrow> bool" where
  "is_i64 v \<longleftrightarrow> - 9223372036854775808 \<le> v \<and> v \<le> 9223372036854775807"

text \<open>Two's-complement addition on \<open>i64\<close>, as a release build computes it.\<close>

definition wrap_i64 :: "int \<Rightarrow> int" where
  "wrap_i64 v = (v + 9223372036854775808) mod 18446744073709551616 - 9223372036854775808"

fun show_nat :: "nat \<Rightarrow> string" where
  "show_nat n = (if n < 10 then [digit_char n] else show_nat (n div 10) @ [digit_char (n mod 10)])"

declare show_nat.simps [simp del]

definition show_int :: "int \<Rightarrow> string" where
  "show_int v = (if v < 0 then CHR ''-'' # show_nat (nat (- v)) else show_nat (nat v))"

lemma of_char_digit_char: "d < 10 \<Longrightarrow> (of_char (digit_char d) :: nat) = 48 + d"
  by (simp add: digit_char_def)

lemma is_digit_digit_char [simp]: "d < 10 \<Longrightarrow> is_digit (digit_char d)"
  by (simp add: is_digit_def of_char_digit_char)

lemma show_nat_not_Nil [simp]: "show_nat n \<noteq> []"
  by (subst show_nat.simps) simp

lemma show_nat_digits [simp]: "list_all is_digit (show_nat n)"
proof (induction n rule: show_nat.induct)
  case (1 n)
  then show ?case by (subst show_nat.simps) simp
qed

lemma digits_val_show_nat [simp]: "digits_val (show_nat n) = n"
proof (induction n rule: show_nat.induct)
  case (1 n)
  then show ?case
    by (subst show_nat.simps) (auto simp: digits_val_def of_char_digit_char)
qed

lemma parse_nat_show_nat [simp]: "parse_nat (show_nat n) = Some n"
  by (simp add: parse_nat_def)

lemma show_nat_hd_digit: "show_nat n = c # cs \<Longrightarrow> is_digit c"
  using show_nat_digits [of n] by simp

lemma digit_not_sign [simp]: "\<not> is_digit (CHR ''+'')" "\<not> is_digit (CHR ''-'')"
  by (simp_all add: is_digit_def)

lemma show_nat_Cons: "\<exists>c cs. show_nat n = c # cs \<and> is_digit c"
proof (cases "show_nat n")
  case (Cons c cs)
  with show_nat_hd_digit show ?thesis by blast
qed simp

lemma parse_unsigned_show_nat: "n \<le> hi \<Longrightarrow> parse_unsigned hi (show_nat n) = Some n"
proof -
  assume "n \<le> hi"
  obtain c cs where c: "show_nat n = c # cs" "is_digit c" using show_nat_Cons by blast
  then have "c \<noteq> CHR ''+''" by auto
  moreover have "parse_nat (c # cs) = Some n" by (simp flip: c(1))
  ultimately show ?thesis
    using \<open>n \<le> hi\<close> by (simp add: parse_unsigned_def c(1))
qed

lemma parse_i64_show_int: "is_i64 v \<Longrightarrow> parse_i64 (show_int v) = Some v"
proof (cases "v < 0")
  case True
  moreover assume "is_i64 v"
  ultimately show ?thesis by (simp add: show_int_def parse_i64_def is_i64_def)
next
  case False
  assume v: "is_i64 v"
  obtain c cs where c: "show_nat (nat v) = c # cs" "is_digit c" using show_nat_Cons by blast
  then have "c \<noteq> CHR ''-''" by auto
  moreover have "parse_unsigned i64_max (c # cs) = Some (nat v)"
    using v False parse_unsigned_show_nat [of "nat v" i64_max] by (simp add: c is_i64_def)
  ultimately show ?thesis
    using False c by (simp add: show_int_def parse_i64_def)
qed

lemma parse_i64_bounds: "parse_i64 s = Some v \<Longrightarrow> is_i64 v"
  by (auto simp: parse_i64_def parse_unsigned_def is_i64_def
        split: list.splits option.splits if_splits)

lemma wrap_i64_id: "is_i64 v \<Longrightarrow> wrap_i64 v = v"
  by (simp add: wrap_i64_def is_i64_def)

lemma set_show_nat_digit: "c \<in> set (show_nat n) \<Longrightarrow> is_digit c"
  using show_nat_digits [of n] by (simp add: list_all_iff)

lemma visible_digit: "is_digit c \<Longrightarrow> visible c"
  by (simp add: is_digit_def visible_def)

lemma visible_minus [simp]: "visible (CHR ''-'')"
  by (simp add: visible_def)

lemma set_show_int: "c \<in> set (show_int v) \<Longrightarrow> is_digit c \<or> c = CHR ''-''"
  by (auto simp: show_int_def dest: set_show_nat_digit split: if_splits)

lemma visible_show_int: "list_all visible (show_int v)"
  unfolding list_all_iff using set_show_int visible_digit visible_minus by metis

lemma trim_show_int [simp]: "trim (show_int v) = show_int v"
  by (rule trim_visible [OF visible_show_int])

lemma show_int_not_Nil [simp]: "show_int v \<noteq> []"
  by (simp add: show_int_def)

end
