(* ===== verification/Awg_Params.thy ===== *)
theory Awg_Params
  imports Prelude
begin

text \<open>
  The AmneziaWG parameter grammar of \<open>crates/awg-params-agent/src/params.rs\<close>: the epoch's
  parameter record, the \<open>IntOrRange\<close> message-type value with its JSON shape, and the validators
  every centrally supplied value passes before it is spliced into \<open>awg0.conf\<close>.  Base64 decoding is
  third-party code and is a parameter of the functions that use it.
\<close>


section \<open>Data\<close>

datatype int_or_range = Single int | Range int int

record awg_params =
  ap_jc :: "int option"
  ap_jmin :: "int option"
  ap_jmax :: "int option"
  ap_s1 :: int
  ap_s2 :: int
  ap_s3 :: "int option"
  ap_s4 :: int
  ap_h1 :: int_or_range
  ap_h2 :: int_or_range
  ap_h3 :: int_or_range
  ap_h4 :: int_or_range
  ap_i1 :: "string option"
  ap_i2 :: "string option"
  ap_i3 :: "string option"
  ap_i4 :: "string option"
  ap_i5 :: "string option"
  ap_header_protection_key :: "string option"
  ap_content_padding_addition :: "string option"
  ap_rekey_after_time :: "string option"
  ap_rekey_timeout :: "string option"
  ap_reject_after_time :: "string option"
  ap_keepalive_timeout :: "string option"
  ap_max_handshake_attempts :: "string option"
  ap_random_trailers :: "bool option"
  ap_disable_cookies :: "bool option"

record awg_params_latest_response =
  r_epoch :: int
  r_params :: awg_params

datatype itag_reason =
    Unterminated
  | EmptyTag
  | BArgMissing
  | BArgHex
  | LenArgMissing string
  | LenArgRange string
  | UnknownTag string
  | NoTag

datatype awg_error =
    BadMember string string
  | ForbiddenChar string char
  | JunkGrammar string int
  | ITagGrammar string string itag_reason
  | SGrammar string int
  | HGrammar string int int
  | RangeGrammar string string
  | HpkBase64 string
  | HpkLength string nat

section \<open>The \<open>IntOrRange\<close> value\<close>

definition parse_part :: "string \<Rightarrow> string \<Rightarrow> awg_error + int" where
  "parse_part s part =
    (case parse_i64 part of None \<Rightarrow> Inl (BadMember part s) | Some n \<Rightarrow> Inr n)"

definition int_or_range_parse :: "string \<Rightarrow> awg_error + int_or_range" where
  "int_or_range_parse s =
    (case split_once (CHR ''-'') s of
       Some (lo, hi) \<Rightarrow>
         rbind (parse_part s lo) (\<lambda>l. rbind (parse_part s hi) (\<lambda>h. Inr (Range l h)))
     | None \<Rightarrow> rbind (parse_part s s) (\<lambda>n. Inr (Single n)))"

text \<open>
  The two JSON shapes the untagged decoder accepts; every other JSON value is \<open>JOther\<close>.
\<close>

datatype json_value = JNum int | JStr string | JOther

definition ior_deserialize :: "json_value \<Rightarrow> int_or_range option" where
  "ior_deserialize j =
    (case j of
       JNum n \<Rightarrow> if is_i64 n then Some (Single n) else None
     | JStr s \<Rightarrow> (case int_or_range_parse s of Inl e \<Rightarrow> None | Inr v \<Rightarrow> Some v)
     | JOther \<Rightarrow> None)"

definition ior_serialize :: "int_or_range \<Rightarrow> json_value" where
  "ior_serialize v =
    (case v of
       Single n \<Rightarrow> JNum n
     | Range lo hi \<Rightarrow> JStr (show_int lo @ ''-'' @ show_int hi))"

section \<open>Validators\<close>

definition forbidden_conf_chars :: "char list" where
  "forbidden_conf_chars = [CHR 0x0A, CHR 0x0D, CHR ''['', CHR '']'']"

definition validate_conf_string :: "string \<Rightarrow> string \<Rightarrow> awg_error + unit" where
  "validate_conf_string field value =
    (case find (\<lambda>c. c \<in> set forbidden_conf_chars) value of
       Some bad \<Rightarrow> Inl (ForbiddenChar field bad)
     | None \<Rightarrow> Inr ())"

definition validate_junk_value :: "string \<Rightarrow> int \<Rightarrow> awg_error + unit" where
  "validate_junk_value field n =
    (if \<not> (0 \<le> n \<and> n \<le> int u32_max) then Inl (JunkGrammar field n) else Inr ())"

definition is_ascii_hexdigit :: "char \<Rightarrow> bool" where
  "is_ascii_hexdigit c \<longleftrightarrow>
    is_digit c \<or>
    (65 \<le> (of_char c :: nat) \<and> (of_char c :: nat) \<le> 70) \<or>
    (97 \<le> (of_char c :: nat) \<and> (of_char c :: nat) \<le> 102)"

definition check_i_tag :: "string \<Rightarrow> string option \<Rightarrow> itag_reason + unit" where
  "check_i_tag key arg =
    (if key = ''b'' then
       (case arg of
          None \<Rightarrow> Inl BArgMissing
        | Some a \<Rightarrow>
            (let digits = (case strip_prefix ''0x'' a of Some d \<Rightarrow> d | None \<Rightarrow> a) in
             if digits = [] \<or> length digits mod 2 \<noteq> 0 \<or> \<not> list_all is_ascii_hexdigit digits
             then Inl BArgHex else Inr ()))
     else if key \<in> {''r'', ''rc'', ''rd'', ''dz''} then
       (case arg of
          None \<Rightarrow> Inl (LenArgMissing key)
        | Some a \<Rightarrow>
            (case parse_unsigned u64_max a of
               Some n \<Rightarrow> if n \<le> 65535 then Inr () else Inl (LenArgRange key)
             | None \<Rightarrow> Inl (LenArgRange key)))
     else if key \<in> {''t'', ''d'', ''ds''} then Inr ()
     else Inl (UnknownTag key))"

definition tag_key_arg :: "string \<Rightarrow> string \<times> string option" where
  "tag_key_arg tag =
    (case split_once (CHR '' '') tag of Some (k, a) \<Rightarrow> (k, Some a) | None \<Rightarrow> (tag, None))"

function i_tag_loop :: "bool \<Rightarrow> string \<Rightarrow> itag_reason + unit" where
  "i_tag_loop saw_tag rest =
    (case split_once (CHR ''<'') rest of
       None \<Rightarrow> if saw_tag then Inr () else Inl NoTag
     | Some (skipped, from_start) \<Rightarrow>
         (case split_once (CHR ''>'') from_start of
            None \<Rightarrow> Inl Unterminated
          | Some (tag, after) \<Rightarrow>
              (case tag_key_arg tag of (key, arg) \<Rightarrow>
                 if key = [] then Inl EmptyTag
                 else (case check_i_tag key arg of
                         Inl r \<Rightarrow> Inl r
                       | Inr _ \<Rightarrow> i_tag_loop True after))))"
  by pat_completeness auto
termination
  by (relation "measure (\<lambda>(saw, rest). length rest)") (auto simp: split_once_Some)

declare i_tag_loop.simps [simp del]

definition validate_i_tag :: "string \<Rightarrow> string \<Rightarrow> awg_error + unit" where
  "validate_i_tag field value =
    rbind (validate_conf_string field value) (\<lambda>_.
      if value = [] then Inr ()
      else (case i_tag_loop False value of
              Inl r \<Rightarrow> Inl (ITagGrammar field value r)
            | Inr _ \<Rightarrow> Inr ()))"

definition validate_s_value :: "string \<Rightarrow> int \<Rightarrow> awg_error + unit" where
  "validate_s_value field n =
    (if \<not> (0 \<le> n \<and> n \<le> 65535) then Inl (SGrammar field n) else Inr ())"

definition ior_bounds :: "int_or_range \<Rightarrow> int \<times> int" where
  "ior_bounds v = (case v of Single n \<Rightarrow> (n, n) | Range lo hi \<Rightarrow> (lo, hi))"

definition validate_h_value :: "string \<Rightarrow> int_or_range \<Rightarrow> awg_error + unit" where
  "validate_h_value field v =
    (case ior_bounds v of (lo, hi) \<Rightarrow>
       if lo < 5 \<or> hi > 4294967295 \<or> lo > hi then Inl (HGrammar field lo hi) else Inr ())"

definition validate_range_string :: "string \<Rightarrow> string \<Rightarrow> awg_error + unit" where
  "validate_range_string field value =
    rbind (validate_conf_string field value) (\<lambda>_.
      case (case split_once (CHR ''-'') value of Some p \<Rightarrow> p | None \<Rightarrow> (value, value)) of
        (lo_s, hi_s) \<Rightarrow>
          if lo_s \<noteq> [] \<and> list_all is_digit lo_s \<and> hi_s \<noteq> [] \<and> list_all is_digit hi_s then
            (case (parse_unsigned u64_max lo_s, parse_unsigned u64_max hi_s) of
               (Some lo, Some hi) \<Rightarrow>
                 if lo \<le> hi then Inr () else Inl (RangeGrammar field value)
             | _ \<Rightarrow> Inl (RangeGrammar field value))
          else Inl (RangeGrammar field value))"

definition decode_hpk :: "(string \<Rightarrow> byte list option) \<Rightarrow> string \<Rightarrow> string \<Rightarrow> awg_error + byte list" where
  "decode_hpk b64 field value =
    rbind (validate_conf_string field value) (\<lambda>_.
      case b64 value of
        None \<Rightarrow> Inl (HpkBase64 field)
      | Some bs \<Rightarrow> if length bs = 32 then Inr bs else Inl (HpkLength field (length bs)))"

definition hpk_is_active :: "(string \<Rightarrow> byte list option) \<Rightarrow> string \<Rightarrow> bool" where
  "hpk_is_active b64 value =
    (case b64 value of
       Some b \<Rightarrow> \<not> (length b = 32 \<and> list_all (\<lambda>x. x = 0) b)
     | None \<Rightarrow> True)"

section \<open>The tag language\<close>

text \<open>
  The declarative reading of the I-tag grammar: a chain of tags \<open><key arg>\<close> with free text
  between them.
\<close>

definition hex_arg :: "string \<Rightarrow> bool" where
  "hex_arg h \<longleftrightarrow> h \<noteq> [] \<and> length h mod 2 = 0 \<and> list_all is_ascii_hexdigit h"

definition tag_ok :: "string \<Rightarrow> bool" where
  "tag_ok t \<longleftrightarrow>
    (\<exists>k a. k \<in> {''b''} \<and> t = k @ CHR '' '' # a \<and>
       (\<exists>h. hex_arg h \<and> (a = h \<or> a = ''0x'' @ h))) \<or>
    (\<exists>k a. k \<in> {''r'', ''rc'', ''rd'', ''dz''} \<and> t = k @ CHR '' '' # a \<and>
       (\<exists>n. parse_unsigned u64_max a = Some n \<and> n \<le> 65535)) \<or>
    (\<exists>k a. k \<in> {''t'', ''d'', ''ds''} \<and> t = k @ CHR '' '' # a \<and> True) \<or>
    t \<in> {''t'', ''d'', ''ds''}"

inductive i_chain :: "string \<Rightarrow> bool" where
  last_tag: "CHR ''<'' \<notin> set pre \<Longrightarrow> CHR ''>'' \<notin> set t \<Longrightarrow> tag_ok t \<Longrightarrow> CHR ''<'' \<notin> set post
     \<Longrightarrow> i_chain (pre @ CHR ''<'' # t @ CHR ''>'' # post)"
| more_tags: "CHR ''<'' \<notin> set pre \<Longrightarrow> CHR ''>'' \<notin> set t \<Longrightarrow> tag_ok t \<Longrightarrow> i_chain post
     \<Longrightarrow> i_chain (pre @ CHR ''<'' # t @ CHR ''>'' # post)"

lemma not_hex_x: "\<not> is_ascii_hexdigit (CHR ''x'')"
  by (simp add: is_ascii_hexdigit_def is_digit_def)

lemma strip_0x_hex:
  "hex_arg (case strip_prefix ''0x'' a of Some d \<Rightarrow> d | None \<Rightarrow> a) \<longleftrightarrow>
    (\<exists>h. hex_arg h \<and> (a = h \<or> a = ''0x'' @ h))"
proof (cases "strip_prefix ''0x'' a")
  case None
  then have "a \<noteq> ''0x'' @ h" for h
    by (metis option.distinct(1) strip_prefix_Some)
  with None show ?thesis by auto
next
  case (Some d)
  then have a: "a = ''0x'' @ d" by (simp add: strip_prefix_Some)
  then have "\<not> hex_arg a" by (simp add: hex_arg_def not_hex_x)
  with Some a show ?thesis by auto
qed

lemma tag_key_arg_eq:
  "tag_key_arg t = (k, Some a) \<longleftrightarrow> t = k @ '' '' @ a \<and> CHR '' '' \<notin> set k"
  "tag_key_arg t = (k, None) \<longleftrightarrow> t = k \<and> CHR '' '' \<notin> set k"
  by (auto simp: tag_key_arg_def split_once_None split_once_Some append_sep_inj split: option.split)

lemma check_b: "check_i_tag ''b'' (Some a) = Inr () \<longleftrightarrow> (\<exists>h. hex_arg h \<and> (a = h \<or> a = ''0x'' @ h))"
  unfolding strip_0x_hex [symmetric]
  by (simp add: check_i_tag_def hex_arg_def Let_def)

lemma check_i_tag_iff:
  "check_i_tag k arg = Inr () \<longleftrightarrow>
    (k = ''b'' \<and> (\<exists>a h. arg = Some a \<and> hex_arg h \<and> (a = h \<or> a = ''0x'' @ h))) \<or>
    (k \<in> {''r'', ''rc'', ''rd'', ''dz''} \<and>
      (\<exists>a n. arg = Some a \<and> parse_unsigned u64_max a = Some n \<and> n \<le> 65535)) \<or>
    k \<in> {''t'', ''d'', ''ds''}"
proof (cases "k = ''b''")
  case True
  then show ?thesis
    by (cases arg) (simp add: check_i_tag_def, simp add: check_b)
next
  case False
  then show ?thesis
    by (auto simp: check_i_tag_def split: option.splits if_splits)
qed

lemma tag_ok_no_arg:
  assumes "CHR '' '' \<notin> set k"
  shows "tag_ok k \<longleftrightarrow> k \<in> {''t'', ''d'', ''ds''}"
proof -
  have "k \<noteq> x @ CHR '' '' # y" for x y using assms by auto
  then show ?thesis by (simp add: tag_ok_def)
qed

lemma tag_ok_arg:
  assumes ns: "CHR '' '' \<notin> set k"
  shows "tag_ok (k @ CHR '' '' # a) \<longleftrightarrow>
    (k = ''b'' \<and> (\<exists>h. hex_arg h \<and> (a = h \<or> a = ''0x'' @ h))) \<or>
    (k \<in> {''r'', ''rc'', ''rd'', ''dz''} \<and>
      (\<exists>n. parse_unsigned u64_max a = Some n \<and> n \<le> 65535)) \<or>
    k \<in> {''t'', ''d'', ''ds''}"
proof -
  have ne: "k @ CHR '' '' # a \<notin> {''t'', ''d'', ''ds''}"
    by (cases k; cases "tl k") auto
  have sp: "CHR '' '' \<notin> set k'" if "k' \<in> {''b''} \<or> k' \<in> {''r'', ''rc'', ''rd'', ''dz''} \<or> k' \<in> {''t'', ''d'', ''ds''}" for k'
    using that by auto
  show ?thesis
    unfolding tag_ok_def
    by (subst append_sep_ex [OF ns], rule sp, blast, subst append_sep_ex [OF ns], rule sp, blast,
        subst append_sep_ex [OF ns], rule sp, blast) (use ne in blast)
qed

lemma tag_check_iff:
  "(case tag_key_arg t of (k, arg) \<Rightarrow> k \<noteq> [] \<and> check_i_tag k arg = Inr ()) \<longleftrightarrow> tag_ok t"
proof -
  obtain k arg where ka: "tag_key_arg t = (k, arg)" by fastforce
  show ?thesis
  proof (cases arg)
    case None
    with ka have t: "t = k" and "CHR '' '' \<notin> set k" by (simp_all add: tag_key_arg_eq)
    from this(2) have "tag_ok t \<longleftrightarrow> k \<in> {''t'', ''d'', ''ds''}" unfolding t by (rule tag_ok_no_arg)
    then show ?thesis unfolding ka None prod.case check_i_tag_iff by (cases "k = []") simp_all
  next
    case (Some a)
    with ka have t: "t = k @ CHR '' '' # a" and ns: "CHR '' '' \<notin> set k" by (simp_all add: tag_key_arg_eq)
    show ?thesis unfolding ka Some prod.case unfolding t tag_ok_arg [OF ns] check_i_tag_iff
      by (cases "k = []") simp_all
  qed
qed

lemma i_chain_split:
  assumes "split_once (CHR ''<'') v = Some (pre, from_start)"
    and "split_once (CHR ''>'') from_start = Some (t, post)"
  shows "i_chain v \<longleftrightarrow> tag_ok t \<and> (CHR ''<'' \<notin> set post \<or> i_chain post)"
proof
  have v: "v = pre @ CHR ''<'' # t @ CHR ''>'' # post"
    and pre: "CHR ''<'' \<notin> set pre" and t: "CHR ''>'' \<notin> set t"
    using assms by (simp_all add: split_once_Some)
  show "tag_ok t \<and> (CHR ''<'' \<notin> set post \<or> i_chain post) \<Longrightarrow> i_chain v"
    using v pre t i_chain.intros by blast
  assume "i_chain v"
  then show "tag_ok t \<and> (CHR ''<'' \<notin> set post \<or> i_chain post)"
  proof cases
    case (last_tag pre' t' post')
    then have "pre = pre' \<and> t @ CHR ''>'' # post = t' @ CHR ''>'' # post'"
      using append_sep_inj [OF pre last_tag(2)] v by simp
    with append_sep_inj [OF t last_tag(3)] last_tag show ?thesis by simp
  next
    case (more_tags pre' t' post')
    then have "pre = pre' \<and> t @ CHR ''>'' # post = t' @ CHR ''>'' # post'"
      using append_sep_inj [OF pre more_tags(2)] v by simp
    with append_sep_inj [OF t more_tags(3)] more_tags show ?thesis by simp
  qed
qed

lemma i_chain_open: "i_chain v \<Longrightarrow> CHR ''<'' \<in> set v"
  by (cases rule: i_chain.cases) auto

lemma i_chain_close:
  assumes "i_chain v" and "split_once (CHR ''<'') v = Some (pre, from_start)"
  shows "split_once (CHR ''>'') from_start \<noteq> None"
proof -
  have v: "v = pre @ CHR ''<'' # from_start" and pre: "CHR ''<'' \<notin> set pre"
    using assms(2) by (simp_all add: split_once_Some)
  from assms(1) show ?thesis
  proof cases
    case (last_tag pre' t' post')
    then show ?thesis using append_sep_inj [OF pre last_tag(2)] v by (simp add: split_once_None)
  next
    case (more_tags pre' t' post')
    then show ?thesis using append_sep_inj [OF pre more_tags(2)] v by (simp add: split_once_None)
  qed
qed

lemma i_tag_loop_iff:
  "i_tag_loop saw v = Inr () \<longleftrightarrow> i_chain v \<or> (saw \<and> CHR ''<'' \<notin> set v)"
proof (induction saw v rule: i_tag_loop.induct)
  case (1 saw v)
  show ?case
  proof (cases "split_once (CHR ''<'') v")
    case None
    then have "CHR ''<'' \<notin> set v" by (simp add: split_once_None)
    with None i_chain_open show ?thesis by (subst i_tag_loop.simps) auto
  next
    case (Some p)
    then obtain pre fs where p: "split_once (CHR ''<'') v = Some (pre, fs)" by fastforce
    then have lt: "CHR ''<'' \<in> set v" by (simp add: split_once_Some)
    show ?thesis
    proof (cases "split_once (CHR ''>'') fs")
      case None
      then have "\<not> i_chain v" using i_chain_close [OF _ p] by blast
      with None p lt show ?thesis by (subst i_tag_loop.simps) simp
    next
      case (Some q)
      then obtain t post where q: "split_once (CHR ''>'') fs = Some (t, post)" by fastforce
      obtain k arg where ka: "tag_key_arg t = (k, arg)" by fastforce
      have ok: "tag_ok t \<longleftrightarrow> k \<noteq> [] \<and> check_i_tag k arg = Inr ()"
        using tag_check_iff [of t] ka by simp
      show ?thesis
      proof (cases "k = [] \<or> check_i_tag k arg \<noteq> Inr ()")
        case True
        then show ?thesis using p q ka ok lt i_chain_split [OF p q]
          by (subst i_tag_loop.simps) (auto split: sum.split)
      next
        case False
        with 1 p q ka have "i_tag_loop True post = Inr () \<longleftrightarrow> i_chain post \<or> CHR ''<'' \<notin> set post"
          by simp
        then show ?thesis using False p q ka ok lt i_chain_split [OF p q]
          by (subst i_tag_loop.simps) auto
      qed
    qed
  qed
qed

section \<open>What the validators guarantee\<close>

lemma validate_conf_string_iff:
  "validate_conf_string f v = Inr () \<longleftrightarrow> set v \<inter> set forbidden_conf_chars = {}"
proof (cases "find (\<lambda>c. c \<in> set forbidden_conf_chars) v")
  case None
  then have "set v \<inter> set forbidden_conf_chars = {}" by (auto simp: find_None_iff)
  with None show ?thesis by (simp add: validate_conf_string_def)
next
  case (Some c)
  then have "c \<in> set v \<inter> set forbidden_conf_chars" by (auto simp: find_Some_iff)
  with Some show ?thesis by (auto simp: validate_conf_string_def)
qed

lemma validate_conf_string_no_nl:
  assumes "validate_conf_string f v = Inr ()"
  shows "CHR 0x0A \<notin> set v"
proof -
  have "CHR 0x0A \<in> set forbidden_conf_chars" by (simp add: forbidden_conf_chars_def)
  with assms show ?thesis unfolding validate_conf_string_iff by blast
qed

lemma validate_i_tag_conf: "validate_i_tag f v = Inr () \<Longrightarrow> validate_conf_string f v = Inr ()"
  by (auto simp: validate_i_tag_def res_simps)

lemma validate_range_string_conf:
  "validate_range_string f v = Inr () \<Longrightarrow> validate_conf_string f v = Inr ()"
  by (auto simp: validate_range_string_def res_simps)

lemma decode_hpk_conf: "decode_hpk b f v = Inr k \<Longrightarrow> validate_conf_string f v = Inr ()"
  by (auto simp: decode_hpk_def res_simps)

text \<open>C20: \<open>validate_i_tag\<close> accepts exactly the values that carry no conf-injection byte and are
  empty or a chain of well-formed tags.\<close>

theorem validate_i_tag_grammar:
  "validate_i_tag f v = Inr () \<longleftrightarrow>
    set v \<inter> set forbidden_conf_chars = {} \<and> (v = [] \<or> i_chain v)"
proof -
  have "i_tag_loop False v = Inr () \<longleftrightarrow> i_chain v" by (simp add: i_tag_loop_iff)
  then have "(case i_tag_loop False v of Inl r \<Rightarrow> Inl (ITagGrammar f v r) | Inr x \<Rightarrow> Inr ()) =
      (Inr () :: awg_error + unit) \<longleftrightarrow> i_chain v"
    by (auto split: sum.split)
  then show ?thesis
    by (simp add: validate_i_tag_def rbind_Inr_iff flip: validate_conf_string_iff [of f])
qed

text \<open>an H value with non-negative bounds survives its JSON encoding.\<close>

theorem ior_json_roundtrip:
  assumes "ior_bounds v = (lo, hi)" and "0 \<le> lo" and "is_i64 lo" and "is_i64 hi"
  shows "ior_deserialize (ior_serialize v) = Some v"
proof (cases v)
  case (Single n)
  with assms show ?thesis by (simp add: ior_serialize_def ior_deserialize_def ior_bounds_def)
next
  case (Range l h)
  with assms have lh: "l = lo" "h = hi" by (simp_all add: ior_bounds_def)
  have "CHR ''-'' \<notin> set (show_int lo)"
    using assms(2) by (auto simp: show_int_def dest: set_show_nat_digit)
  then have "split_once (CHR ''-'') (show_int lo @ ''-'' @ show_int hi) = Some (show_int lo, show_int hi)"
    by (simp add: split_once_Some)
  then show ?thesis
    using assms by (simp add: ior_serialize_def ior_deserialize_def Range lh int_or_range_parse_def
        parse_part_def parse_i64_show_int)
qed

theorem ior_json_roundtrip_witness:
  "ior_deserialize (ior_serialize (Range 5 4294967295)) = Some (Range 5 4294967295)"
  by (rule ior_json_roundtrip [of _ 5 4294967295]) (simp_all add: ior_bounds_def is_i64_def)

end
