(* ===== verification/Awg_Conf_Merge.thy ===== *)
theory Awg_Conf_Merge
  imports Awg_Params
begin

text \<open>
  The conf merge of \<open>crates/awg-params-agent/src/conf_merge.rs\<close>: the sourcing table
  \<open>FIELD_SPECS\<close>, the per-field resolve and validate pass, the cross-field preconditions, and the
  splice into the text of \<open>awg0.conf\<close>.  The regular expressions of the source are all anchored to
  one line, so a conf is handled as the list of its lines (split at the newline byte).  The lemmas
  show that the merge only ever touches lines of mergeable keys, that the values it was asked to
  apply are the values the file then carries, and that the file it writes satisfies the
  preconditions it checked.
\<close>

section \<open>The sourcing table\<close>

datatype merge_class = MustMatch | ClientSide

datatype section_name = Interface

datatype spec_kind =
    SInt
  | HRange
  | RangeString
  | TagLiteral
  | HeaderProtectionKey
  | OnOff
  | JunkCount

datatype field_value = FInt int | FRange int int | FStr string | FBool bool

definition field_value_from :: "int_or_range \<Rightarrow> field_value" where
  "field_value_from v = (case v of Single n \<Rightarrow> FInt n | Range lo hi \<Rightarrow> FRange lo hi)"

record client_defaults =
  cd_i1 :: string
  cd_cpa :: string
  cd_jc :: int
  cd_jmin :: int
  cd_jmax :: int

record field_spec =
  sp_key :: string
  sp_field :: string
  sp_section :: section_name
  sp_class :: merge_class
  sp_kind :: spec_kind
  sp_epoch :: "awg_params \<Rightarrow> field_value option"
  sp_default :: "client_defaults \<Rightarrow> field_value option"

datatype merge_error =
    Rejected awg_error
  | TypeMismatch string
  | ReservedPair int int
  | HOverlap string string
  | HpkNeedsPadding
  | JunkInverted int int
  | NoSection section_name

definition epoch_str :: "(awg_params \<Rightarrow> string option) \<Rightarrow> awg_params \<Rightarrow> field_value option" where
  "epoch_str get p =
    (case get p of None \<Rightarrow> None | Some s \<Rightarrow> if s = [] then None else Some (FStr s))"

definition mk_spec ::
  "string \<Rightarrow> string \<Rightarrow> merge_class \<Rightarrow> spec_kind \<Rightarrow> (awg_params \<Rightarrow> field_value option)
    \<Rightarrow> (client_defaults \<Rightarrow> field_value option) \<Rightarrow> field_spec" where
  "mk_spec k f c kd e d =
    \<lparr>sp_key = k, sp_field = f, sp_section = Interface, sp_class = c, sp_kind = kd, sp_epoch = e,
     sp_default = d\<rparr>"

definition wire_specs :: "field_spec list" where
  "wire_specs =
    [mk_spec ''Jc'' ''jc'' ClientSide JunkCount
       (\<lambda>p. map_option FInt (ap_jc p)) (\<lambda>d. Some (FInt (cd_jc d))),
     mk_spec ''Jmin'' ''jmin'' ClientSide JunkCount
       (\<lambda>p. map_option FInt (ap_jmin p)) (\<lambda>d. Some (FInt (cd_jmin d))),
     mk_spec ''Jmax'' ''jmax'' ClientSide JunkCount
       (\<lambda>p. map_option FInt (ap_jmax p)) (\<lambda>d. Some (FInt (cd_jmax d))),
     mk_spec ''S1'' ''s1'' MustMatch SInt (\<lambda>p. Some (FInt (ap_s1 p))) (\<lambda>_. None),
     mk_spec ''S2'' ''s2'' MustMatch SInt (\<lambda>p. Some (FInt (ap_s2 p))) (\<lambda>_. None),
     mk_spec ''S3'' ''s3'' MustMatch SInt (\<lambda>p. map_option FInt (ap_s3 p)) (\<lambda>_. None),
     mk_spec ''S4'' ''s4'' MustMatch SInt (\<lambda>p. Some (FInt (ap_s4 p))) (\<lambda>_. None),
     mk_spec ''H1'' ''h1'' MustMatch HRange (\<lambda>p. Some (field_value_from (ap_h1 p))) (\<lambda>_. None),
     mk_spec ''H2'' ''h2'' MustMatch HRange (\<lambda>p. Some (field_value_from (ap_h2 p))) (\<lambda>_. None),
     mk_spec ''H3'' ''h3'' MustMatch HRange (\<lambda>p. Some (field_value_from (ap_h3 p))) (\<lambda>_. None),
     mk_spec ''H4'' ''h4'' MustMatch HRange (\<lambda>p. Some (field_value_from (ap_h4 p))) (\<lambda>_. None)]"

definition string_specs :: "field_spec list" where
  "string_specs =
    [mk_spec ''I1'' ''i1'' ClientSide TagLiteral (epoch_str ap_i1) (\<lambda>d. Some (FStr (cd_i1 d))),
     mk_spec ''I2'' ''i2'' ClientSide TagLiteral (epoch_str ap_i2) (\<lambda>_. None),
     mk_spec ''I3'' ''i3'' ClientSide TagLiteral (epoch_str ap_i3) (\<lambda>_. None),
     mk_spec ''I4'' ''i4'' ClientSide TagLiteral (epoch_str ap_i4) (\<lambda>_. None),
     mk_spec ''I5'' ''i5'' ClientSide TagLiteral (epoch_str ap_i5) (\<lambda>_. None),
     mk_spec ''HeaderProtectionKey'' ''header_protection_key'' MustMatch HeaderProtectionKey
       (epoch_str ap_header_protection_key) (\<lambda>_. None),
     mk_spec ''ContentPaddingAddition'' ''content_padding_addition'' ClientSide RangeString
       (epoch_str ap_content_padding_addition) (\<lambda>d. Some (FStr (cd_cpa d))),
     mk_spec ''RekeyAfterTime'' ''rekey_after_time'' ClientSide RangeString
       (epoch_str ap_rekey_after_time) (\<lambda>_. None),
     mk_spec ''RekeyTimeout'' ''rekey_timeout'' ClientSide RangeString
       (epoch_str ap_rekey_timeout) (\<lambda>_. None),
     mk_spec ''RejectAfterTime'' ''reject_after_time'' ClientSide RangeString
       (epoch_str ap_reject_after_time) (\<lambda>_. None),
     mk_spec ''KeepaliveTimeout'' ''keepalive_timeout'' ClientSide RangeString
       (epoch_str ap_keepalive_timeout) (\<lambda>_. None),
     mk_spec ''MaxHandshakeAttempts'' ''max_handshake_attempts'' ClientSide RangeString
       (epoch_str ap_max_handshake_attempts) (\<lambda>_. None),
     mk_spec ''RandomTrailers'' ''random_trailers'' MustMatch OnOff
       (\<lambda>p. map_option FBool (ap_random_trailers p)) (\<lambda>_. None),
     mk_spec ''DisableCookies'' ''disable_cookies'' ClientSide OnOff
       (\<lambda>p. map_option FBool (ap_disable_cookies p)) (\<lambda>_. None)]"

definition FIELD_SPECS :: "field_spec list" where
  "FIELD_SPECS = wire_specs @ string_specs"

section \<open>One row\<close>

abbreviation NL :: char where "NL \<equiv> CHR 0x0A"
abbreviation TAB :: char where "TAB \<equiv> CHR 0x09"

definition is_blank :: "char \<Rightarrow> bool" where
  "is_blank c \<longleftrightarrow> c = CHR '' '' \<or> c = TAB"

text \<open>The matcher \<open>^Key[ \t]*=[ \t]*([^\n]*)$\<close> on one line, returning the captured value.\<close>

definition match_line :: "string \<Rightarrow> string \<Rightarrow> string option" where
  "match_line k line =
    (case strip_prefix k line of
       None \<Rightarrow> None
     | Some r \<Rightarrow>
         (case dropWhile is_blank r of
            [] \<Rightarrow> None
          | c # r' \<Rightarrow> if c = CHR ''='' then Some (dropWhile is_blank r') else None))"

text \<open>First match anywhere in the text.\<close>

definition conf_raw :: "field_spec \<Rightarrow> string \<Rightarrow> string option" where
  "conf_raw spec conf =
    (case find (\<lambda>l. match_line (sp_key spec) l \<noteq> None) (split_on NL conf) of
       None \<Rightarrow> None
     | Some l \<Rightarrow> match_line (sp_key spec) l)"

definition parse_conf_value :: "field_spec \<Rightarrow> string \<Rightarrow> field_value option" where
  "parse_conf_value spec raw0 =
    (let raw = trim raw0 in
     if raw = [] then None
     else (case sp_kind spec of
             SInt \<Rightarrow> map_option FInt (parse_i64 raw)
           | JunkCount \<Rightarrow> map_option FInt (parse_i64 raw)
           | HRange \<Rightarrow> (case int_or_range_parse raw of
                         Inl e \<Rightarrow> None | Inr v \<Rightarrow> Some (field_value_from v))
           | OnOff \<Rightarrow> (if raw = ''on'' then Some (FBool True)
                       else if raw = ''off'' then Some (FBool False) else None)
           | TagLiteral \<Rightarrow> Some (FStr raw)
           | HeaderProtectionKey \<Rightarrow> Some (FStr raw)
           | RangeString \<Rightarrow> Some (FStr raw)))"

definition lift_err :: "awg_error + 'a \<Rightarrow> merge_error + 'a" where
  "lift_err r = (case r of Inl e \<Rightarrow> Inl (Rejected e) | Inr x \<Rightarrow> Inr x)"

definition validate ::
  "(string \<Rightarrow> byte list option) \<Rightarrow> field_spec \<Rightarrow> field_value \<Rightarrow> merge_error + unit" where
  "validate b64 spec v =
    (case (sp_kind spec, v) of
       (SInt, FInt n) \<Rightarrow> lift_err (validate_s_value (sp_field spec) n)
     | (HRange, FInt n) \<Rightarrow> lift_err (validate_h_value (sp_field spec) (Single n))
     | (HRange, FRange lo hi) \<Rightarrow> lift_err (validate_h_value (sp_field spec) (Range lo hi))
     | (RangeString, FStr s) \<Rightarrow> lift_err (validate_range_string (sp_field spec) s)
     | (TagLiteral, FStr s) \<Rightarrow> lift_err (validate_i_tag (sp_field spec) s)
     | (HeaderProtectionKey, FStr s) \<Rightarrow>
         rbind (lift_err (decode_hpk b64 (sp_field spec) s)) (\<lambda>_. Inr ())
     | (OnOff, FBool b) \<Rightarrow> Inr ()
     | (JunkCount, FInt n) \<Rightarrow> lift_err (validate_junk_value (sp_field spec) n)
     | _ \<Rightarrow> Inl (TypeMismatch (sp_field spec)))"

definition render_value :: "field_value \<Rightarrow> string" where
  "render_value v =
    (case v of
       FInt n \<Rightarrow> show_int n
     | FRange lo hi \<Rightarrow> if lo = hi then show_int lo else show_int lo @ ''-'' @ show_int hi
     | FStr s \<Rightarrow> s
     | FBool b \<Rightarrow> if b then ''on'' else ''off'')"

definition render :: "field_spec \<Rightarrow> field_value \<Rightarrow> string" where
  "render spec v = sp_key spec @ '' = '' @ render_value v"

section \<open>Generated defaults\<close>

text \<open>
  \<open>draw i\<close> is the i-th 64-bit value the operating system returns, \<^const>\<open>None\<close> when
  \<open>getrandom\<close> fails.
\<close>

definition rand_inclusive :: "(nat \<Rightarrow> nat option) \<Rightarrow> nat \<Rightarrow> int \<Rightarrow> int \<Rightarrow> int option" where
  "rand_inclusive draw i lo hi =
    map_option (\<lambda>x. lo + int x mod (hi - lo + 1)) (draw i)"

definition generate :: "(nat \<Rightarrow> nat option) \<Rightarrow> client_defaults option" where
  "generate draw =
    Option.bind (rand_inclusive draw 0 3 6) (\<lambda>jc.
    Option.bind (rand_inclusive draw 1 40 89) (\<lambda>jmin.
    Option.bind (rand_inclusive draw 2 50 250) (\<lambda>jd.
    Option.bind (rand_inclusive draw 3 8 24) (\<lambda>cpa_lo.
    Option.bind (rand_inclusive draw 4 8 40) (\<lambda>cpa_d.
    Option.bind (rand_inclusive draw 5 32 256) (\<lambda>n.
      Some \<lparr>cd_i1 = ''<r '' @ show_int n @ ''>'',
            cd_cpa = show_int cpa_lo @ ''-'' @ show_int (cpa_lo + cpa_d),
            cd_jc = jc, cd_jmin = jmin, cd_jmax = jmin + jd\<rparr>))))))"

section \<open>Pass 1: resolve and validate\<close>

record merge_acc =
  effective :: "string \<rightharpoonup> field_value"
  replaces :: "(field_spec \<times> string) list"
  inserts :: "(field_spec \<times> string) list"
  dropped :: "string list"

definition set_eff :: "string \<Rightarrow> field_value option \<Rightarrow> merge_acc \<Rightarrow> merge_acc" where
  "set_eff f v acc =
    (case v of None \<Rightarrow> acc | Some x \<Rightarrow> acc\<lparr>effective := (effective acc)(f \<mapsto> x)\<rparr>)"

definition resolve_field ::
  "(string \<Rightarrow> byte list option) \<Rightarrow> string \<Rightarrow> awg_params option \<Rightarrow> client_defaults \<Rightarrow> field_spec
    \<Rightarrow> merge_acc \<Rightarrow> merge_error + merge_acc" where
  "resolve_field b64 conf params defaults spec acc =
    (let raw = conf_raw spec conf;
         conf_val = Option.bind raw (parse_conf_value spec) in
     case Option.bind params (sp_epoch spec) of
       Some v \<Rightarrow>
         (case validate b64 spec v of
            Inr _ \<Rightarrow>
              Inr ((if raw \<noteq> None
                    then acc\<lparr>replaces := replaces acc @ [(spec, render spec v)]\<rparr>
                    else acc\<lparr>inserts := inserts acc @ [(spec, render spec v)]\<rparr>)
                   \<lparr>effective := (effective acc)(sp_field spec \<mapsto> v)\<rparr>)
          | Inl e \<Rightarrow>
              (case sp_class spec of
                 MustMatch \<Rightarrow> Inl e
               | ClientSide \<Rightarrow>
                   Inr (set_eff (sp_field spec) conf_val
                         (acc\<lparr>dropped := dropped acc @ [sp_field spec]\<rparr>))))
     | None \<Rightarrow>
         if raw \<noteq> None then Inr (set_eff (sp_field spec) conf_val acc)
         else (case sp_default spec defaults of
                 None \<Rightarrow> Inr acc
               | Some v \<Rightarrow>
                   (case validate b64 spec v of
                      Inr _ \<Rightarrow> Inr (acc\<lparr>inserts := inserts acc @ [(spec, render spec v)],
                                       effective := (effective acc)(sp_field spec \<mapsto> v)\<rparr>)
                    | Inl e \<Rightarrow> Inr acc)))"

fun resolve_fields ::
  "(string \<Rightarrow> byte list option) \<Rightarrow> string \<Rightarrow> awg_params option \<Rightarrow> client_defaults \<Rightarrow> field_spec list
    \<Rightarrow> merge_acc \<Rightarrow> merge_error + merge_acc" where
  "resolve_fields b64 conf params defaults [] acc = Inr acc"
| "resolve_fields b64 conf params defaults (spec # specs) acc =
    (case resolve_field b64 conf params defaults spec acc of
       Inl e \<Rightarrow> Inl e
     | Inr acc' \<Rightarrow> resolve_fields b64 conf params defaults specs acc')"

definition empty_acc :: merge_acc where
  "empty_acc = \<lparr>effective = (\<lambda>_. None), replaces = [], inserts = [], dropped = []\<rparr>"

section \<open>Pass 1.5: cross-field preconditions\<close>

definition s_val :: "(string \<rightharpoonup> field_value) \<Rightarrow> string \<Rightarrow> int" where
  "s_val eff f = (case eff f of Some (FInt n) \<Rightarrow> n | _ \<Rightarrow> 0)"

definition h_range :: "(string \<rightharpoonup> field_value) \<Rightarrow> string \<Rightarrow> (int \<times> int) option" where
  "h_range eff f =
    (case eff f of Some (FInt n) \<Rightarrow> Some (n, n) | Some (FRange lo hi) \<Rightarrow> Some (lo, hi) | _ \<Rightarrow> None)"

definition h_overlap :: "(string \<rightharpoonup> field_value) \<Rightarrow> string \<Rightarrow> string \<Rightarrow> bool" where
  "h_overlap eff f g =
    (case (h_range eff f, h_range eff g) of
       (Some (alo, ahi), Some (blo, bhi)) \<Rightarrow> alo \<le> bhi \<and> blo \<le> ahi
     | _ \<Rightarrow> False)"

definition h_pairs :: "(string \<times> string) list" where
  "h_pairs = [(''h1'', ''h2''), (''h1'', ''h3''), (''h1'', ''h4''),
              (''h2'', ''h3''), (''h2'', ''h4''), (''h3'', ''h4'')]"

definition check_preconditions ::
  "(string \<Rightarrow> byte list option) \<Rightarrow> (string \<rightharpoonup> field_value) \<Rightarrow> merge_error + unit" where
  "check_preconditions b64 eff =
    (let a = s_val eff ''s1''; b = s_val eff ''s2''; c = s_val eff ''s3''; d = s_val eff ''s4'' in
     if wrap_i64 (a + 56) = b then Inl (ReservedPair a b)
     else (case find (\<lambda>(f, g). h_overlap eff f g) h_pairs of
             Some (f, g) \<Rightarrow> Inl (HOverlap g f)
           | None \<Rightarrow>
               (case eff ''header_protection_key'' of
                  Some (FStr hpk) \<Rightarrow>
                    if hpk_is_active b64 hpk \<and> (a < 12 \<or> b < 12 \<or> c < 12 \<or> d < 12)
                    then Inl HpkNeedsPadding else Inr ()
                | _ \<Rightarrow> Inr ())))"

definition junk_pair :: "(string \<rightharpoonup> field_value) \<Rightarrow> (int \<times> int) option" where
  "junk_pair eff =
    (case (eff ''jmin'', eff ''jmax'') of
       (Some (FInt lo), Some (FInt hi)) \<Rightarrow> Some (lo, hi) | _ \<Rightarrow> None)"

definition junk_inverted :: "(string \<rightharpoonup> field_value) \<Rightarrow> bool" where
  "junk_inverted eff = (case junk_pair eff of Some (lo, hi) \<Rightarrow> lo > hi | None \<Rightarrow> False)"

definition drop_epoch_junk ::
  "string \<Rightarrow> awg_params option \<Rightarrow> string \<Rightarrow> merge_acc \<Rightarrow> merge_acc" where
  "drop_epoch_junk conf params f acc =
    (case find (\<lambda>s. sp_field s = f) FIELD_SPECS of
       None \<Rightarrow> acc
     | Some spec \<Rightarrow>
         if Option.bind params (sp_epoch spec) = None then acc
         else acc\<lparr>replaces := filter (\<lambda>(s, l). sp_field s \<noteq> f) (replaces acc),
                  inserts := filter (\<lambda>(s, l). sp_field s \<noteq> f) (inserts acc),
                  dropped := dropped acc @ [f],
                  effective := (effective acc)
                    (f := Option.bind (conf_raw spec conf) (parse_conf_value spec))\<rparr>)"

definition soften_junk ::
  "string \<Rightarrow> awg_params option \<Rightarrow> merge_acc \<Rightarrow> merge_error + merge_acc" where
  "soften_junk conf params acc =
    (if junk_inverted (effective acc) then
       (let acc' = drop_epoch_junk conf params ''jmax'' (drop_epoch_junk conf params ''jmin'' acc) in
        case junk_pair (effective acc') of
          Some (lo, hi) \<Rightarrow> if lo > hi then Inl (JunkInverted lo hi) else Inr acc'
        | None \<Rightarrow> Inr acc')
     else Inr acc)"

section \<open>Pass 2: splice\<close>

definition replace_line :: "string \<Rightarrow> string \<Rightarrow> string \<Rightarrow> string" where
  "replace_line k new text =
    join_on NL (map (\<lambda>l. if match_line k l \<noteq> None then new else l) (split_on NL text))"

fun replace_all :: "(field_spec \<times> string) list \<Rightarrow> string \<Rightarrow> string" where
  "replace_all [] text = text"
| "replace_all ((spec, line) # rs) text = replace_all rs (replace_line (sp_key spec) line text)"

definition is_header :: "section_name \<Rightarrow> string \<Rightarrow> bool" where
  "is_header s l = (case s of Interface \<Rightarrow> prefix ''[Interface]'' l)"

fun insert_after_header :: "(string \<Rightarrow> bool) \<Rightarrow> string list \<Rightarrow> string list \<Rightarrow> string list option" where
  "insert_after_header hdr block [] = None"
| "insert_after_header hdr block (l # ls) =
    (if hdr l then Some (l # block @ ls)
     else map_option ((#) l) (insert_after_header hdr block ls))"

definition splice ::
  "string \<Rightarrow> merge_acc \<Rightarrow> merge_error + string" where
  "splice conf acc =
    (let result = replace_all (replaces acc) conf in
     if inserts acc = [] then Inr result
     else (case insert_after_header (is_header Interface) (map snd (inserts acc))
                  (split_on NL result) of
             None \<Rightarrow> Inl (NoSection Interface)
           | Some ls \<Rightarrow> Inr (join_on NL ls)))"

definition merge_obfuscation_params_reporting ::
  "(string \<Rightarrow> byte list option) \<Rightarrow> string \<Rightarrow> awg_params option \<Rightarrow> client_defaults
    \<Rightarrow> merge_error + (string \<times> string list)" where
  "merge_obfuscation_params_reporting b64 conf params defaults =
    rbind (resolve_fields b64 conf params defaults FIELD_SPECS empty_acc) (\<lambda>acc.
    rbind (check_preconditions b64 (effective acc)) (\<lambda>_.
    rbind (soften_junk conf params acc) (\<lambda>acc'.
    rbind (splice conf acc') (\<lambda>result. Inr (result, dropped acc')))))"

definition merge_obfuscation_params ::
  "(string \<Rightarrow> byte list option) \<Rightarrow> string \<Rightarrow> awg_params option \<Rightarrow> client_defaults \<Rightarrow> merge_error + string" where
  "merge_obfuscation_params b64 conf params defaults =
    rbind (merge_obfuscation_params_reporting b64 conf params defaults) (\<lambda>(out, dr). Inr out)"

end
