(* ===== verification/Awg_Conf_Lines.thy ===== *)
theory Awg_Conf_Lines
  imports Awg_Conf_Merge
begin

text \<open>
  Line-level facts of the conf merge: which lines a key's matcher selects, what replacing and
  inserting lines does to the lines of another key, and the locale \<open>spec_table\<close> with the laws a
  sourcing table has to satisfy for the splice to be local.  It is interpreted on \<open>FIELD_SPECS\<close>.
\<close>

definition good_key :: "string \<Rightarrow> bool" where
  "good_key k \<longleftrightarrow>
    k \<noteq> [] \<and> list_all (\<lambda>c. \<not> is_blank c \<and> c \<noteq> CHR ''='' \<and> c \<noteq> NL \<and> c \<noteq> CHR ''['') k"

definition line_key :: "string \<Rightarrow> string" where
  "line_key l = takeWhile (\<lambda>c. \<not> is_blank c \<and> c \<noteq> CHR ''='') l"

lemma match_line_Some:
  "match_line k l = Some r \<longleftrightarrow>
    (\<exists>bs r'. l = k @ bs @ CHR ''='' # r' \<and> list_all is_blank bs \<and> r = dropWhile is_blank r')"
proof
  assume "match_line k l = Some r"
  then obtain s r' where l: "l = k @ s" and s: "dropWhile is_blank s = CHR ''='' # r'"
    and r: "r = dropWhile is_blank r'"
    by (auto simp: match_line_def strip_prefix_Some split: option.splits list.splits if_splits)
  have "s = takeWhile is_blank s @ CHR ''='' # r'"
    using s by (metis takeWhile_dropWhile_id)
  moreover have "list_all is_blank (takeWhile is_blank s)"
    by (auto simp: list_all_iff dest: set_takeWhileD)
  ultimately show "\<exists>bs r'. l = k @ bs @ CHR ''='' # r' \<and> list_all is_blank bs \<and> r = dropWhile is_blank r'"
    using l r by blast
next
  assume "\<exists>bs r'. l = k @ bs @ CHR ''='' # r' \<and> list_all is_blank bs \<and> r = dropWhile is_blank r'"
  then obtain bs r' where l: "l = k @ bs @ CHR ''='' # r'" and bs: "list_all is_blank bs"
    and r: "r = dropWhile is_blank r'" by blast
  have "strip_prefix k l = Some (bs @ CHR ''='' # r')" by (simp add: strip_prefix_Some l)
  moreover have "dropWhile is_blank (bs @ CHR ''='' # r') = CHR ''='' # r'"
    using bs by (simp add: list_all_iff dropWhile_append2 is_blank_def)
  ultimately show "match_line k l = Some r" by (simp add: match_line_def r)
qed

lemma match_line_key:
  assumes "good_key k" and "match_line k l \<noteq> None"
  shows "line_key l = k"
proof -
  obtain bs r' where l: "l = k @ bs @ CHR ''='' # r'" and bs: "list_all is_blank bs"
    using assms(2) by (auto simp: match_line_Some)
  have "takeWhile (\<lambda>c. \<not> is_blank c \<and> c \<noteq> CHR ''='') (bs @ CHR ''='' # r') = []"
    using bs by (cases bs) simp_all
  moreover have "\<forall>c \<in> set k. \<not> is_blank c \<and> c \<noteq> CHR ''=''"
    using assms(1) by (simp add: good_key_def list_all_iff)
  ultimately show ?thesis by (simp add: line_key_def l takeWhile_append2)
qed

lemma match_line_unique:
  "good_key k \<Longrightarrow> good_key k' \<Longrightarrow> match_line k l \<noteq> None \<Longrightarrow> match_line k' l \<noteq> None \<Longrightarrow> k = k'"
  using match_line_key by blast

lemma match_line_not_header:
  "good_key k \<Longrightarrow> match_line k l \<noteq> None \<Longrightarrow> \<not> is_header s l"
proof
  assume "good_key k" and "match_line k l \<noteq> None" and "is_header s l"
  then obtain bs r' c k' where "l = k @ bs @ CHR ''='' # r'" and "k = c # k'" and "c \<noteq> CHR ''[''"
    by (cases k) (auto simp: match_line_Some good_key_def)
  with \<open>is_header s l\<close> show False by (cases s) (auto simp: is_header_def)
qed

definition key_lines :: "string \<Rightarrow> string list \<Rightarrow> string list" where
  "key_lines k ls = filter (\<lambda>l. match_line k l \<noteq> None) ls"

lemma find_filter: "find P xs = (case filter P xs of [] \<Rightarrow> None | y # ys \<Rightarrow> Some y)"
  by (induction xs) simp_all

lemma conf_raw_key_lines:
  "conf_raw spec conf =
    (case key_lines (sp_key spec) (split_on NL conf) of [] \<Rightarrow> None | l # ls \<Rightarrow> match_line (sp_key spec) l)"
  unfolding conf_raw_def key_lines_def find_filter by (simp split: list.split)

lemma conf_raw_None: "conf_raw spec conf = None \<longleftrightarrow> key_lines (sp_key spec) (split_on NL conf) = []"
proof (cases "key_lines (sp_key spec) (split_on NL conf)")
  case (Cons l ls)
  then have "l \<in> set (key_lines (sp_key spec) (split_on NL conf))" by simp
  then have "match_line (sp_key spec) l \<noteq> None" by (simp add: key_lines_def)
  with Cons show ?thesis by (simp add: conf_raw_key_lines)
qed (simp add: conf_raw_key_lines)

lemma key_lines_map:
  assumes "good_key k" and "good_key k'" and "match_line k' new \<noteq> None"
  shows "key_lines k (map (\<lambda>l. if match_line k' l \<noteq> None then new else l) ls) =
    (if k = k' then map (\<lambda>_. new) (key_lines k ls) else key_lines k ls)"
proof (induction ls)
  case (Cons l ls)
  show ?case
  proof (cases "match_line k' l = None")
    case True
    with Cons show ?thesis by (auto simp: key_lines_def)
  next
    case False
    then have "match_line k l \<noteq> None \<longleftrightarrow> k = k'" and "match_line k new \<noteq> None \<longleftrightarrow> k = k'"
      using assms match_line_unique by blast+
    with False Cons show ?thesis by (cases "k = k'") (simp_all add: key_lines_def)
  qed
qed (simp add: key_lines_def)

lemma key_lines_insert:
  assumes "insert_after_header hdr block ls = Some ls'"
  shows "\<exists>pre post. ls = pre @ post \<and> ls' = pre @ block @ post \<and> pre \<noteq> [] \<and> hdr (last pre)"
  using assms
proof (induction ls arbitrary: ls')
  case (Cons l ls)
  show ?case
  proof (cases "hdr l")
    case True
    with Cons.prems have "l # ls = [l] @ ls \<and> ls' = [l] @ block @ ls \<and> hdr (last [l])" by simp
    then show ?thesis by blast
  next
    case False
    with Cons.prems obtain ls'' where "insert_after_header hdr block ls = Some ls''" "ls' = l # ls''"
      by auto
    with Cons.IH obtain pre post where "ls = pre @ post" "ls'' = pre @ block @ post" "pre \<noteq> []" "hdr (last pre)"
      by blast
    with \<open>ls' = l # ls''\<close> have "l # ls = (l # pre) @ post \<and> ls' = (l # pre) @ block @ post \<and> hdr (last (l # pre))"
      by simp
    then show ?thesis by blast
  qed
qed simp

section \<open>Rendered lines\<close>

lemma NL_not_digit: "\<not> is_digit NL" "NL \<noteq> CHR ''-''" "NL \<noteq> CHR '' ''" "NL \<noteq> CHR ''=''"
  by (simp_all add: is_digit_def)

lemma NL_show_int: "NL \<notin> set (show_int v)"
  using set_show_int NL_not_digit by blast

lemma lift_err_Inr [simp]: "lift_err r = Inr x \<longleftrightarrow> r = Inr x"
  by (cases r) (simp_all add: lift_err_def)

lemma validate_no_nl:
  assumes "validate b64 spec v = Inr ()"
  shows "NL \<notin> set (render_value v)"
proof (cases v)
  case (FStr s)
  have "validate_conf_string (sp_field spec) s = Inr ()"
    using assms by (auto simp: validate_def FStr res_simps split: spec_kind.splits
        dest: validate_i_tag_conf validate_range_string_conf decode_hpk_conf)
  then show ?thesis using validate_conf_string_no_nl by (simp add: render_value_def FStr)
qed (use NL_show_int NL_not_digit in \<open>auto simp: render_value_def\<close>)

lemma render_no_nl:
  assumes "good_key (sp_key spec)" and "validate b64 spec v = Inr ()"
  shows "NL \<notin> set (render spec v)"
  using assms validate_no_nl [OF assms(2)] NL_not_digit
  by (auto simp: render_def good_key_def list_all_iff)

lemma match_render: "match_line (sp_key spec) (render spec v) = Some (dropWhile is_blank (render_value v))"
proof -
  have "render spec v = sp_key spec @ '' '' @ CHR ''='' # '' '' @ render_value v"
    by (simp add: render_def)
  moreover have "list_all is_blank '' ''" by (simp add: is_blank_def)
  moreover have "dropWhile is_blank ('' '' @ render_value v) = dropWhile is_blank (render_value v)"
    by (simp add: is_blank_def)
  ultimately show ?thesis unfolding match_line_Some by metis
qed

end
