(* ===== verification/Awg_Merge_Correct.thy ===== *)
theory Awg_Merge_Correct
  imports Awg_Conf_Lines
begin

text \<open>
  Correctness of the conf merge.  \<open>written\<close>, \<open>resolved\<close> and \<open>omitted\<close> give the outcome of pass 1 for
  one row of the table; the lemmas lift them to the whole table and through the splice, so that
  the theorems read back from the written file what the merge was asked to put there.
\<close>

section \<open>Pass 1, row by row\<close>

definition conf_value :: "field_spec \<Rightarrow> string \<Rightarrow> field_value option" where
  "conf_value spec conf = Option.bind (conf_raw spec conf) (parse_conf_value spec)"

definition accepted :: "(string \<Rightarrow> byte list option) \<Rightarrow> field_spec \<Rightarrow> field_value option \<Rightarrow> field_value option" where
  "accepted b64 spec ov =
    (case ov of Some v \<Rightarrow> if validate b64 spec v = Inr () then Some v else None | None \<Rightarrow> None)"

definition written ::
  "(string \<Rightarrow> byte list option) \<Rightarrow> string \<Rightarrow> awg_params option \<Rightarrow> client_defaults \<Rightarrow> field_spec
    \<Rightarrow> field_value option" where
  "written b64 conf params d spec =
    (case Option.bind params (sp_epoch spec) of
       Some v \<Rightarrow> accepted b64 spec (Some v)
     | None \<Rightarrow> if conf_raw spec conf \<noteq> None then None else accepted b64 spec (sp_default spec d))"

definition resolved ::
  "(string \<Rightarrow> byte list option) \<Rightarrow> string \<Rightarrow> awg_params option \<Rightarrow> client_defaults \<Rightarrow> field_spec
    \<Rightarrow> field_value option" where
  "resolved b64 conf params d spec =
    (case written b64 conf params d spec of Some v \<Rightarrow> Some v | None \<Rightarrow> conf_value spec conf)"

definition omitted ::
  "(string \<Rightarrow> byte list option) \<Rightarrow> awg_params option \<Rightarrow> field_spec \<Rightarrow> bool" where
  "omitted b64 params spec =
    (case Option.bind params (sp_epoch spec) of
       Some v \<Rightarrow> validate b64 spec v \<noteq> Inr ()
     | None \<Rightarrow> False)"

definition writes :: "(field_spec \<Rightarrow> field_value option) \<Rightarrow> field_spec list \<Rightarrow> (field_spec \<times> string) list" where
  "writes w ss = map (\<lambda>s. (s, render s (the (w s)))) (filter (\<lambda>s. w s \<noteq> None) ss)"

definition upd_opt :: "string \<Rightarrow> field_value option \<Rightarrow> (string \<rightharpoonup> field_value) \<Rightarrow> (string \<rightharpoonup> field_value)" where
  "upd_opt f ov e = (case ov of Some v \<Rightarrow> e(f \<mapsto> v) | None \<Rightarrow> e)"

definition on_conf :: "string \<Rightarrow> bool \<Rightarrow> (field_spec \<Rightarrow> field_value option) \<Rightarrow> field_spec \<Rightarrow> field_value option" where
  "on_conf conf present w s = (if (conf_raw s conf \<noteq> None) = present then w s else None)"

lemma writes_simps [simp]:
  "writes w [] = []"
  "writes w (s # ss) = (case w s of Some v \<Rightarrow> (s, render s v) # writes w ss | None \<Rightarrow> writes w ss)"
  by (auto simp: writes_def split: option.split)

lemma validate_cases: "validate b64 s v = Inr () \<or> (\<exists>e. validate b64 s v = Inl e)"
  by (cases "validate b64 s v") auto

lemma resolve_field_eq:
  "resolve_field b64 conf params d s acc =
    (if sp_class s = MustMatch \<and> omitted b64 params s
     then Inl (projl (validate b64 s (the (Option.bind params (sp_epoch s)))))
     else Inr \<lparr>effective = upd_opt (sp_field s) (resolved b64 conf params d s) (effective acc),
               replaces = replaces acc @ writes (on_conf conf True (written b64 conf params d)) [s],
               inserts = inserts acc @ writes (on_conf conf False (written b64 conf params d)) [s],
               dropped = dropped acc @ (if omitted b64 params s then [sp_field s] else [])\<rparr>)"
proof (cases "Option.bind params (sp_epoch s)")
  case None
  show ?thesis
  proof (cases "conf_raw s conf")
    case raw: None
    show ?thesis
    proof (cases "sp_default s d")
      case (Some v)
      with None raw validate_cases [of b64 s v] show ?thesis
        by (auto simp: resolve_field_def Let_def omitted_def written_def resolved_def on_conf_def
            upd_opt_def accepted_def conf_value_def)
    qed (use None raw in \<open>simp add: resolve_field_def Let_def omitted_def written_def resolved_def
        on_conf_def upd_opt_def accepted_def conf_value_def\<close>)
  next
    case (Some r)
    with None show ?thesis
      by (simp add: resolve_field_def Let_def omitted_def written_def resolved_def on_conf_def
          upd_opt_def accepted_def conf_value_def set_eff_def split: option.split)
  qed
next
  case (Some v)
  show ?thesis
  proof (cases "validate b64 s v = Inr ()")
    case True
    with Some show ?thesis
      by (cases "conf_raw s conf") (simp_all add: resolve_field_def Let_def omitted_def written_def
          resolved_def on_conf_def upd_opt_def accepted_def)
  next
    case False
    with validate_cases [of b64 s v] obtain e where "validate b64 s v = Inl e" by blast
    with Some show ?thesis
      by (cases "sp_class s") (simp_all add: resolve_field_def Let_def omitted_def written_def
          resolved_def on_conf_def upd_opt_def accepted_def conf_value_def set_eff_def split: option.split)
  qed
qed

definition eff_of ::
  "(field_spec \<Rightarrow> field_value option) \<Rightarrow> field_spec list \<Rightarrow> (string \<rightharpoonup> field_value) \<Rightarrow> (string \<rightharpoonup> field_value)" where
  "eff_of r ss e = foldl (\<lambda>e s. upd_opt (sp_field s) (r s) e) e ss"

lemma writes_append: "writes w (xs @ ys) = writes w xs @ writes w ys"
  by (induction xs) (simp_all split: option.split)

lemma resolve_fields_eq:
  "resolve_fields b64 conf params d ss acc = Inr acc' \<longleftrightarrow>
    (\<forall>s \<in> set ss. \<not> (sp_class s = MustMatch \<and> omitted b64 params s)) \<and>
    acc' = \<lparr>effective = eff_of (resolved b64 conf params d) ss (effective acc),
            replaces = replaces acc @ writes (on_conf conf True (written b64 conf params d)) ss,
            inserts = inserts acc @ writes (on_conf conf False (written b64 conf params d)) ss,
            dropped = dropped acc @ map sp_field (filter (omitted b64 params) ss)\<rparr>"
proof (induction ss arbitrary: acc)
  case Nil
  then show ?case by (auto simp: eff_of_def)
next
  case (Cons s ss)
  show ?case
  proof (cases "sp_class s = MustMatch \<and> omitted b64 params s")
    case True
    then show ?thesis by (simp add: resolve_field_eq)
  next
    case False
    have w: "writes w (s # ss) = writes w [s] @ writes w ss" for w
      using writes_append [of w "[s]" ss] by simp
    show ?thesis
      unfolding resolve_fields.simps resolve_field_eq if_not_P [OF False] sum.case Cons.IH w
      using False by (auto simp: eff_of_def)
  qed
qed

lemma eff_of_other: "f \<notin> sp_field ` set ss \<Longrightarrow> eff_of r ss e f = e f"
  by (induction ss arbitrary: e) (simp_all add: eff_of_def upd_opt_def split: option.split)

lemma eff_of_field:
  assumes "distinct (map sp_field ss)" and "s \<in> set ss" and "e (sp_field s) = None"
  shows "eff_of r ss e (sp_field s) = r s"
  using assms
proof (induction ss arbitrary: e)
  case (Cons a ss)
  have step: "eff_of r (a # ss) e = eff_of r ss (upd_opt (sp_field a) (r a) e)" by (simp add: eff_of_def)
  show ?case
  proof (cases "s = a")
    case True
    with Cons.prems have "sp_field s \<notin> sp_field ` set ss" by simp
    with True Cons.prems show ?thesis
      by (simp add: step eff_of_other upd_opt_def split: option.split)
  next
    case False
    with Cons.prems have "sp_field s \<in> sp_field ` set ss" and "sp_field a \<notin> sp_field ` set ss"
      by simp_all
    then have "sp_field s \<noteq> sp_field a" by metis
    with False Cons show ?thesis by (simp add: step upd_opt_def split: option.split)
  qed
qed simp

section \<open>The splice is local\<close>

definition split_lines :: "string \<Rightarrow> string list" where
  "split_lines conf = split_on NL conf"

definition key_value :: "field_spec \<Rightarrow> string list \<Rightarrow> string option" where
  "key_value s ls =
    (case key_lines (sp_key s) ls of [] \<Rightarrow> None | l # _ \<Rightarrow> match_line (sp_key s) l)"

lemma conf_raw_key_value: "conf_raw s conf = key_value s (split_lines conf)"
  by (simp add: conf_raw_key_lines key_value_def split_lines_def)

definition param_line :: "field_spec list \<Rightarrow> string \<Rightarrow> bool" where
  "param_line specs l = list_ex (\<lambda>s. match_line (sp_key s) l \<noteq> None) specs"

locale spec_table =
  fixes specs :: "field_spec list"
  assumes keys_good: "s \<in> set specs \<Longrightarrow> good_key (sp_key s)"
    and keys_distinct: "distinct (map sp_key specs)"
    and fields_distinct: "distinct (map sp_field specs)"
begin

lemma key_inj: "s \<in> set specs \<Longrightarrow> t \<in> set specs \<Longrightarrow> sp_key s = sp_key t \<Longrightarrow> s = t"
  using keys_distinct by (metis distinct_map inj_on_def)

lemma field_inj: "s \<in> set specs \<Longrightarrow> t \<in> set specs \<Longrightarrow> sp_field s = sp_field t \<Longrightarrow> s = t"
  using fields_distinct by (metis distinct_map inj_on_def)

lemma split_replace_line:
  assumes "NL \<notin> set new"
  shows "split_lines (replace_line k new conf) =
    map (\<lambda>l. if match_line k l \<noteq> None then new else l) (split_lines conf)"
  unfolding replace_line_def split_lines_def
  by (rule split_join) (use assms in \<open>auto dest: split_on_no_sep split: if_splits\<close>)

lemma key_lines_replace_all:
  assumes "set ss \<subseteq> set specs" and "distinct ss"
    and "\<And>s. s \<in> set ss \<Longrightarrow> w s \<noteq> None \<Longrightarrow> NL \<notin> set (render s (the (w s)))"
    and "t \<in> set specs"
  shows "key_lines (sp_key t) (split_lines (replace_all (writes w ss) conf)) =
    (if t \<in> set ss \<and> w t \<noteq> None
     then map (\<lambda>_. render t (the (w t))) (key_lines (sp_key t) (split_lines conf))
     else key_lines (sp_key t) (split_lines conf))"
  using assms
proof (induction ss arbitrary: conf)
  case (Cons a ss)
  show ?case
  proof (cases "w a")
    case None
    with Cons show ?thesis by (cases "t = a") simp_all
  next
    case (Some v)
    let ?conf = "replace_line (sp_key a) (render a v) conf"
    have nl: "NL \<notin> set (render a v)" using Cons.prems(3) [of a] Some by simp
    have "key_lines (sp_key t) (split_lines ?conf) =
        (if sp_key t = sp_key a then map (\<lambda>_. render a v) (key_lines (sp_key t) (split_lines conf))
         else key_lines (sp_key t) (split_lines conf))"
      unfolding split_replace_line [OF nl]
      by (rule key_lines_map) (use Cons.prems keys_good match_render in auto)
    moreover have "sp_key t = sp_key a \<longleftrightarrow> t = a" using Cons.prems key_inj by auto
    moreover have "key_lines (sp_key t) (split_lines (replace_all (writes w ss) ?conf)) =
        (if t \<in> set ss \<and> w t \<noteq> None
         then map (\<lambda>_. render t (the (w t))) (key_lines (sp_key t) (split_lines ?conf))
         else key_lines (sp_key t) (split_lines ?conf))"
      by (rule Cons.IH) (use Cons.prems in auto)
    ultimately show ?thesis using Cons.prems(2) Some by auto
  qed
qed simp

lemma param_line_render: "s \<in> set specs \<Longrightarrow> param_line specs (render s v)"
  unfolding param_line_def list_ex_iff using match_render by blast

lemma other_lines_replace_all:
  assumes "set ss \<subseteq> set specs"
    and "\<And>s. s \<in> set ss \<Longrightarrow> w s \<noteq> None \<Longrightarrow> NL \<notin> set (render s (the (w s)))"
  shows "filter (\<lambda>l. \<not> param_line specs l) (split_lines (replace_all (writes w ss) conf)) =
    filter (\<lambda>l. \<not> param_line specs l) (split_lines conf)"
  using assms
proof (induction ss arbitrary: conf)
  case (Cons a ss)
  show ?case
  proof (cases "w a")
    case None
    with Cons show ?thesis by simp
  next
    case (Some v)
    let ?f = "\<lambda>l. if match_line (sp_key a) l \<noteq> None then render a v else l"
    have nl: "NL \<notin> set (render a v)" using Cons.prems(2) [of a] Some by simp
    have pa: "param_line specs (render a v)" using Cons.prems param_line_render by auto
    have pm: "match_line (sp_key a) l \<noteq> None \<Longrightarrow> param_line specs l" for l
      using Cons.prems by (auto simp: param_line_def list_ex_iff)
    have "filter (\<lambda>l. \<not> param_line specs l) (map ?f ls) = filter (\<lambda>l. \<not> param_line specs l) ls" for ls
      using pa pm by (induction ls) auto
    then show ?thesis using Cons Some by (simp add: split_replace_line [OF nl])
  qed
qed simp

lemma key_lines_block:
  assumes "set ss \<subseteq> set specs" and "distinct ss" and "t \<in> set specs"
  shows "key_lines (sp_key t) (map snd (writes w ss)) =
    (if t \<in> set ss \<and> w t \<noteq> None then [render t (the (w t))] else [])"
  using assms
proof (induction ss)
  case (Cons a ss)
  have tail: "key_lines (sp_key t) (map snd (writes w ss)) =
      (if t \<in> set ss \<and> w t \<noteq> None then [render t (the (w t))] else [])"
    using Cons by simp
  show ?case
  proof (cases "w a")
    case None
    with tail Cons.prems show ?thesis by (cases "t = a") auto
  next
    case (Some v)
    have "match_line (sp_key t) (render a v) \<noteq> None \<longleftrightarrow> t = a"
      using Cons.prems keys_good key_inj match_line_unique match_render
      by (metis list.set_intros(1) option.distinct(1) subset_iff)
    with tail Some Cons.prems show ?thesis by (auto simp: key_lines_def)
  qed
qed (simp add: key_lines_def)

lemma distinct_specs: "distinct specs"
  using keys_distinct by (simp add: distinct_map)

lemma find_field: "s \<in> set specs \<Longrightarrow> find (\<lambda>t. sp_field t = sp_field s) specs = Some s"
proof -
  assume s: "s \<in> set specs"
  then have "find (\<lambda>t. sp_field t = sp_field s) specs \<noteq> None" by (auto simp: find_None_iff)
  then obtain t where t: "find (\<lambda>t. sp_field t = sp_field s) specs = Some t" by blast
  then have "t \<in> set specs" "sp_field t = sp_field s" by (auto simp: find_Some_iff)
  with s t field_inj show ?thesis by metis
qed

end

interpretation field_specs: spec_table FIELD_SPECS
proof
  have "list_all (\<lambda>s. good_key (sp_key s)) FIELD_SPECS"
    by (simp add: FIELD_SPECS_def wire_specs_def string_specs_def mk_spec_def good_key_def is_blank_def)
  then show "\<And>s. s \<in> set FIELD_SPECS \<Longrightarrow> good_key (sp_key s)" by (simp add: list_all_iff)
  show "distinct (map sp_key FIELD_SPECS)"
    by (simp add: FIELD_SPECS_def wire_specs_def string_specs_def mk_spec_def)
  show "distinct (map sp_field FIELD_SPECS)"
    by (simp add: FIELD_SPECS_def wire_specs_def string_specs_def mk_spec_def)
qed

section \<open>The softened write set\<close>

definition inverted ::
  "(string \<Rightarrow> byte list option) \<Rightarrow> string \<Rightarrow> awg_params option \<Rightarrow> client_defaults \<Rightarrow> bool" where
  "inverted b64 conf params d =
    junk_inverted (eff_of (resolved b64 conf params d) FIELD_SPECS (\<lambda>_. None))"

definition softened ::
  "(string \<Rightarrow> byte list option) \<Rightarrow> string \<Rightarrow> awg_params option \<Rightarrow> client_defaults \<Rightarrow> field_spec \<Rightarrow> bool" where
  "softened b64 conf params d s \<longleftrightarrow>
    inverted b64 conf params d \<and> (sp_field s = ''jmin'' \<or> sp_field s = ''jmax'') \<and>
    Option.bind params (sp_epoch s) \<noteq> None"

definition final_written ::
  "(string \<Rightarrow> byte list option) \<Rightarrow> string \<Rightarrow> awg_params option \<Rightarrow> client_defaults \<Rightarrow> field_spec
    \<Rightarrow> field_value option" where
  "final_written b64 conf params d s =
    (if softened b64 conf params d s then None else written b64 conf params d s)"

definition final_value ::
  "(string \<Rightarrow> byte list option) \<Rightarrow> string \<Rightarrow> awg_params option \<Rightarrow> client_defaults \<Rightarrow> field_spec
    \<Rightarrow> field_value option" where
  "final_value b64 conf params d s =
    (case final_written b64 conf params d s of Some v \<Rightarrow> Some v | None \<Rightarrow> conf_value s conf)"

definition pass1 ::
  "(string \<Rightarrow> byte list option) \<Rightarrow> string \<Rightarrow> awg_params option \<Rightarrow> client_defaults \<Rightarrow> merge_acc" where
  "pass1 b64 conf params d =
    \<lparr>effective = eff_of (resolved b64 conf params d) FIELD_SPECS (\<lambda>_. None),
     replaces = writes (on_conf conf True (written b64 conf params d)) FIELD_SPECS,
     inserts = writes (on_conf conf False (written b64 conf params d)) FIELD_SPECS,
     dropped = map sp_field (filter (omitted b64 params) FIELD_SPECS)\<rparr>"

lemma pass1_effective:
  "s \<in> set FIELD_SPECS \<Longrightarrow> effective (pass1 b64 conf params d) (sp_field s) = resolved b64 conf params d s"
  by (simp add: pass1_def eff_of_field field_specs.fields_distinct)

lemma filter_writes:
  "filter (\<lambda>(s, l). sp_field s \<noteq> f) (writes w ss) = writes (\<lambda>s. if sp_field s = f then None else w s) ss"
  by (induction ss) (simp_all split: option.split)

lemma drop_epoch_junk_eq:
  assumes "s \<in> set FIELD_SPECS"
  shows "drop_epoch_junk conf params (sp_field s) acc =
    (if Option.bind params (sp_epoch s) = None then acc
     else acc\<lparr>replaces := filter (\<lambda>(t, l). sp_field t \<noteq> sp_field s) (replaces acc),
              inserts := filter (\<lambda>(t, l). sp_field t \<noteq> sp_field s) (inserts acc),
              dropped := dropped acc @ [sp_field s],
              effective := (effective acc)(sp_field s := conf_value s conf)\<rparr>)"
  using field_specs.find_field [OF assms] by (simp add: drop_epoch_junk_def conf_value_def)

lemma FIELD_SPECS_junk:
  obtains c jn jx rest where "FIELD_SPECS = c # jn # jx # rest"
    and "sp_field jn = ''jmin''" and "sp_field jx = ''jmax''"
    and "\<And>s. s \<in> set (c # rest) \<Longrightarrow> sp_field s \<noteq> ''jmin'' \<and> sp_field s \<noteq> ''jmax''"
proof
  show "FIELD_SPECS = hd FIELD_SPECS # (FIELD_SPECS ! 1) # (FIELD_SPECS ! 2) # drop 3 FIELD_SPECS"
    by (simp add: FIELD_SPECS_def wire_specs_def)
  show "sp_field (FIELD_SPECS ! 1) = ''jmin''" "sp_field (FIELD_SPECS ! 2) = ''jmax''"
    by (simp_all add: FIELD_SPECS_def wire_specs_def mk_spec_def)
  have "list_all (\<lambda>s. sp_field s \<noteq> ''jmin'' \<and> sp_field s \<noteq> ''jmax'') (hd FIELD_SPECS # drop 3 FIELD_SPECS)"
    by (simp add: FIELD_SPECS_def wire_specs_def string_specs_def mk_spec_def)
  then show "\<And>s. s \<in> set (hd FIELD_SPECS # drop 3 FIELD_SPECS) \<Longrightarrow>
      sp_field s \<noteq> ''jmin'' \<and> sp_field s \<noteq> ''jmax''"
    unfolding list_all_iff by blast
qed

lemma writes_cong: "(\<And>s. s \<in> set ss \<Longrightarrow> w s = w' s) \<Longrightarrow> writes w ss = writes w' ss"
  by (induction ss) (simp_all split: option.split)

definition soft_acc ::
  "(string \<Rightarrow> byte list option) \<Rightarrow> string \<Rightarrow> awg_params option \<Rightarrow> client_defaults \<Rightarrow> merge_acc" where
  "soft_acc b64 conf params d =
    (if inverted b64 conf params d
     then drop_epoch_junk conf params ''jmax''
            (drop_epoch_junk conf params ''jmin'' (pass1 b64 conf params d))
     else pass1 b64 conf params d)"

lemma soften_junk_Inr:
  "soften_junk conf params (pass1 b64 conf params d) = Inr acc \<longleftrightarrow>
    acc = soft_acc b64 conf params d \<and> \<not> junk_inverted (effective acc)"
proof (cases "inverted b64 conf params d")
  case True
  then have "junk_inverted (effective (pass1 b64 conf params d))" by (simp add: inverted_def pass1_def)
  with True show ?thesis
    by (auto simp: soften_junk_def soft_acc_def Let_def junk_inverted_def split: option.splits prod.splits)
next
  case False
  then have "\<not> junk_inverted (effective (pass1 b64 conf params d))" by (simp add: inverted_def pass1_def)
  with False show ?thesis by (auto simp: soften_junk_def soft_acc_def)
qed

lemma soft_acc_final:
  shows "replaces (soft_acc b64 conf params d) =
      writes (on_conf conf True (final_written b64 conf params d)) FIELD_SPECS"
    and "inserts (soft_acc b64 conf params d) =
      writes (on_conf conf False (final_written b64 conf params d)) FIELD_SPECS"
    and "\<And>s. s \<in> set FIELD_SPECS \<Longrightarrow>
      effective (soft_acc b64 conf params d) (sp_field s) = final_value b64 conf params d s"
    and "dropped (soft_acc b64 conf params d) =
      map sp_field (filter (omitted b64 params) FIELD_SPECS) @
      map sp_field (filter (softened b64 conf params d) FIELD_SPECS)"
proof -
  let ?p = "pass1 b64 conf params d"
  obtain c jn jx rest where specs: "FIELD_SPECS = c # jn # jx # rest"
    and jn: "sp_field jn = ''jmin''" and jx: "sp_field jx = ''jmax''"
    and others: "\<And>s. s \<in> set (c # rest) \<Longrightarrow> sp_field s \<noteq> ''jmin'' \<and> sp_field s \<noteq> ''jmax''"
    using FIELD_SPECS_junk by blast
  have mem: "jn \<in> set FIELD_SPECS" "jx \<in> set FIELD_SPECS" by (simp_all add: specs)
  have acc: "soft_acc b64 conf params d = (if inverted b64 conf params d
      then drop_epoch_junk conf params (sp_field jx) (drop_epoch_junk conf params (sp_field jn) ?p) else ?p)"
    by (simp add: soft_acc_def jn jx)
  have jnx: "s \<in> set FIELD_SPECS \<Longrightarrow> sp_field s = ''jmin'' \<longleftrightarrow> s = jn"
    "s \<in> set FIELD_SPECS \<Longrightarrow> sp_field s = ''jmax'' \<longleftrightarrow> s = jx" for s
    using jn jx mem field_specs.field_inj by (metis, metis)
  note red = acc drop_epoch_junk_eq [OF mem(1)] drop_epoch_junk_eq [OF mem(2)]
  show "replaces (soft_acc b64 conf params d) =
      writes (on_conf conf True (final_written b64 conf params d)) FIELD_SPECS"
    unfolding red by (auto simp: pass1_def filter_writes jn jx jnx on_conf_def final_written_def softened_def
        intro!: writes_cong)
  show "inserts (soft_acc b64 conf params d) =
      writes (on_conf conf False (final_written b64 conf params d)) FIELD_SPECS"
    unfolding red by (auto simp: pass1_def filter_writes jn jx jnx on_conf_def final_written_def softened_def
        intro!: writes_cong)
  have "filter (softened b64 conf params d) rest = []" "\<not> softened b64 conf params d c"
    using others by (auto simp: softened_def filter_empty_conv)
  then show "dropped (soft_acc b64 conf params d) =
      map sp_field (filter (omitted b64 params) FIELD_SPECS) @
      map sp_field (filter (softened b64 conf params d) FIELD_SPECS)"
    unfolding red by (auto simp: specs softened_def jn jx pass1_def)
  show "effective (soft_acc b64 conf params d) (sp_field s) = final_value b64 conf params d s"
    if s: "s \<in> set FIELD_SPECS" for s
    unfolding red using jnx [OF s] jn jx pass1_effective [OF s, of b64 conf params d]
    by (auto simp: final_value_def final_written_def softened_def resolved_def)
qed

lemma merge_Inr:
  "merge_obfuscation_params_reporting b64 conf params d = Inr (out, dr) \<longleftrightarrow>
    (\<forall>s \<in> set FIELD_SPECS. \<not> (sp_class s = MustMatch \<and> omitted b64 params s)) \<and>
    check_preconditions b64 (effective (pass1 b64 conf params d)) = Inr () \<and>
    \<not> junk_inverted (effective (soft_acc b64 conf params d)) \<and>
    splice conf (soft_acc b64 conf params d) = Inr out \<and> dr = dropped (soft_acc b64 conf params d)"
proof -
  have "resolve_fields b64 conf params d FIELD_SPECS empty_acc = Inr acc \<longleftrightarrow>
      (\<forall>s \<in> set FIELD_SPECS. \<not> (sp_class s = MustMatch \<and> omitted b64 params s)) \<and>
      acc = pass1 b64 conf params d" for acc
    unfolding resolve_fields_eq by (simp add: pass1_def empty_acc_def)
  then show ?thesis
    unfolding merge_obfuscation_params_reporting_def rbind_Inr_iff
    by (auto simp: soften_junk_Inr)
qed

section \<open>What the written file carries\<close>

lemma final_written_valid:
  "final_written b64 conf params d s = Some v \<Longrightarrow> validate b64 s v = Inr ()"
  by (auto simp: final_written_def written_def accepted_def split: if_splits option.splits)

lemma final_written_no_nl:
  assumes "s \<in> set FIELD_SPECS" and "final_written b64 conf params d s = Some v"
  shows "NL \<notin> set (render s v)"
  using render_no_nl [OF field_specs.keys_good [OF assms(1)] final_written_valid [OF assms(2)]] .

lemma splice_lines:
  assumes "splice conf acc = Inr out"
    and "inserts acc = writes w FIELD_SPECS"
    and "\<And>s. s \<in> set FIELD_SPECS \<Longrightarrow> w s \<noteq> None \<Longrightarrow> NL \<notin> set (render s (the (w s)))"
  shows "\<exists>pre post. split_lines (replace_all (replaces acc) conf) = pre @ post \<and>
    split_lines out = pre @ map snd (writes w FIELD_SPECS) @ post"
proof (cases "inserts acc = []")
  case True
  with assms show ?thesis by (auto simp: splice_def Let_def)
next
  case False
  let ?ls = "split_lines (replace_all (replaces acc) conf)"
  obtain ls where ins: "insert_after_header (is_header Interface) (map snd (inserts acc)) ?ls = Some ls"
    and out: "out = join_on NL ls"
    using assms(1) False by (auto simp: splice_def Let_def split_lines_def split: option.splits)
  from key_lines_insert [OF ins] obtain pre post where
    pp: "?ls = pre @ post" "ls = pre @ map snd (inserts acc) @ post" "pre \<noteq> []" by blast
  have "split_lines out = ls" unfolding out split_lines_def
  proof (rule split_join)
    show "ls \<noteq> []" using pp by simp
    fix l assume "l \<in> set ls"
    then consider "l \<in> set ?ls" | "l \<in> set (map snd (writes w FIELD_SPECS))"
      using pp assms(2) by auto
    then show "NL \<notin> set l"
    proof cases
      case 1
      then show ?thesis unfolding split_lines_def by (rule split_on_no_sep)
    next
      case 2
      then obtain s where "s \<in> set FIELD_SPECS" "w s \<noteq> None" "l = render s (the (w s))"
        by (auto simp: writes_def)
      with assms(3) show ?thesis by blast
    qed
  qed
  with pp assms(2) show ?thesis by auto
qed

lemma merge_out:
  assumes "merge_obfuscation_params_reporting b64 conf params d = Inr (out, dr)"
  obtains pre post where
    "split_lines (replace_all (writes (on_conf conf True (final_written b64 conf params d)) FIELD_SPECS) conf)
      = pre @ post"
    and "split_lines out =
      pre @ map snd (writes (on_conf conf False (final_written b64 conf params d)) FIELD_SPECS) @ post"
proof -
  let ?acc = "soft_acc b64 conf params d"
  have sp: "splice conf ?acc = Inr out"
    using assms unfolding merge_Inr by blast
  have "\<exists>pre post. split_lines (replace_all (replaces ?acc) conf) = pre @ post \<and>
    split_lines out =
      pre @ map snd (writes (on_conf conf False (final_written b64 conf params d)) FIELD_SPECS) @ post"
    by (rule splice_lines [OF sp soft_acc_final(2)])
       (auto simp: on_conf_def dest: final_written_no_nl split: if_splits)
  then show ?thesis using that unfolding soft_acc_final(1) by blast
qed

lemma on_conf_no_nl:
  "s \<in> set FIELD_SPECS \<Longrightarrow> on_conf conf b (final_written b64 conf params d) s \<noteq> None \<Longrightarrow>
    NL \<notin> set (render s (the (on_conf conf b (final_written b64 conf params d) s)))"
  by (auto simp: on_conf_def dest: final_written_no_nl split: if_splits)

lemma merge_key_lines:
  assumes m: "merge_obfuscation_params_reporting b64 conf params d = Inr (out, dr)" and s: "s \<in> set FIELD_SPECS"
  shows "key_lines (sp_key s) (split_lines out) =
    (case final_written b64 conf params d s of
       None \<Rightarrow> key_lines (sp_key s) (split_lines conf)
     | Some v \<Rightarrow>
         if conf_raw s conf = None then [render s v]
         else map (\<lambda>_. render s v) (key_lines (sp_key s) (split_lines conf)))"
proof -
  let ?w = "final_written b64 conf params d"
  obtain pre post where
    pp: "split_lines (replace_all (writes (on_conf conf True ?w) FIELD_SPECS) conf) = pre @ post"
    and out: "split_lines out = pre @ map snd (writes (on_conf conf False ?w) FIELD_SPECS) @ post"
    by (rule merge_out [OF m])
  have app: "key_lines k (xs @ ys) = key_lines k xs @ key_lines k ys" for k xs ys
    by (simp add: key_lines_def)
  have rep: "key_lines (sp_key s) pre @ key_lines (sp_key s) post =
      (if on_conf conf True ?w s \<noteq> None
       then map (\<lambda>_. render s (the (on_conf conf True ?w s))) (key_lines (sp_key s) (split_lines conf))
       else key_lines (sp_key s) (split_lines conf))"
    unfolding app [symmetric] pp [symmetric]
    by (subst field_specs.key_lines_replace_all)
       (use s on_conf_no_nl field_specs.distinct_specs in auto)
  have blk: "key_lines (sp_key s) (map snd (writes (on_conf conf False ?w) FIELD_SPECS)) =
      (if on_conf conf False ?w s \<noteq> None then [render s (the (on_conf conf False ?w s))] else [])"
    by (subst field_specs.key_lines_block) (use s field_specs.distinct_specs in auto)
  show ?thesis
  proof (cases "conf_raw s conf = None")
    case True
    then have "key_lines (sp_key s) (split_lines conf) = []"
      by (simp add: conf_raw_None split_lines_def)
    with True rep blk show ?thesis
      by (simp add: out app on_conf_def split: option.split)
  next
    case False
    with rep blk show ?thesis
      by (cases "final_written b64 conf params d s") (auto simp: out app on_conf_def)
  qed
qed

lemma merge_conf_raw:
  assumes "merge_obfuscation_params_reporting b64 conf params d = Inr (out, dr)" and "s \<in> set FIELD_SPECS"
  shows "conf_raw s out =
    (case final_written b64 conf params d s of
       None \<Rightarrow> conf_raw s conf
     | Some v \<Rightarrow> Some (dropWhile is_blank (render_value v)))"
  using merge_key_lines [OF assms] conf_raw_None [of s conf]
  by (cases "key_lines (sp_key s) (split_lines conf)")
     (auto simp: conf_raw_key_value key_value_def match_render split_lines_def split: option.splits if_splits)

lemma must_match_not_junk:
  assumes "s \<in> set FIELD_SPECS" and "sp_class s = MustMatch"
  shows "sp_field s \<noteq> ''jmin'' \<and> sp_field s \<noteq> ''jmax''"
proof -
  have "list_all (\<lambda>s. sp_class s = MustMatch \<longrightarrow> sp_field s \<noteq> ''jmin'' \<and> sp_field s \<noteq> ''jmax'') FIELD_SPECS"
    by (simp add: FIELD_SPECS_def wire_specs_def string_specs_def mk_spec_def)
  with assms show ?thesis by (simp add: list_all_iff)
qed

text \<open>C4: whatever the epoch and the generated defaults contain, a successful merge changes nothing
  but lines of mergeable keys: every other line of the conf (section headers, peers, keys,
  comments) is kept, in order and byte for byte, and no new one appears.\<close>

theorem merge_preserves_other_lines:
  assumes "merge_obfuscation_params_reporting b64 conf params d = Inr (out, dr)"
  shows "filter (\<lambda>l. \<not> param_line FIELD_SPECS l) (split_lines out) =
    filter (\<lambda>l. \<not> param_line FIELD_SPECS l) (split_lines conf)"
proof -
  let ?w = "final_written b64 conf params d"
  obtain pre post where
    pp: "split_lines (replace_all (writes (on_conf conf True ?w) FIELD_SPECS) conf) = pre @ post"
    and out: "split_lines out = pre @ map snd (writes (on_conf conf False ?w) FIELD_SPECS) @ post"
    by (rule merge_out [OF assms])
  have "filter (\<lambda>l. \<not> param_line FIELD_SPECS l) (map snd (writes (on_conf conf False ?w) FIELD_SPECS)) = []"
    using field_specs.param_line_render by (auto simp: writes_def filter_empty_conv)
  moreover have "filter (\<lambda>l. \<not> param_line FIELD_SPECS l) (pre @ post) =
      filter (\<lambda>l. \<not> param_line FIELD_SPECS l) (split_lines conf)"
    unfolding pp [symmetric]
    by (rule field_specs.other_lines_replace_all) (use on_conf_no_nl in auto)
  ultimately show ?thesis by (simp add: out)
qed

text \<open>C8: every must-match value of the epoch is what the written conf carries: the key has at least
  one line and every line of the key is the rendered value.\<close>

theorem merge_applies_must_match:
  assumes "merge_obfuscation_params_reporting b64 conf (Some p) d = Inr (out, dr)"
    and "s \<in> set FIELD_SPECS" and "sp_class s = MustMatch" and "sp_epoch s p = Some v"
  shows "set (key_lines (sp_key s) (split_lines out)) = {render s v}"
proof -
  have "\<not> omitted b64 (Some p) s" using assms unfolding merge_Inr by blast
  then have "final_written b64 conf (Some p) d s = Some v"
    using assms must_match_not_junk [OF assms(2,3)]
    by (auto simp: final_written_def softened_def written_def accepted_def omitted_def)
  with merge_key_lines [OF assms(1,2)] conf_raw_None [of s conf] show ?thesis
    by (auto simp: split_lines_def image_constant_conv split: if_splits)
qed

text \<open>C21: a must-match value that fails its validator rejects the whole merge; no conf is produced.\<close>

theorem merge_fails_closed:
  assumes "s \<in> set FIELD_SPECS" and "sp_class s = MustMatch" and "sp_epoch s p = Some v"
    and "validate b64 s v \<noteq> Inr ()"
  shows "\<exists>e. merge_obfuscation_params_reporting b64 conf (Some p) d = Inl e"
proof (cases "merge_obfuscation_params_reporting b64 conf (Some p) d")
  case (Inr x)
  obtain out dr where "x = (out, dr)" by fastforce
  with Inr have "merge_obfuscation_params_reporting b64 conf (Some p) d = Inr (out, dr)" by simp
  then have "\<not> omitted b64 (Some p) s" using assms(1,2) unfolding merge_Inr by blast
  with assms show ?thesis by (simp add: omitted_def)
qed simp

end
