(* ===== verification/Awg_Merge_File.thy ===== *)
theory Awg_Merge_File
  imports Awg_Merge_Correct
begin

text \<open>
  Reading the merged conf back: the numeric values the file carries are the values the merge
  resolved, so the file satisfies the preconditions the merge checked, and merging the same epoch
  into its own output changes nothing.
\<close>

section \<open>Parsing back a rendered value\<close>

lemma blank_show_int: "dropWhile is_blank (show_int n @ xs) = show_int n @ xs"
proof -
  obtain c cs where c: "show_int n = c # cs" by (cases "show_int n") simp_all
  then have "visible c" using visible_show_int [of n] by simp
  then have "\<not> is_blank c" by (auto simp: is_blank_def visible_def)
  with c show ?thesis by simp
qed

lemmas blank_show_int_alone [simp] = blank_show_int [where xs = "[]", simplified]

lemma no_minus_show_int: "0 \<le> n \<Longrightarrow> CHR ''-'' \<notin> set (show_int n)"
  by (auto simp: show_int_def dest: set_show_nat_digit)

lemma parse_back_int:
  assumes "sp_kind s = SInt \<or> sp_kind s = JunkCount" and "validate b64 s v = Inr ()"
  shows "parse_conf_value s (dropWhile is_blank (render_value v)) = Some v"
proof -
  obtain n where v: "v = FInt n" and "is_i64 n"
    using assms by (cases v) (auto simp: validate_def validate_s_value_def validate_junk_value_def
        is_i64_def split: if_splits)
  then show ?thesis using assms(1)
    by (elim disjE) (simp_all add: render_value_def parse_conf_value_def Let_def parse_i64_show_int)
qed

definition h_bounds :: "field_value option \<Rightarrow> (int \<times> int) option" where
  "h_bounds ov =
    (case ov of Some (FInt n) \<Rightarrow> Some (n, n) | Some (FRange lo hi) \<Rightarrow> Some (lo, hi) | _ \<Rightarrow> None)"

lemma h_range_bounds: "h_range eff f = h_bounds (eff f)"
  by (simp add: h_range_def h_bounds_def)

lemma visible_range: "list_all visible (show_int lo @ ''-'' @ show_int hi)"
  using visible_show_int by simp

lemma parse_back_h:
  assumes "sp_kind s = HRange" and "validate b64 s v = Inr ()"
  shows "h_bounds (parse_conf_value s (dropWhile is_blank (render_value v))) = h_bounds (Some v)"
proof (cases v)
  case (FInt n)
  then have "5 \<le> n \<and> is_i64 n"
    using assms by (auto simp: validate_def validate_h_value_def ior_bounds_def is_i64_def split: if_splits)
  then show ?thesis using assms(1)
    by (simp add: FInt render_value_def parse_conf_value_def Let_def int_or_range_parse_def
        split_once_None [THEN iffD2] no_minus_show_int parse_part_def parse_i64_show_int field_value_from_def)
next
  case (FRange lo hi)
  then have b: "5 \<le> lo \<and> is_i64 lo \<and> is_i64 hi"
    using assms by (auto simp: validate_def validate_h_value_def ior_bounds_def is_i64_def split: if_splits)
  show ?thesis
  proof (cases "lo = hi")
    case True
    with b FRange assms(1) show ?thesis
      by (simp add: render_value_def parse_conf_value_def Let_def int_or_range_parse_def h_bounds_def
          split_once_None [THEN iffD2] no_minus_show_int parse_part_def parse_i64_show_int field_value_from_def)
  next
    case False
    have "split_once (CHR ''-'') (show_int lo @ ''-'' @ show_int hi) = Some (show_int lo, show_int hi)"
      using b by (simp add: split_once_Some no_minus_show_int)
    moreover have "trim (show_int lo @ ''-'' @ show_int hi) = show_int lo @ ''-'' @ show_int hi"
      by (rule trim_visible [OF visible_range])
    ultimately show ?thesis using b False FRange assms(1)
      by (simp add: render_value_def parse_conf_value_def Let_def int_or_range_parse_def h_bounds_def
          blank_show_int [of lo "''-'' @ show_int hi", simplified] parse_part_def parse_i64_show_int
          field_value_from_def)
  qed
qed (use assms in \<open>auto simp: validate_def\<close>)

section \<open>The values of the file\<close>

definition file_values :: "string \<Rightarrow> (string \<rightharpoonup> field_value)" where
  "file_values conf = eff_of (\<lambda>s. conf_value s conf) FIELD_SPECS (\<lambda>_. None)"

lemma file_values_field: "s \<in> set FIELD_SPECS \<Longrightarrow> file_values conf (sp_field s) = conf_value s conf"
  by (simp add: file_values_def eff_of_field field_specs.fields_distinct)

lemma merge_conf_value:
  assumes "merge_obfuscation_params_reporting b64 conf params d = Inr (out, dr)" and "s \<in> set FIELD_SPECS"
  shows "conf_value s out =
    (case final_written b64 conf params d s of
       None \<Rightarrow> conf_value s conf
     | Some v \<Rightarrow> parse_conf_value s (dropWhile is_blank (render_value v)))"
  using merge_conf_raw [OF assms] by (simp add: conf_value_def split: option.split)

lemma merge_int_value:
  assumes "merge_obfuscation_params_reporting b64 conf params d = Inr (out, dr)" and "s \<in> set FIELD_SPECS"
    and "sp_kind s = SInt \<or> sp_kind s = JunkCount"
  shows "conf_value s out = final_value b64 conf params d s"
  unfolding merge_conf_value [OF assms(1,2)] final_value_def
  using parse_back_int [OF assms(3) final_written_valid] by (simp split: option.split)

lemma merge_h_value:
  assumes "merge_obfuscation_params_reporting b64 conf params d = Inr (out, dr)" and "s \<in> set FIELD_SPECS"
    and "sp_kind s = HRange"
  shows "h_bounds (conf_value s out) = h_bounds (final_value b64 conf params d s)"
  unfolding merge_conf_value [OF assms(1,2)] final_value_def
  using parse_back_h [OF assms(3) final_written_valid] by (simp split: option.split)

lemma final_value_resolved:
  "sp_field s \<noteq> ''jmin'' \<Longrightarrow> sp_field s \<noteq> ''jmax'' \<Longrightarrow>
    final_value b64 conf params d s = resolved b64 conf params d s"
  by (simp add: final_value_def final_written_def softened_def resolved_def)

lemma spec_for:
  "f \<in> {''s1'', ''s2'', ''s3'', ''s4''} \<Longrightarrow> \<exists>s \<in> set FIELD_SPECS. sp_field s = f \<and> sp_kind s = SInt"
  "f \<in> {''h1'', ''h2'', ''h3'', ''h4''} \<Longrightarrow> \<exists>s \<in> set FIELD_SPECS. sp_field s = f \<and> sp_kind s = HRange"
  "f \<in> {''jmin'', ''jmax''} \<Longrightarrow> \<exists>s \<in> set FIELD_SPECS. sp_field s = f \<and> sp_kind s = JunkCount"
  by (auto simp: FIELD_SPECS_def wire_specs_def mk_spec_def)


lemma spec_hpk:
  "\<exists>s \<in> set FIELD_SPECS. sp_field s = ''header_protection_key'' \<and> sp_kind s = HeaderProtectionKey"
  by (simp add: FIELD_SPECS_def string_specs_def mk_spec_def)

lemma h_overlap_cong:
  assumes "h_bounds (e f) = h_bounds (e' f)" and "h_bounds (e g) = h_bounds (e' g)"
  shows "h_overlap e f g = h_overlap e' f g"
  unfolding h_overlap_def h_range_bounds assms ..

text \<open>The preconditions only look at the bounds of the headers and at the values of the other fields.\<close>

lemma check_preconditions_cong:
  assumes "\<And>f. f \<in> {''s1'', ''s2'', ''s3'', ''s4'', ''header_protection_key''} \<Longrightarrow> e f = e' f"
    and "\<And>f. f \<in> {''h1'', ''h2'', ''h3'', ''h4''} \<Longrightarrow> h_bounds (e f) = h_bounds (e' f)"
  shows "check_preconditions b64 e = check_preconditions b64 e'"
proof -
  have h: "h_bounds (e ''h1'') = h_bounds (e' ''h1'')" "h_bounds (e ''h2'') = h_bounds (e' ''h2'')"
    "h_bounds (e ''h3'') = h_bounds (e' ''h3'')" "h_bounds (e ''h4'') = h_bounds (e' ''h4'')"
    by (simp_all add: assms(2))
  note ov = h_overlap_cong [of e "''h1''" e' "''h2''", OF h(1) h(2)]
    h_overlap_cong [of e "''h1''" e' "''h3''", OF h(1) h(3)]
    h_overlap_cong [of e "''h1''" e' "''h4''", OF h(1) h(4)]
    h_overlap_cong [of e "''h2''" e' "''h3''", OF h(2) h(3)]
    h_overlap_cong [of e "''h2''" e' "''h4''", OF h(2) h(4)]
    h_overlap_cong [of e "''h3''" e' "''h4''", OF h(3) h(4)]
  have "find (\<lambda>(f, g). h_overlap e f g) h_pairs = find (\<lambda>(f, g). h_overlap e' f g) h_pairs"
  proof (rule find_cong [OF refl])
    fix x assume "x \<in> set h_pairs"
    then show "(case x of (f, g) \<Rightarrow> h_overlap e f g) = (case x of (f, g) \<Rightarrow> h_overlap e' f g)"
      unfolding h_pairs_def set_simps insert_iff empty_iff
      by (elim disjE) (simp_all only: prod.case ov)
  qed
  moreover have "e ''s1'' = e' ''s1''" "e ''s2'' = e' ''s2''" "e ''s3'' = e' ''s3''" "e ''s4'' = e' ''s4''"
    "e ''header_protection_key'' = e' ''header_protection_key''"
    by (simp_all add: assms(1))
  ultimately show ?thesis unfolding check_preconditions_def s_val_def by presburger
qed

lemma junk_inverted_cong:
  "e ''jmin'' = e' ''jmin'' \<Longrightarrow> e ''jmax'' = e' ''jmax'' \<Longrightarrow> junk_inverted e = junk_inverted e'"
  by (simp add: junk_inverted_def junk_pair_def)

lemma not_junk_kind: "s \<in> set FIELD_SPECS \<Longrightarrow> sp_kind s \<noteq> JunkCount \<Longrightarrow>
    sp_field s \<noteq> ''jmin'' \<and> sp_field s \<noteq> ''jmax''"
proof -
  have "list_all (\<lambda>s. sp_kind s \<noteq> JunkCount \<longrightarrow> sp_field s \<noteq> ''jmin'' \<and> sp_field s \<noteq> ''jmax'') FIELD_SPECS"
    by (simp add: FIELD_SPECS_def wire_specs_def string_specs_def mk_spec_def)
  then show "s \<in> set FIELD_SPECS \<Longrightarrow> sp_kind s \<noteq> JunkCount \<Longrightarrow> ?thesis" by (simp add: list_all_iff)
qed

lemma parse_back_hpk:
  assumes "sp_kind s = HeaderProtectionKey" and "validate b64 s v = Inr ()"
    and "\<And>x bs. b64 x = Some bs \<Longrightarrow> list_all visible x" and "b64 [] = Some []"
  shows "parse_conf_value s (dropWhile is_blank (render_value v)) = Some v"
proof -
  obtain k where v: "v = FStr k" using assms by (cases v) (auto simp: validate_def)
  with assms have "\<exists>bs. b64 k = Some bs" and ne: "k \<noteq> []"
    by (auto simp: validate_def decode_hpk_def lift_err_def rbind_def split: sum.splits option.splits if_splits)
  with assms(3) have vis: "list_all visible k" by blast
  obtain c cs where c: "k = c # cs" using ne by (cases k) simp_all
  with vis have "\<not> is_blank c" by (auto simp: is_blank_def visible_def)
  with c have "dropWhile is_blank k = k" by simp
  with v ne assms(1) trim_visible [OF vis] show ?thesis
    by (simp add: render_value_def parse_conf_value_def Let_def)
qed

text \<open>C1: the conf on disk satisfies the cross-field preconditions. Reading every value back from the
  lines of the merged text (whether the epoch, the previous conf or a default put it there) the
  reserved pair \<open>S2 = S1 + 56\<close>, overlapping \<open>H1\<close>--\<open>H4\<close> ranges, header protection with an \<open>S\<close> below 12
  and \<open>Jmin > Jmax\<close> are all excluded, given that the base64 decoder only accepts visible
  characters and decodes the empty string to no bytes.\<close>

theorem merged_file_meets_preconditions:
  assumes m: "merge_obfuscation_params_reporting b64 conf params d = Inr (out, dr)"
    and alphabet: "\<And>x bs. b64 x = Some bs \<Longrightarrow> list_all visible x" and empty: "b64 [] = Some []"
  shows "check_preconditions b64 (file_values out) = Inr () \<and> \<not> junk_inverted (file_values out)"
proof
  let ?e = "effective (pass1 b64 conf params d)"
  have r: "final_value b64 conf params d s = ?e (sp_field s)"
    if "s \<in> set FIELD_SPECS" "sp_kind s \<noteq> JunkCount" for s
    using that not_junk_kind pass1_effective final_value_resolved by metis
  have "check_preconditions b64 (file_values out) = check_preconditions b64 ?e"
  proof (rule check_preconditions_cong)
    fix f :: string assume "f \<in> {''s1'', ''s2'', ''s3'', ''s4'', ''header_protection_key''}"
    then consider "f \<in> {''s1'', ''s2'', ''s3'', ''s4''}" | "f = ''header_protection_key''" by fast
    then show "file_values out f = ?e f"
    proof cases
      case 1
      then obtain s where s: "s \<in> set FIELD_SPECS" "sp_field s = f" "sp_kind s = SInt" using spec_for by metis
      then show ?thesis using merge_int_value [OF m] r file_values_field by (metis spec_kind.distinct(11))
    next
      case 2
      then obtain s where s: "s \<in> set FIELD_SPECS" "sp_field s = f" "sp_kind s = HeaderProtectionKey"
        using spec_hpk by metis
      have "conf_value s out = final_value b64 conf params d s"
        unfolding merge_conf_value [OF m s(1)] final_value_def
        using parse_back_hpk [of s b64, OF s(3) _ alphabet empty] final_written_valid by (simp split: option.split)
      with s r show ?thesis using file_values_field by (metis spec_kind.simps(39))
    qed
  next
    fix f :: string assume "f \<in> {''h1'', ''h2'', ''h3'', ''h4''}"
    then obtain s where s: "s \<in> set FIELD_SPECS" "sp_field s = f" "sp_kind s = HRange" using spec_for by metis
    with merge_h_value [OF m s(1,3)] r [of s] file_values_field [OF s(1)]
    show "h_bounds (file_values out f) = h_bounds (?e f)" by simp
  qed
  then show "check_preconditions b64 (file_values out) = Inr ()" using m unfolding merge_Inr by simp
  have j: "file_values out f = effective (soft_acc b64 conf params d) f" if "f \<in> {''jmin'', ''jmax''}" for f
  proof -
    from that obtain s where "s \<in> set FIELD_SPECS" "sp_field s = f" "sp_kind s = JunkCount" using spec_for by metis
    then show ?thesis using merge_int_value [OF m] file_values_field soft_acc_final(3) by metis
  qed
  have "junk_inverted (file_values out) = junk_inverted (effective (soft_acc b64 conf params d))"
    by (rule junk_inverted_cong) (simp_all add: j)
  then show "\<not> junk_inverted (file_values out)" using m unfolding merge_Inr by simp
qed


section \<open>Merging again\<close>

lemma default_kind:
  "s \<in> set FIELD_SPECS \<Longrightarrow> sp_default s d \<noteq> None \<Longrightarrow>
    sp_kind s = JunkCount \<or> sp_kind s = TagLiteral \<or> sp_kind s = RangeString"
proof -
  have "list_all (\<lambda>s. sp_default s d \<noteq> None \<longrightarrow>
      sp_kind s = JunkCount \<or> sp_kind s = TagLiteral \<or> sp_kind s = RangeString) FIELD_SPECS"
    by (simp add: FIELD_SPECS_def wire_specs_def string_specs_def mk_spec_def)
  then show "s \<in> set FIELD_SPECS \<Longrightarrow> sp_default s d \<noteq> None \<Longrightarrow> ?thesis"
    unfolding list_all_iff by blast
qed

text \<open>In the second run the epoch's fields are written again, a default is not: its line is there.\<close>

lemma written_again:
  assumes m: "merge_obfuscation_params_reporting b64 conf params d = Inr (out, dr)" and s: "s \<in> set FIELD_SPECS"
  shows "written b64 out params d s =
    (if Option.bind params (sp_epoch s) = None then None else written b64 conf params d s)"
proof (cases "Option.bind params (sp_epoch s)")
  case None
  then have w: "final_written b64 conf params d s = written b64 conf params d s"
    by (simp add: final_written_def softened_def)
  from None merge_conf_raw [OF m s, unfolded w] show ?thesis
    by (auto simp: written_def accepted_def split: option.splits if_splits)
qed (simp add: written_def)

lemma resolved_again:
  assumes m: "merge_obfuscation_params_reporting b64 conf params d = Inr (out, dr)" and s: "s \<in> set FIELD_SPECS"
    and k: "sp_kind s \<noteq> TagLiteral" "sp_kind s \<noteq> RangeString"
  shows "resolved b64 out params d s = resolved b64 conf params d s"
proof (cases "Option.bind params (sp_epoch s)")
  case None
  have w: "final_written b64 conf params d s = written b64 conf params d s"
    using None by (simp add: final_written_def softened_def)
  have "conf_value s out = resolved b64 conf params d s"
  proof (cases "written b64 conf params d s")
    case wn: None
    then show ?thesis using merge_conf_value [OF m s] by (simp add: w resolved_def)
  next
    case (Some v)
    with None have "sp_default s d \<noteq> None"
      by (cases "sp_default s d") (simp_all add: written_def accepted_def split: if_splits)
    with default_kind [OF s] k have "sp_kind s = JunkCount" by blast
    then show ?thesis using merge_int_value [OF m s] by (simp add: w Some resolved_def final_value_def)
  qed
  with None show ?thesis by (simp add: resolved_def written_again [OF m s])
next
  case (Some v)
  show ?thesis
  proof (cases "written b64 conf params d s")
    case None
    then have "conf_value s out = conf_value s conf"
      using merge_conf_value [OF m s] by (simp add: final_written_def)
    with Some None show ?thesis by (simp add: resolved_def written_again [OF m s])
  qed (use Some in \<open>simp add: resolved_def written_again [OF m s]\<close>)
qed

lemma effective_again:
  assumes m: "merge_obfuscation_params_reporting b64 conf params d = Inr (out, dr)"
    and f: "f \<in> {''s1'', ''s2'', ''s3'', ''s4'', ''h1'', ''h2'', ''h3'', ''h4'', ''jmin'', ''jmax'',
      ''header_protection_key''}"
  shows "effective (pass1 b64 out params d) f = effective (pass1 b64 conf params d) f"
proof -
  have "f \<in> {''s1'', ''s2'', ''s3'', ''s4''} \<or> f \<in> {''h1'', ''h2'', ''h3'', ''h4''} \<or>
      f \<in> {''jmin'', ''jmax''} \<or> f = ''header_protection_key''"
    using f unfolding insert_iff by argo
  then obtain s where "s \<in> set FIELD_SPECS" "sp_field s = f" "sp_kind s \<noteq> TagLiteral" "sp_kind s \<noteq> RangeString"
    using spec_for [of f] spec_hpk by (metis spec_kind.distinct)
  then show ?thesis using pass1_effective resolved_again [OF m] by metis
qed

lemma inverted_again:
  assumes "merge_obfuscation_params_reporting b64 conf params d = Inr (out, dr)"
  shows "inverted b64 out params d = inverted b64 conf params d"
proof -
  have e: "inverted b64 c params d = junk_inverted (effective (pass1 b64 c params d))" for c
    by (simp add: inverted_def pass1_def)
  show ?thesis unfolding e by (rule junk_inverted_cong) (simp_all add: effective_again [OF assms])
qed

lemma final_written_again:
  assumes "merge_obfuscation_params_reporting b64 conf params d = Inr (out, dr)" and "s \<in> set FIELD_SPECS"
  shows "final_written b64 out params d s =
    (if Option.bind params (sp_epoch s) = None then None else final_written b64 conf params d s)"
  by (auto simp: final_written_def softened_def inverted_again [OF assms(1)] written_again [OF assms])

lemma replace_all_id:
  assumes "\<And>s v l. s \<in> set ss \<Longrightarrow> w s = Some v \<Longrightarrow> l \<in> set (key_lines (sp_key s) (split_lines conf)) \<Longrightarrow>
      l = render s v"
  shows "replace_all (writes w ss) conf = conf"
  using assms
proof (induction ss)
  case (Cons a ss)
  have "replace_line (sp_key a) (render a v) conf = conf" if "w a = Some v" for v
  proof -
    have "map (\<lambda>l. if match_line (sp_key a) l \<noteq> None then render a v else l) (split_on NL conf) =
        split_on NL conf"
      by (rule map_idI) (use Cons.prems [of a v] that in \<open>auto simp: key_lines_def split_lines_def\<close>)
    then show ?thesis by (simp only: replace_line_def join_split)
  qed
  with Cons show ?case by (simp split: option.split)
qed simp

lemma merge_again:
  assumes m: "merge_obfuscation_params_reporting b64 conf params d = Inr (out, dr)"
  shows "merge_obfuscation_params_reporting b64 out params d = Inr (out, dr)"
proof -
  let ?w = "final_written b64 out params d"
  have raw: "?w s \<noteq> None \<Longrightarrow> s \<in> set FIELD_SPECS \<Longrightarrow> conf_raw s out \<noteq> None" for s
    using final_written_again [OF m, of s] merge_conf_raw [OF m, of s] by (auto split: if_splits)
  have "writes (on_conf out False ?w) FIELD_SPECS = writes (\<lambda>_. None) FIELD_SPECS"
    by (rule writes_cong) (metis on_conf_def raw)
  then have ins: "inserts (soft_acc b64 out params d) = []"
    by (simp add: soft_acc_final writes_def)
  have rep: "replace_all (replaces (soft_acc b64 out params d)) out = out"
    unfolding soft_acc_final
  proof (rule replace_all_id)
    fix s v l assume a: "s \<in> set FIELD_SPECS" "on_conf out True ?w s = Some v"
      "l \<in> set (key_lines (sp_key s) (split_lines out))"
    then have "final_written b64 conf params d s = Some v"
      using final_written_again [OF m a(1)] by (auto simp: on_conf_def split: if_splits)
    with a(3) merge_key_lines [OF m a(1)] show "l = render s v" by (auto split: if_splits)
  qed
  have "splice out (soft_acc b64 out params d) = Inr out" by (simp add: splice_def Let_def ins rep)
  moreover have "check_preconditions b64 (effective (pass1 b64 out params d)) =
      check_preconditions b64 (effective (pass1 b64 conf params d))"
    by (rule check_preconditions_cong) (auto simp: effective_again [OF m])
  moreover have eff: "effective (soft_acc b64 out params d) f = effective (soft_acc b64 conf params d) f"
    if "f \<in> {''jmin'', ''jmax''}" for f
  proof -
    obtain s where s: "s \<in> set FIELD_SPECS" "sp_field s = f" "sp_kind s = JunkCount"
      using \<open>f \<in> _\<close> spec_for by metis
    have "final_value b64 out params d s = final_value b64 conf params d s"
      unfolding final_value_def final_written_again [OF m s(1)]
      using merge_int_value [OF m s(1)] s(3) by (auto simp: final_value_def split: option.splits)
    with s show ?thesis using soft_acc_final(3) by metis
  qed
  moreover have "junk_inverted (effective (soft_acc b64 out params d)) =
      junk_inverted (effective (soft_acc b64 conf params d))"
    by (rule junk_inverted_cong) (simp_all add: eff)
  moreover have "dropped (soft_acc b64 out params d) = dropped (soft_acc b64 conf params d)"
    by (simp add: soft_acc_final softened_def [abs_def] inverted_again [OF m])
  ultimately show ?thesis using m unfolding merge_Inr by simp
qed

text \<open>C2: the merge is idempotent. Merging the same epoch with the same defaults into the conf a merge
  produced succeeds, returns the very same text and reports the same dropped fields.\<close>

theorem merge_idempotent:
  assumes "merge_obfuscation_params_reporting b64 conf params d = Inr (out, dr)"
  shows "merge_obfuscation_params_reporting b64 out params d = Inr (out, dr)"
  using assms by (rule merge_again)

end
