(* ===== verification/Awg_Merge_Props.thy ===== *)
theory Awg_Merge_Props
  imports Awg_Merge_File
begin

text \<open>
  Generated defaults and the top-up run of the conf merge, two corners of the junk-pair softening, and
  the theorems of the two theories before this one at concrete confs.
\<close>

section \<open>The defaults a node generates\<close>

lemma rand_inclusive_bounds:
  assumes "rand_inclusive draw i lo hi = Some x" and "lo \<le> hi"
  shows "lo \<le> x \<and> x \<le> hi"
proof -
  obtain r where "x = lo + int r mod (hi - lo + 1)"
    using assms(1) by (auto simp: rand_inclusive_def)
  with assms(2) show ?thesis
    using pos_mod_sign [of "hi - lo + 1" "int r"] pos_mod_bound [of "hi - lo + 1" "int r"] by linarith
qed

lemma generate_bounds:
  assumes "generate draw = Some d"
  obtains n lo hi where "cd_i1 d = ''<r '' @ show_int n @ ''>''" and "32 \<le> n" and "n \<le> 256"
    and "cd_cpa d = show_int lo @ ''-'' @ show_int hi" and "8 \<le> lo" and "lo < hi" and "hi \<le> 64"
    and "3 \<le> cd_jc d" and "cd_jc d \<le> 6" and "40 \<le> cd_jmin d" and "cd_jmin d < cd_jmax d"
    and "cd_jmax d \<le> 339"
proof -
  obtain jc jmin jd clo cd n where b:
    "rand_inclusive draw 0 3 6 = Some jc" "rand_inclusive draw 1 40 89 = Some jmin"
    "rand_inclusive draw 2 50 250 = Some jd" "rand_inclusive draw 3 8 24 = Some clo"
    "rand_inclusive draw 4 8 40 = Some cd" "rand_inclusive draw 5 32 256 = Some n"
    and d: "d = \<lparr>cd_i1 = ''<r '' @ show_int n @ ''>'', cd_cpa = show_int clo @ ''-'' @ show_int (clo + cd),
            cd_jc = jc, cd_jmin = jmin, cd_jmax = jmin + jd\<rparr>"
    using assms by (auto simp: generate_def bind_eq_Some_conv)
  note bd = b [THEN rand_inclusive_bounds, simplified]
  show ?thesis by (rule that [of n clo "clo + cd"]) (use bd in \<open>simp_all add: d\<close>)
qed

lemma digits_no_conf_char: "list_all is_digit v \<Longrightarrow> set v \<inter> set forbidden_conf_chars = {}"
  by (auto simp: forbidden_conf_chars_def list_all_iff is_digit_def)

lemma show_int_nonneg: "0 \<le> n \<Longrightarrow> show_int n = show_nat (nat n)"
  by (simp add: show_int_def)

lemma validate_generated_tag:
  assumes "0 \<le> n" and "n \<le> 65535"
  shows "validate_i_tag f (''<r '' @ show_int n @ ''>'') = Inr ()"
proof -
  let ?v = "''<r '' @ show_int n @ ''>''"
  have s: "show_int n = show_nat (nat n)" using assms by (simp add: show_int_nonneg)
  have "CHR ''>'' \<notin> set (show_nat (nat n))" by (auto dest: set_show_nat_digit simp: is_digit_def)
  moreover have "tag_ok (''r'' @ CHR '' '' # show_nat (nat n))"
    using assms parse_unsigned_show_nat [of "nat n" u64_max] by (subst tag_ok_arg) auto
  ultimately have "i_chain ([] @ CHR ''<'' # (''r '' @ show_nat (nat n)) @ CHR ''>'' # [])"
    by (intro i_chain.last_tag) auto
  then have "i_tag_loop False ?v = Inr ()" by (simp add: i_tag_loop_iff s)
  moreover have "set ?v \<inter> set forbidden_conf_chars = {}"
    using digits_no_conf_char [OF show_nat_digits, of "nat n"] by (auto simp: s forbidden_conf_chars_def)
  then have "validate_conf_string f ?v = Inr ()" by (simp only: validate_conf_string_iff)
  ultimately show ?thesis by (simp add: validate_i_tag_def)
qed

lemma validate_generated_range:
  assumes "0 \<le> lo" and "lo \<le> hi" and "hi \<le> 65535"
  shows "validate_range_string f (show_int lo @ ''-'' @ show_int hi) = Inr ()"
proof -
  let ?v = "show_nat (nat lo) @ CHR ''-'' # show_nat (nat hi)"
  have "CHR ''-'' \<notin> set (show_nat (nat lo))" by (auto dest: set_show_nat_digit)
  then have "split_once (CHR ''-'') ?v = Some (show_nat (nat lo), show_nat (nat hi))"
    by (simp add: split_once_Some)
  moreover have "set ?v \<inter> set forbidden_conf_chars = {}"
    using digits_no_conf_char [OF show_nat_digits, of "nat lo"]
      digits_no_conf_char [OF show_nat_digits, of "nat hi"] by (auto simp: forbidden_conf_chars_def)
  then have "validate_conf_string f ?v = Inr ()" by (simp only: validate_conf_string_iff)
  ultimately show ?thesis using assms
    by (simp add: show_int_nonneg validate_range_string_def parse_unsigned_show_nat)
qed

text \<open>C25: whatever the random source returns, every generated default passes the validator of its
  own field, and the generated junk pair is strictly ordered.\<close>

theorem generated_defaults_valid:
  assumes "generate draw = Some d" and "s \<in> set FIELD_SPECS" and "sp_default s d = Some v"
  shows "validate b64 s v = Inr () \<and> cd_jmin d < cd_jmax d"
proof -
  obtain n lo hi where g: "cd_i1 d = ''<r '' @ show_int n @ ''>''" "32 \<le> n" "n \<le> 256"
    "cd_cpa d = show_int lo @ ''-'' @ show_int hi" "8 \<le> lo" "lo < hi" "hi \<le> 64"
    "3 \<le> cd_jc d" "cd_jc d \<le> 6" "40 \<le> cd_jmin d" "cd_jmin d < cd_jmax d" "cd_jmax d \<le> 339"
    by (rule generate_bounds [OF assms(1)])
  have "validate_i_tag f (cd_i1 d) = Inr ()" for f
    unfolding g(1) by (rule validate_generated_tag) (use g in simp_all)
  moreover have "validate_range_string f (cd_cpa d) = Inr ()" for f
    unfolding g(4) by (rule validate_generated_range) (use g in simp_all)
  ultimately have "list_all (\<lambda>s. \<forall>v. sp_default s d = Some v \<longrightarrow> validate b64 s v = Inr ()) FIELD_SPECS"
    using g(8-12) by (simp add: FIELD_SPECS_def wire_specs_def string_specs_def mk_spec_def validate_def
        lift_err_def validate_junk_value_def)
  with assms(2,3) g(11) show ?thesis unfolding list_all_iff by blast
qed

section \<open>The top-up run\<close>

text \<open>C22: without an epoch (the start-up top-up) nothing is dropped and no line of the conf changes:
  the result is the conf with one block of lines inserted, each the rendered default of a key the
  conf did not have.\<close>

theorem top_up_only_inserts:
  assumes "merge_obfuscation_params_reporting b64 conf None d = Inr (out, dr)"
  shows "dr = [] \<and> (\<exists>pre block post. split_lines conf = pre @ post \<and> split_lines out = pre @ block @ post \<and>
    (\<forall>l \<in> set block. \<exists>s \<in> set FIELD_SPECS. \<exists>v.
       sp_default s d = Some v \<and> conf_raw s conf = None \<and> l = render s v))"
proof -
  let ?w = "final_written b64 conf None d"
  have w: "?w s = Some v \<Longrightarrow> sp_default s d = Some v \<and> conf_raw s conf = None" for s v
    by (auto simp: final_written_def written_def accepted_def split: if_splits option.splits)
  have "on_conf conf True ?w s = None" for s
    using w [of s] by (cases "?w s") (auto simp: on_conf_def)
  then have none: "writes (on_conf conf True ?w) FIELD_SPECS = []" by (simp add: writes_def)
  obtain pre post where
    "split_lines (replace_all (writes (on_conf conf True ?w) FIELD_SPECS) conf) = pre @ post"
    and out: "split_lines out = pre @ map snd (writes (on_conf conf False ?w) FIELD_SPECS) @ post"
    by (rule merge_out [OF assms])
  then have pp: "split_lines conf = pre @ post" by (simp add: none)
  have "\<forall>l \<in> set (map snd (writes (on_conf conf False ?w) FIELD_SPECS)). \<exists>s \<in> set FIELD_SPECS. \<exists>v.
       sp_default s d = Some v \<and> conf_raw s conf = None \<and> l = render s v"
    using w by (fastforce simp: writes_def on_conf_def split: if_splits)
  moreover have "dr = []"
    using assms unfolding merge_Inr by (simp add: soft_acc_final omitted_def softened_def)
  ultimately show ?thesis using pp out by blast
qed


section \<open>Concrete runs\<close>

definition no_b64 :: "string \<Rightarrow> byte list option" where
  "no_b64 s = (if s = [] then Some [] else None)"

definition demo_epoch :: awg_params where
  "demo_epoch =
    \<lparr>ap_jc = Some 4, ap_jmin = Some 50, ap_jmax = Some 100, ap_s1 = 20, ap_s2 = 30, ap_s3 = None,
     ap_s4 = 0, ap_h1 = Single 5, ap_h2 = Range 10 20, ap_h3 = Single 30, ap_h4 = Single 40,
     ap_i1 = None, ap_i2 = None, ap_i3 = None, ap_i4 = None, ap_i5 = None,
     ap_header_protection_key = None, ap_content_padding_addition = None,
     ap_rekey_after_time = None, ap_rekey_timeout = None, ap_reject_after_time = None,
     ap_keepalive_timeout = None, ap_max_handshake_attempts = None, ap_random_trailers = None,
     ap_disable_cookies = None\<rparr>"

definition demo_defaults :: client_defaults where
  "demo_defaults =
    \<lparr>cd_i1 = ''<r 64>'', cd_cpa = ''8-16'', cd_jc = 3, cd_jmin = 40, cd_jmax = 90\<rparr>"

definition demo_conf :: string where
  "demo_conf = join_on NL [''[Interface]'', ''S1 = 7'', ''Jmin = 100'', ''Jmax = 200'', ''[Peer]'']"

lemmas merge_exec = merge_obfuscation_params_reporting_def FIELD_SPECS_def wire_specs_def string_specs_def
  mk_spec_def resolve_field_def conf_raw_def match_line_def strip_prefix_def is_blank_def
  validate_def lift_err_def validate_s_value_def validate_h_value_def validate_junk_value_def
  ior_bounds_def field_value_from_def epoch_str_def render_def render_value_def empty_acc_def
  set_eff_def check_preconditions_def s_val_def h_pairs_def h_overlap_def h_range_def wrap_i64_def
  soften_junk_def junk_inverted_def junk_pair_def splice_def is_header_def show_int_def
  parse_conf_value_def validate_i_tag_def validate_range_string_def validate_conf_string_def
  forbidden_conf_chars_def parse_unsigned_def parse_nat_def digits_val_def is_digit_def
  tag_key_arg_def check_i_tag_def Let_def replace_line_def i_tag_loop.simps digit_char_def
  parse_i64_def drop_epoch_junk_def show_nat.simps char_of_def bit_0

definition demo_out :: string where
  "demo_out = join_on NL
    [''[Interface]'', ''Jc = 4'', ''S2 = 30'', ''S4 = 0'', ''H1 = 5'', ''H2 = 10-20'', ''H3 = 30'', ''H4 = 40'',
     ''I1 = <r 64>'', ''ContentPaddingAddition = 8-16'', ''S1 = 20'', ''Jmin = 50'', ''Jmax = 100'', ''[Peer]'']"

lemma demo_merge:
  "merge_obfuscation_params_reporting no_b64 demo_conf (Some demo_epoch) demo_defaults = Inr (demo_out, [])"
  by (simp add: merge_exec demo_epoch_def demo_defaults_def demo_conf_def demo_out_def)

lemma trim_demo: "trim ''30'' = ''30''" "trim ''100'' = ''100''" "trim ''200'' = ''200''" "trim ''7'' = ''7''"
  by (rule trim_visible; simp add: visible_def)+

lemma demo_generate: "generate (\<lambda>i. Some (if i = 5 then 32 else 0)) = Some demo_defaults"
  by (simp add: generate_def rand_inclusive_def demo_defaults_def show_int_def digit_char_def show_nat.simps
      char_of_def bit_0)

text \<open>the two junk fields of the table.\<close>

lemma FIELD_SPECS_jmin_jmax:
  obtains jn jx where "jn \<in> set FIELD_SPECS" and "jx \<in> set FIELD_SPECS"
    and "sp_field jn = ''jmin''" and "sp_key jn = ''Jmin''" and "sp_field jx = ''jmax''"
    and "\<And>p. sp_epoch jn p = map_option FInt (ap_jmin p)" and "\<And>p. sp_epoch jx p = map_option FInt (ap_jmax p)"
    and "\<And>d. sp_default jn d = Some (FInt (cd_jmin d))"
    and "\<And>b64 v. 0 \<le> v \<Longrightarrow> v \<le> 339 \<Longrightarrow> validate b64 jn (FInt v) = Inr ()"
  by (rule that [of "FIELD_SPECS ! 1" "FIELD_SPECS ! 2"])
     (simp_all add: FIELD_SPECS_def wire_specs_def mk_spec_def validate_def validate_junk_value_def lift_err_def)

text \<open>C40: the start-up defaults can make the merge reject a conf that is in order. Take any conf that
  has no \<open>Jmin\<close> line and a \<open>Jmax\<close> below 40, any generated defaults, and no epoch, or an epoch that
  carries neither junk bound. The conf's own junk pair is not inverted, but the default \<open>Jmin\<close> (at
  least 40) is resolved next to the conf's \<open>Jmax\<close>, and with no epoch member to drop the whole merge
  fails.\<close>

theorem default_jmin_rejects_small_jmax:
  assumes gen: "generate draw = Some d"
    and no_jmin: "key_lines ''Jmin'' (split_on NL conf) = []"
    and jmax: "file_values conf ''jmax'' = Some (FInt hi)" and small: "hi < 40"
    and epoch: "params = None \<or> (\<exists>p. params = Some p \<and> ap_jmin p = None \<and> ap_jmax p = None)"
  shows "\<not> junk_inverted (file_values conf) \<and>
    (\<exists>e. merge_obfuscation_params_reporting b64 conf params d = Inl e)"
proof -
  obtain jn jx where jnx: "jn \<in> set FIELD_SPECS" "jx \<in> set FIELD_SPECS"
    "sp_field jn = ''jmin''" "sp_key jn = ''Jmin''" "sp_field jx = ''jmax''"
    "\<And>p. sp_epoch jn p = map_option FInt (ap_jmin p)" "\<And>p. sp_epoch jx p = map_option FInt (ap_jmax p)"
    "\<And>d. sp_default jn d = Some (FInt (cd_jmin d))"
    "\<And>b64 v. 0 \<le> v \<Longrightarrow> v \<le> 339 \<Longrightarrow> validate b64 jn (FInt v) = Inr ()"
    using FIELD_SPECS_jmin_jmax by metis
  have lo: "40 \<le> cd_jmin d" "cd_jmin d \<le> 339" by (rule generate_bounds [OF gen]; simp)+
  have raw: "conf_raw jn conf = None" using no_jmin jnx(4) by (simp add: conf_raw_None)
  have cjx: "conf_value jx conf = Some (FInt hi)" using file_values_field [OF jnx(2), of conf] jmax jnx(5) by simp
  then have "conf_raw jx conf \<noteq> None" by (cases "conf_raw jx conf") (simp_all add: conf_value_def)
  moreover have none: "Option.bind params (sp_epoch jn) = None" "Option.bind params (sp_epoch jx) = None"
    using epoch jnx(6,7) by auto
  ultimately have res: "resolved b64 conf params d jn = Some (FInt (cd_jmin d))"
    "resolved b64 conf params d jx = Some (FInt hi)"
    using raw cjx jnx(8) jnx(9) [of "cd_jmin d" b64] lo by (simp_all add: resolved_def written_def accepted_def)
  have eff: "effective (pass1 b64 conf params d) ''jmin'' = Some (FInt (cd_jmin d))"
    "effective (pass1 b64 conf params d) ''jmax'' = Some (FInt hi)"
    using pass1_effective [OF jnx(1), of b64 conf params d] pass1_effective [OF jnx(2), of b64 conf params d]
    by (simp_all add: res jnx(3,5))
  have "drop_epoch_junk conf params ''jmin'' acc = acc" "drop_epoch_junk conf params ''jmax'' acc = acc" for acc
    using drop_epoch_junk_eq [OF jnx(1), of conf params acc] drop_epoch_junk_eq [OF jnx(2), of conf params acc] none
    by (simp_all add: jnx(3,5))
  then have "soft_acc b64 conf params d = pass1 b64 conf params d" by (simp add: soft_acc_def)
  then have "junk_inverted (effective (soft_acc b64 conf params d))"
    using eff small lo by (simp add: junk_inverted_def junk_pair_def)
  then have "merge_obfuscation_params_reporting b64 conf params d \<noteq> Inr (out, dr)" for out dr
    by (simp add: merge_Inr)
  then have "\<exists>e. merge_obfuscation_params_reporting b64 conf params d = Inl e"
    by (cases "merge_obfuscation_params_reporting b64 conf params d") auto
  moreover have "file_values conf ''jmin'' = None"
    using file_values_field [OF jnx(1), of conf] raw by (simp add: jnx(3) conf_value_def)
  then have "\<not> junk_inverted (file_values conf)" by (simp add: junk_inverted_def junk_pair_def)
  ultimately show ?thesis by blast
qed

theorem default_jmin_rejects_small_jmax_witness:
  "generate (\<lambda>i. Some (if i = 5 then 32 else 0)) = Some demo_defaults \<and>
   \<not> junk_inverted (file_values (join_on NL [''[Interface]'', ''Jmax = 30''])) \<and>
   (\<exists>e. merge_obfuscation_params_reporting no_b64 (join_on NL [''[Interface]'', ''Jmax = 30'']) None demo_defaults = Inl e)"
proof (rule conjI [OF demo_generate])
  let ?c = "join_on NL [''[Interface]'', ''Jmax = 30'']"
  have "key_lines ''Jmin'' (split_on NL ?c) = []" by (simp add: key_lines_def merge_exec)
  moreover have "file_values ?c ''jmax'' = Some (FInt 30)"
    by (simp add: file_values_def eff_of_def upd_opt_def conf_value_def merge_exec trim_demo)
  ultimately show "\<not> junk_inverted (file_values ?c) \<and>
    (\<exists>e. merge_obfuscation_params_reporting no_b64 ?c None demo_defaults = Inl e)"
    by (rule default_jmin_rejects_small_jmax [OF demo_generate]) simp_all
qed

text \<open>a field can be reported twice as dropped: an epoch \<open>jmin\<close> that fails its own validator and
  whose pair is then inverted is pushed once per stage.\<close>

theorem dropped_field_reported_twice:
  "\<exists>out. merge_obfuscation_params_reporting no_b64 demo_conf
     (Some (demo_epoch\<lparr>ap_jmin := Some (- 1), ap_jmax := Some 50\<rparr>)) demo_defaults =
     Inr (out, [''jmin'', ''jmin'', ''jmax''])"
  by (simp add: merge_exec demo_epoch_def demo_defaults_def demo_conf_def trim_demo)


section \<open>The theorems at a concrete input\<close>

theorem merge_preserves_other_lines_witness:
  "merge_obfuscation_params_reporting no_b64 demo_conf (Some demo_epoch) demo_defaults = Inr (demo_out, []) \<and>
    filter (\<lambda>l. \<not> param_line FIELD_SPECS l) (split_lines demo_out) =
    filter (\<lambda>l. \<not> param_line FIELD_SPECS l) (split_lines demo_conf)"
  using demo_merge merge_preserves_other_lines [OF demo_merge] by (rule conjI)

theorem merge_applies_must_match_witness:
  "merge_obfuscation_params_reporting no_b64 demo_conf (Some demo_epoch) demo_defaults = Inr (demo_out, []) \<and>
    set (key_lines ''S1'' (split_lines demo_out)) = {''S1 = 20''}"
proof -
  let ?s = "FIELD_SPECS ! 3"
  have s: "?s \<in> set FIELD_SPECS" "sp_class ?s = MustMatch" "sp_epoch ?s demo_epoch = Some (FInt 20)"
    "sp_key ?s = ''S1''" "render ?s (FInt 20) = ''S1 = 20''"
    by (simp_all add: FIELD_SPECS_def wire_specs_def mk_spec_def demo_epoch_def render_def render_value_def
        show_int_def show_nat.simps digit_char_def char_of_def bit_0)
  show ?thesis
    using demo_merge merge_applies_must_match [OF demo_merge s(1-3), unfolded s(4,5)] by (rule conjI)
qed

theorem merge_fails_closed_witness:
  "\<exists>e. merge_obfuscation_params_reporting no_b64 demo_conf (Some (demo_epoch\<lparr>ap_s1 := 70000\<rparr>)) demo_defaults = Inl e"
  by (rule merge_fails_closed [of "FIELD_SPECS ! 3" _ "FInt 70000"])
     (simp_all add: FIELD_SPECS_def wire_specs_def mk_spec_def demo_epoch_def validate_def validate_s_value_def
        lift_err_def)

theorem merged_file_meets_preconditions_witness:
  "merge_obfuscation_params_reporting no_b64 demo_conf (Some demo_epoch) demo_defaults = Inr (demo_out, []) \<and>
    check_preconditions no_b64 (file_values demo_out) = Inr () \<and> \<not> junk_inverted (file_values demo_out)"
  by (intro conjI merged_file_meets_preconditions [OF demo_merge, THEN conjunct1]
        merged_file_meets_preconditions [OF demo_merge, THEN conjunct2])
     (simp_all add: demo_merge no_b64_def split: if_splits)

theorem merge_idempotent_witness:
  "merge_obfuscation_params_reporting no_b64 demo_conf (Some demo_epoch) demo_defaults = Inr (demo_out, []) \<and>
    merge_obfuscation_params_reporting no_b64 demo_out (Some demo_epoch) demo_defaults = Inr (demo_out, [])"
  using demo_merge merge_idempotent [OF demo_merge] by (rule conjI)

theorem generated_defaults_valid_witness:
  "validate no_b64 (FIELD_SPECS ! 11) (FStr ''<r 64>'') = Inr () \<and> cd_jmin demo_defaults < cd_jmax demo_defaults"
  by (rule generated_defaults_valid [OF demo_generate])
     (simp_all add: FIELD_SPECS_def wire_specs_def string_specs_def mk_spec_def demo_defaults_def)

definition demo_topped :: string where
  "demo_topped = join_on NL
    [''[Interface]'', ''Jc = 3'', ''I1 = <r 64>'', ''ContentPaddingAddition = 8-16'', ''S1 = 7'', ''Jmin = 100'',
     ''Jmax = 200'', ''[Peer]'']"

lemma demo_top_up:
  "merge_obfuscation_params_reporting no_b64 demo_conf None demo_defaults = Inr (demo_topped, [])"
  by (simp add: merge_exec demo_defaults_def demo_conf_def demo_topped_def trim_demo)

theorem top_up_only_inserts_witness:
  "merge_obfuscation_params_reporting no_b64 demo_conf None demo_defaults = Inr (demo_topped, []) \<and>
    (\<exists>pre block post. split_lines demo_conf = pre @ post \<and> split_lines demo_topped = pre @ block @ post \<and>
    list_all (\<lambda>l. \<exists>s \<in> set FIELD_SPECS. \<exists>v.
       sp_default s demo_defaults = Some v \<and> conf_raw s demo_conf = None \<and> l = render s v) block)"
  unfolding list_all_iff
  using demo_top_up top_up_only_inserts [OF demo_top_up, THEN conjunct2] by (rule conjI)

end
