(* ===== verification/Prelude_Text.thy ===== *)
theory Prelude_Text
  imports Prelude "HOL-Library.Char_ord" "HOL-Library.List_Lexorder"
begin

text \<open>
  More of the standard library's string operations: \<open>str::lines\<close>, \<open>rsplit_once\<close>,
  \<open>strip_suffix\<close>, searching for a substring, and an ordered map (\<open>BTreeMap\<close>) as a sorted
  association list.
\<close>

section \<open>Lines\<close>

definition strip_cr :: "string \<Rightarrow> string" where
  "strip_cr l = (if l \<noteq> [] \<and> last l = CHR 0x0D then butlast l else l)"

definition str_lines :: "string \<Rightarrow> string list" where
  "str_lines s =
    (let ls = split_on (CHR 0x0A) s in
     map strip_cr (if last ls = [] then butlast ls else ls))"

definition unlines :: "string list \<Rightarrow> string" where
  "unlines ls = concat (map (\<lambda>l. l @ [CHR 0x0A]) ls)"

definition plain_line :: "string \<Rightarrow> bool" where
  "plain_line l \<longleftrightarrow> CHR 0x0A \<notin> set l \<and> (l = [] \<or> last l \<noteq> CHR 0x0D)"

lemma split_on_unlines:
  "list_all (\<lambda>l. CHR 0x0A \<notin> set l) ls \<Longrightarrow> split_on (CHR 0x0A) (unlines ls) = ls @ [[]]"
  by (induction ls) (simp_all add: unlines_def split_on_append)

lemma str_lines_unlines:
  assumes "list_all plain_line ls"
  shows "str_lines (unlines ls) = ls"
proof -
  have "list_all (\<lambda>l. CHR 0x0A \<notin> set l) ls" using assms by (auto simp: list_all_iff plain_line_def)
  moreover have "map strip_cr ls = ls"
    by (rule map_idI) (use assms in \<open>auto simp: list_all_iff plain_line_def strip_cr_def\<close>)
  ultimately show ?thesis by (simp add: str_lines_def split_on_unlines)
qed

section \<open>Splitting at the end, suffixes, substrings\<close>

definition rsplit_once :: "char \<Rightarrow> string \<Rightarrow> (string \<times> string) option" where
  "rsplit_once c s =
    (case split_once c (rev s) of None \<Rightarrow> None | Some (a, b) \<Rightarrow> Some (rev b, rev a))"

lemma rsplit_once_Some: "rsplit_once c s = Some (a, b) \<longleftrightarrow> s = a @ c # b \<and> c \<notin> set b"
proof -
  have "rsplit_once c s = Some (a, b) \<longleftrightarrow> split_once c (rev s) = Some (rev b, rev a)"
    by (auto simp: rsplit_once_def split: option.splits)
  also have "\<dots> \<longleftrightarrow> rev s = rev b @ c # rev a \<and> c \<notin> set b" by (simp add: split_once_Some)
  also have "rev s = rev b @ c # rev a \<longleftrightarrow> s = a @ c # b"
    by (metis append.assoc append_Cons append_Nil rev.simps(2) rev_append rev_rev_ident)
  finally show ?thesis .
qed

definition strip_suffix :: "string \<Rightarrow> string \<Rightarrow> string option" where
  "strip_suffix p s = map_option rev (strip_prefix (rev p) (rev s))"

lemma strip_suffix_append [simp]: "strip_suffix p (s @ p) = Some s"
  using strip_prefix_Some [of "rev p" "rev (s @ p)" "rev s"] by (simp add: strip_suffix_def)

lemma strip_suffix_Some: "strip_suffix p s = Some r \<longleftrightarrow> s = r @ p"
proof
  show "strip_suffix p s = Some r \<Longrightarrow> s = r @ p"
    by (auto simp: strip_suffix_def strip_prefix_Some) (metis rev_append rev_rev_ident)
qed simp

text \<open>\<open>str::find\<close>: the text after the first occurrence of a substring.\<close>

fun after_first :: "string \<Rightarrow> string \<Rightarrow> string option" where
  "after_first p [] = (if p = [] then Some [] else None)"
| "after_first p (c # s) =
    (case strip_prefix p (c # s) of Some r \<Rightarrow> Some r | None \<Rightarrow> after_first p s)"

lemma trim_ends:
  assumes "s \<noteq> []" and "visible (hd s)" and "visible (last s)"
  shows "trim s = s"
proof -
  have "\<not> prefix w s" if "w \<in> set ws_seqs" for w
    using ws_seqs_invisible [OF that] assms by (cases w) (auto simp: prefix_def)
  then have "trim_start s = s" unfolding trim_start_def by (intro strip_seqs_id) blast
  moreover have "\<not> prefix (rev w) (rev s)" if "w \<in> set ws_seqs" for w
  proof
    assume "prefix (rev w) (rev s)"
    then obtain u where "rev s = rev w @ u" by (auto simp: prefix_def)
    then have "hd (rev s) = hd (rev w)" using ws_seqs_invisible [OF that] by (cases "rev w") auto
    then show False using ws_seqs_invisible [OF that] assms by (simp add: hd_rev)
  qed
  then have "strip_seqs (map rev ws_seqs) (rev s) = rev s" by (intro strip_seqs_id) auto
  ultimately show ?thesis by (simp add: trim_def trim_end_def)
qed

section \<open>Ordered maps\<close>

fun bt_get :: "('k \<times> 'v) list \<Rightarrow> 'k \<Rightarrow> 'v option" where
  "bt_get [] k = None"
| "bt_get ((j, v) # m) k = (if j = k then Some v else bt_get m k)"

fun bt_insert :: "'k::linorder \<Rightarrow> 'v \<Rightarrow> ('k \<times> 'v) list \<Rightarrow> ('k \<times> 'v) list" where
  "bt_insert k v [] = [(k, v)]"
| "bt_insert k v ((j, u) # m) =
    (if k = j then (k, v) # m else if k < j then (k, v) # (j, u) # m else (j, u) # bt_insert k v m)"

definition bt_ok :: "('k::linorder \<times> 'v) list \<Rightarrow> bool" where
  "bt_ok m \<longleftrightarrow> sorted_wrt (<) (map fst m)"

lemma keys_bt_insert: "fst ` set (bt_insert k v m) = insert k (fst ` set m)"
  by (induction k v m rule: bt_insert.induct) auto

lemma bt_ok_insert [simp]: "bt_ok m \<Longrightarrow> bt_ok (bt_insert k v m)"
proof (induction k v m rule: bt_insert.induct)
  case (2 k v j u m)
  have "\<forall>x \<in> fst ` set (bt_insert k v m). j < x" if "j < k" "bt_ok ((j, u) # m)"
    unfolding keys_bt_insert using that by (auto simp: bt_ok_def)
  with 2 show ?case by (auto simp: bt_ok_def)
qed (simp add: bt_ok_def)

lemma bt_get_insert: "bt_ok m \<Longrightarrow> bt_get (bt_insert k v m) j = (if j = k then Some v else bt_get m j)"
  by (induction k v m rule: bt_insert.induct) (auto simp: bt_ok_def)

lemma bt_insert_last:
  "bt_ok m \<Longrightarrow> (\<forall>j \<in> set (map fst m). j < k) \<Longrightarrow> bt_insert k v m = m @ [(k, v)]"
  by (induction k v m rule: bt_insert.induct) (auto simp: bt_ok_def)

lemma bt_get_None: "bt_get m k = None \<longleftrightarrow> k \<notin> set (map fst m)"
  by (induction m k rule: bt_get.induct) auto

lemma length_bt_insert:
  "bt_ok m \<Longrightarrow> length (bt_insert k v m) = (if bt_get m k = None then Suc (length m) else length m)"
proof (induction k v m rule: bt_insert.induct)
  case (2 k v j u m)
  then show ?case by (auto simp: bt_ok_def bt_get_None)
qed simp

lemma foldl_bt_insert:
  assumes "bt_ok (m @ kvs)"
  shows "foldl (\<lambda>m (k, v). bt_insert k v m) m kvs = m @ kvs"
  using assms
proof (induction kvs arbitrary: m)
  case (Cons kv kvs)
  obtain k v where kv: "kv = (k, v)" by fastforce
  from Cons.prems have "bt_ok m" "\<forall>j \<in> set (map fst m). j < k"
    by (auto simp: bt_ok_def kv sorted_wrt_append)
  then have "bt_insert k v m = m @ [(k, v)]" by (rule bt_insert_last)
  with Cons kv show ?case by simp
qed simp

end
