(* ===== verification/Awg_Metrics.thy ===== *)
theory Awg_Metrics
  imports Prelude_Text
begin

text \<open>
  The metrics of \<open>crates/awg-params-agent/src/metrics.rs\<close>: process-lifetime counters that are
  mirrored to a node-exporter textfile after every event and read back at start-up.  The lemmas
  show that reading back what was written restores every counter, and that the label set stays
  bounded.
\<close>

section \<open>Series\<close>

definition POLL_FAILURES_METRIC :: string where
  "POLL_FAILURES_METRIC = ''awg_params_agent_poll_failures_total''"

definition LAST_SUCCESS_METRIC :: string where
  "LAST_SUCCESS_METRIC = ''awg_params_agent_last_success_timestamp_seconds''"

definition CONF_CONFLICT_METRIC :: string where
  "CONF_CONFLICT_METRIC = ''awg_params_agent_conf_write_conflicts_total''"

definition PARAM_REJECTED_METRIC :: string where
  "PARAM_REJECTED_METRIC = ''awg_params_agent_param_rejected_total''"

definition APPLY_FAILURES_METRIC :: string where
  "APPLY_FAILURES_METRIC = ''awg_params_agent_apply_failures_total''"

definition LAST_APPLY_SUCCESS_METRIC :: string where
  "LAST_APPLY_SUCCESS_METRIC = ''awg_params_agent_last_apply_success_timestamp_seconds''"

definition MAX_PARAM_REJECTED_FIELDS :: nat where
  "MAX_PARAM_REJECTED_FIELDS = 32"

datatype conflict_reason = LockTimeout | ApplySuperseded

definition conflict_label :: "conflict_reason \<Rightarrow> string" where
  "conflict_label r = (case r of LockTimeout \<Rightarrow> ''lock_timeout'' | ApplySuperseded \<Rightarrow> ''apply_superseded'')"

definition series_prefix :: "conflict_reason \<Rightarrow> string" where
  "series_prefix r = CONF_CONFLICT_METRIC @ ''{reason=\"'' @ conflict_label r @ ''\"}''"

section \<open>Rejected fields in error texts\<close>

definition label_char :: "char \<Rightarrow> bool" where
  "label_char c \<longleftrightarrow>
    is_digit c \<or> (65 \<le> (of_char c :: nat) \<and> (of_char c :: nat) \<le> 90) \<or>
    (97 \<le> (of_char c :: nat) \<and> (of_char c :: nat) \<le> 122) \<or> c = CHR ''_''"

fun extract_rejected_field :: "string list \<Rightarrow> string option" where
  "extract_rejected_field [] = None"
| "extract_rejected_field (cause # chain) =
    (case after_first ''field='' cause of
       None \<Rightarrow> extract_rejected_field chain
     | Some r \<Rightarrow>
         (let field = takeWhile label_char r in
          if field \<noteq> [] then Some field else extract_rejected_field chain))"

section \<open>State and events\<close>

record metrics =
  m_poll_failures :: nat
  m_last_success :: int
  m_lock_timeout :: nat
  m_apply_superseded :: nat
  m_param_rejected :: "(string \<times> nat) list"
  m_apply_failures :: nat
  m_last_apply_success :: int

definition metrics_zero :: metrics where
  "metrics_zero =
    \<lparr>m_poll_failures = 0, m_last_success = 0, m_lock_timeout = 0, m_apply_superseded = 0,
     m_param_rejected = [], m_apply_failures = 0, m_last_apply_success = 0\<rparr>"

definition inc_u64 :: "nat \<Rightarrow> nat" where
  "inc_u64 n = (n + 1) mod 2 ^ 64"

definition record_poll_failure :: "metrics \<Rightarrow> metrics" where
  "record_poll_failure m = m\<lparr>m_poll_failures := inc_u64 (m_poll_failures m)\<rparr>"

definition record_poll_success :: "int \<Rightarrow> metrics \<Rightarrow> metrics" where
  "record_poll_success now m = m\<lparr>m_last_success := now\<rparr>"

definition record_conf_write_conflict :: "conflict_reason \<Rightarrow> metrics \<Rightarrow> metrics" where
  "record_conf_write_conflict r m =
    (case r of
       LockTimeout \<Rightarrow> m\<lparr>m_lock_timeout := inc_u64 (m_lock_timeout m)\<rparr>
     | ApplySuperseded \<Rightarrow> m\<lparr>m_apply_superseded := inc_u64 (m_apply_superseded m)\<rparr>)"

definition record_param_rejected :: "string \<Rightarrow> metrics \<Rightarrow> metrics" where
  "record_param_rejected field m =
    (let counts = m_param_rejected m in
     case bt_get counts field of
       None \<Rightarrow>
         if length counts \<ge> MAX_PARAM_REJECTED_FIELDS then m
         else m\<lparr>m_param_rejected := bt_insert field (inc_u64 0) counts\<rparr>
     | Some n \<Rightarrow> m\<lparr>m_param_rejected := bt_insert field (inc_u64 n) counts\<rparr>)"

definition record_apply_failure :: "metrics \<Rightarrow> metrics" where
  "record_apply_failure m = m\<lparr>m_apply_failures := inc_u64 (m_apply_failures m)\<rparr>"

definition record_apply_success :: "int \<Rightarrow> metrics \<Rightarrow> metrics" where
  "record_apply_success now m = m\<lparr>m_last_apply_success := now\<rparr>"

section \<open>Flush\<close>

definition em_dash :: string where
  "em_dash = [CHR 0xE2, CHR 0x80, CHR 0x94]"

definition poll_help :: string where
  "poll_help =
       '' Non-2xx or network-error responses from GET .../awg-params/latest (central-unreachable '' @
       ''signal), cumulative since agent start (reseeded from this file on restart).''"

definition success_help :: string where
  "success_help =
       '' Unix timestamp of the last successful (2xx) poll of central. 0 = never succeeded since '' @
       ''install (fresh node, no prior file to reseed from) '' @ em_dash @ '' alert on `time() - '' @
       LAST_SUCCESS_METRIC @
       '' > N` for staleness.''"

definition conflict_help :: string where
  "conflict_help =
       '' awg0.conf writes/applies the agent skipped due to a concurrent writer, by reason. '' @
       ''reason=\"lock_timeout\": could not acquire the shared lock within the timeout, so the agent '' @
       ''never wrote awg0.conf (retries next poll). reason=\"apply_superseded\": wrote under the '' @
       ''lock, but the installer superseded the file before the unlocked kernel apply, so only the '' @
       ''apply was deferred to the next poll (self-healing).''"

definition rejected_help :: string where
  "rejected_help =
       '' Central-sourced obfuscation params rejected by FIELD_SPECS validators before splice into '' @
       ''awg0.conf, by field (params.rs charset/grammar guards + post-merge preconditions). '' @
       ''Non-zero is a hostile-central / MITM signal '' @ em_dash @ '' critical alert, not routine.''"

definition apply_help :: string where
  "apply_help =
       '' awg-quick strip / awg syncconf non-zero exits, cumulative. Nonzero while '' @
       LAST_SUCCESS_METRIC @
       '' advances = polls succeed but the epoch never reaches the kernel (the fail-soft-invisible '' @
       ''stall).''"

definition applied_help :: string where
  "applied_help =
       '' Unix timestamp of the last successful kernel apply (awg syncconf exit 0). 0 = never '' @
       ''applied. Alert on `time() - '' @
       LAST_APPLY_SUCCESS_METRIC @
       '' > N` alongside the poll gauge '' @ em_dash @ '' poll-green + apply-stale is the silent-drop signature.''"

definition series_header :: "string \<Rightarrow> string \<Rightarrow> string \<Rightarrow> string list" where
  "series_header m help kind = [''# HELP '' @ m @ help, ''# TYPE '' @ m @ kind]"

definition rejected_series :: "string \<Rightarrow> string" where
  "rejected_series field = PARAM_REJECTED_METRIC @ ''{field=\"'' @ field @ ''\"}''"

definition flush_lines :: "metrics \<Rightarrow> string list" where
  "flush_lines m =
    series_header POLL_FAILURES_METRIC poll_help '' counter'' @
    [POLL_FAILURES_METRIC @ '' '' @ show_nat (m_poll_failures m)] @
    series_header LAST_SUCCESS_METRIC success_help '' gauge'' @
    [LAST_SUCCESS_METRIC @ '' '' @ show_int (m_last_success m)] @
    series_header CONF_CONFLICT_METRIC conflict_help '' counter'' @
    [series_prefix LockTimeout @ '' '' @ show_nat (m_lock_timeout m),
     series_prefix ApplySuperseded @ '' '' @ show_nat (m_apply_superseded m)] @
    series_header PARAM_REJECTED_METRIC rejected_help '' counter'' @
    map (\<lambda>(f, n). rejected_series f @ '' '' @ show_nat n) (m_param_rejected m) @
    series_header APPLY_FAILURES_METRIC apply_help '' counter'' @
    [APPLY_FAILURES_METRIC @ '' '' @ show_nat (m_apply_failures m)] @
    series_header LAST_APPLY_SUCCESS_METRIC applied_help '' gauge'' @
    [LAST_APPLY_SUCCESS_METRIC @ '' '' @ show_int (m_last_apply_success m)]"

definition flush :: "metrics \<Rightarrow> string" where
  "flush m = unlines (flush_lines m)"

section \<open>Load\<close>

definition load_series :: "string \<Rightarrow> string \<Rightarrow> metrics \<Rightarrow> metrics" where
  "load_series series v m =
    (let un = parse_unsigned u64_max v; sn = parse_i64 v in
     if series = POLL_FAILURES_METRIC then
       (case un of Some n \<Rightarrow> m\<lparr>m_poll_failures := n\<rparr> | None \<Rightarrow> m)
     else if series = LAST_SUCCESS_METRIC then
       (case sn of Some n \<Rightarrow> m\<lparr>m_last_success := n\<rparr> | None \<Rightarrow> m)
     else if series = APPLY_FAILURES_METRIC then
       (case un of Some n \<Rightarrow> m\<lparr>m_apply_failures := n\<rparr> | None \<Rightarrow> m)
     else if series = LAST_APPLY_SUCCESS_METRIC then
       (case sn of Some n \<Rightarrow> m\<lparr>m_last_apply_success := n\<rparr> | None \<Rightarrow> m)
     else if series = series_prefix LockTimeout then
       (case un of Some n \<Rightarrow> m\<lparr>m_lock_timeout := n\<rparr> | None \<Rightarrow> m)
     else if series = series_prefix ApplySuperseded then
       (case un of Some n \<Rightarrow> m\<lparr>m_apply_superseded := n\<rparr> | None \<Rightarrow> m)
     else
       (case Option.bind (strip_prefix (PARAM_REJECTED_METRIC @ ''{field=\"'') series) (strip_suffix ''\"}'') of
          None \<Rightarrow> m
        | Some field \<Rightarrow>
            (case un of
               Some n \<Rightarrow> m\<lparr>m_param_rejected := bt_insert field n (m_param_rejected m)\<rparr>
             | None \<Rightarrow> m)))"

definition load_line :: "string \<Rightarrow> metrics \<Rightarrow> metrics" where
  "load_line line0 m =
    (let line = trim line0 in
     if line = [] \<or> prefix ''#'' line then m
     else (case rsplit_once (CHR '' '') line of
             None \<Rightarrow> m
           | Some (series, v) \<Rightarrow> load_series series v m))"

text \<open>\<^const>\<open>None\<close> is a file that does not exist or cannot be read.\<close>

definition load :: "string option \<Rightarrow> metrics" where
  "load file =
    (case file of
       None \<Rightarrow> metrics_zero
     | Some content \<Rightarrow> foldl (\<lambda>m l. load_line l m) metrics_zero (str_lines content))"


section \<open>Reading back\<close>

lemmas metric_names = POLL_FAILURES_METRIC_def LAST_SUCCESS_METRIC_def CONF_CONFLICT_METRIC_def
  PARAM_REJECTED_METRIC_def APPLY_FAILURES_METRIC_def LAST_APPLY_SUCCESS_METRIC_def

lemmas help_texts = poll_help_def success_help_def conflict_help_def rejected_help_def apply_help_def
  applied_help_def em_dash_def

lemma load_comment [simp]: "visible (last l) \<Longrightarrow> load_line (CHR ''#'' # l) m = m"
proof -
  assume "visible (last l)"
  then have "l \<noteq> [] \<or> l = []" and "trim (CHR ''#'' # l) = CHR ''#'' # l \<or> l = []"
    by (auto intro!: trim_ends simp: visible_def)
  moreover have "trim ''#'' = ''#''" by (rule trim_visible) (simp add: visible_def)
  ultimately show "load_line (CHR ''#'' # l) m = m" by (auto simp: load_line_def Let_def)
qed

lemma load_value:
  assumes "s \<noteq> []" and "visible (hd s)" and "hd s \<noteq> CHR ''#''"
    and "v \<noteq> []" and "list_all visible v"
  shows "load_line (s @ '' '' @ v) m = load_series s v m"
proof -
  have "visible (last v)" using assms(4,5) by (simp add: list_all_iff)
  then have "trim (s @ CHR '' '' # v) = s @ CHR '' '' # v"
    using assms by (intro trim_ends) auto
  moreover have "CHR '' '' \<notin> set v" using assms(5) by (auto simp: list_all_iff visible_def)
  then have "rsplit_once (CHR '' '') (s @ CHR '' '' # v) = Some (s, v)" by (simp add: rsplit_once_Some)
  moreover have "\<not> prefix ''#'' (s @ CHR '' '' # v)" using assms(1,3) by (cases s) auto
  ultimately show ?thesis using assms(1) by (simp add: load_line_def Let_def)
qed

lemma series_heads:
  "POLL_FAILURES_METRIC \<noteq> [] \<and> visible (hd POLL_FAILURES_METRIC) \<and> hd POLL_FAILURES_METRIC \<noteq> CHR ''#''"
  "APPLY_FAILURES_METRIC \<noteq> [] \<and> visible (hd APPLY_FAILURES_METRIC) \<and> hd APPLY_FAILURES_METRIC \<noteq> CHR ''#''"
  "LAST_SUCCESS_METRIC \<noteq> [] \<and> visible (hd LAST_SUCCESS_METRIC) \<and> hd LAST_SUCCESS_METRIC \<noteq> CHR ''#''"
  "LAST_APPLY_SUCCESS_METRIC \<noteq> [] \<and> visible (hd LAST_APPLY_SUCCESS_METRIC) \<and> hd LAST_APPLY_SUCCESS_METRIC \<noteq> CHR ''#''"
  "series_prefix r \<noteq> [] \<and> visible (hd (series_prefix r)) \<and> hd (series_prefix r) \<noteq> CHR ''#''"
  "rejected_series f \<noteq> [] \<and> visible (hd (rejected_series f)) \<and> hd (rejected_series f) \<noteq> CHR ''#''"
  by (simp_all add: metric_names series_prefix_def rejected_series_def visible_def)

lemma visible_show_nat: "list_all visible (show_nat n)"
  using set_show_nat_digit visible_digit by (fastforce simp: list_all_iff)

lemma load_headers [simp]:
  "foldl (\<lambda>m l. load_line l m) st (series_header POLL_FAILURES_METRIC poll_help '' counter'') = st"
  "foldl (\<lambda>m l. load_line l m) st (series_header LAST_SUCCESS_METRIC success_help '' gauge'') = st"
  "foldl (\<lambda>m l. load_line l m) st (series_header CONF_CONFLICT_METRIC conflict_help '' counter'') = st"
  "foldl (\<lambda>m l. load_line l m) st (series_header PARAM_REJECTED_METRIC rejected_help '' counter'') = st"
  "foldl (\<lambda>m l. load_line l m) st (series_header APPLY_FAILURES_METRIC apply_help '' counter'') = st"
  "foldl (\<lambda>m l. load_line l m) st (series_header LAST_APPLY_SUCCESS_METRIC applied_help '' gauge'') = st"
  by (simp_all add: series_header_def visible_def help_texts)

definition metrics_ok :: "metrics \<Rightarrow> bool" where
  "metrics_ok m \<longleftrightarrow>
    m_poll_failures m \<le> u64_max \<and> m_lock_timeout m \<le> u64_max \<and> m_apply_superseded m \<le> u64_max \<and>
    m_apply_failures m \<le> u64_max \<and> is_i64 (m_last_success m) \<and> is_i64 (m_last_apply_success m) \<and>
    bt_ok (m_param_rejected m) \<and> length (m_param_rejected m) \<le> MAX_PARAM_REJECTED_FIELDS \<and>
    list_all (\<lambda>(f, n). list_all label_char f \<and> n \<le> u64_max) (m_param_rejected m)"

lemma load_named:
  "load_series POLL_FAILURES_METRIC v st =
    (case parse_unsigned u64_max v of Some n \<Rightarrow> st\<lparr>m_poll_failures := n\<rparr> | None \<Rightarrow> st)"
  "load_series LAST_SUCCESS_METRIC v st =
    (case parse_i64 v of Some n \<Rightarrow> st\<lparr>m_last_success := n\<rparr> | None \<Rightarrow> st)"
  "load_series APPLY_FAILURES_METRIC v st =
    (case parse_unsigned u64_max v of Some n \<Rightarrow> st\<lparr>m_apply_failures := n\<rparr> | None \<Rightarrow> st)"
  "load_series LAST_APPLY_SUCCESS_METRIC v st =
    (case parse_i64 v of Some n \<Rightarrow> st\<lparr>m_last_apply_success := n\<rparr> | None \<Rightarrow> st)"
  "load_series (series_prefix LockTimeout) v st =
    (case parse_unsigned u64_max v of Some n \<Rightarrow> st\<lparr>m_lock_timeout := n\<rparr> | None \<Rightarrow> st)"
  "load_series (series_prefix ApplySuperseded) v st =
    (case parse_unsigned u64_max v of Some n \<Rightarrow> st\<lparr>m_apply_superseded := n\<rparr> | None \<Rightarrow> st)"
  by (simp_all add: load_series_def metric_names series_prefix_def conflict_label_def)

lemma load_rejected_series:
  "load_series (rejected_series f) v st =
    (case parse_unsigned u64_max v of
       Some n \<Rightarrow> st\<lparr>m_param_rejected := bt_insert f n (m_param_rejected st)\<rparr> | None \<Rightarrow> st)"
proof -
  have "strip_prefix (PARAM_REJECTED_METRIC @ ''{field=\"'') (rejected_series f) = Some (f @ ''\"}'')"
    by (simp add: rejected_series_def strip_prefix_Some)
  moreover have "rejected_series f \<notin> {POLL_FAILURES_METRIC, LAST_SUCCESS_METRIC, APPLY_FAILURES_METRIC,
      LAST_APPLY_SUCCESS_METRIC, series_prefix LockTimeout, series_prefix ApplySuperseded}"
    by (simp add: rejected_series_def metric_names series_prefix_def)
  ultimately show ?thesis by (simp add: load_series_def Let_def)
qed

lemma load_rejected_lines:
  assumes "bt_ok (m_param_rejected st @ kvs)" and "list_all (\<lambda>(f, n). n \<le> u64_max) kvs"
  shows "foldl (\<lambda>m l. load_line l m) st (map (\<lambda>(f, n). rejected_series f @ '' '' @ show_nat n) kvs) =
    st\<lparr>m_param_rejected := m_param_rejected st @ kvs\<rparr>"
  using assms
proof (induction kvs arbitrary: st)
  case (Cons kv kvs)
  obtain f n where kv: "kv = (f, n)" by fastforce
  have "load_line (rejected_series f @ '' '' @ show_nat n) st =
      st\<lparr>m_param_rejected := m_param_rejected st @ [(f, n)]\<rparr>"
  proof -
    have "load_line (rejected_series f @ '' '' @ show_nat n) st = load_series (rejected_series f) (show_nat n) st"
      by (rule load_value) (use series_heads visible_show_nat in auto)
    moreover have "bt_insert f n (m_param_rejected st) = m_param_rejected st @ [(f, n)]"
      by (rule bt_insert_last) (use Cons.prems(1) kv in \<open>auto simp: bt_ok_def sorted_wrt_append\<close>)
    ultimately show ?thesis using Cons.prems(2) kv by (simp add: load_rejected_series parse_unsigned_show_nat)
  qed
  with Cons kv show ?case by simp
qed simp

lemma load_flush_lines:
  assumes "metrics_ok m"
  shows "foldl (\<lambda>m l. load_line l m) metrics_zero (flush_lines m) = m"
proof -
  have nat_line: "load_line (s @ '' '' @ show_nat n) st = load_series s (show_nat n) st"
    if "s \<noteq> [] \<and> visible (hd s) \<and> hd s \<noteq> CHR ''#''" for s n st
    by (rule load_value) (use that visible_show_nat in auto)
  have int_line: "load_line (s @ '' '' @ show_int n) st = load_series s (show_int n) st"
    if "s \<noteq> [] \<and> visible (hd s) \<and> hd s \<noteq> CHR ''#''" for s n st
    by (rule load_value) (use that visible_show_int in auto)
  have rej: "list_all (\<lambda>(f, n). n \<le> u64_max) (m_param_rejected m)"
    using assms by (auto simp: metrics_ok_def list_all_iff)
  show ?thesis
    using assms unfolding flush_lines_def foldl_append load_headers foldl.simps
      nat_line [OF series_heads(1)] nat_line [OF series_heads(2)] nat_line [OF series_heads(5)]
      int_line [OF series_heads(3)] int_line [OF series_heads(4)] load_named
    by (simp add: metrics_ok_def parse_unsigned_show_nat parse_i64_show_int load_rejected_lines [simplified]
        rej [simplified] metrics_zero_def)
qed


lemma plain_headers:
  "list_all plain_line (series_header POLL_FAILURES_METRIC poll_help '' counter'')"
  "list_all plain_line (series_header LAST_SUCCESS_METRIC success_help '' gauge'')"
  "list_all plain_line (series_header CONF_CONFLICT_METRIC conflict_help '' counter'')"
  "list_all plain_line (series_header PARAM_REJECTED_METRIC rejected_help '' counter'')"
  "list_all plain_line (series_header APPLY_FAILURES_METRIC apply_help '' counter'')"
  "list_all plain_line (series_header LAST_APPLY_SUCCESS_METRIC applied_help '' gauge'')"
  by (simp_all add: series_header_def plain_line_def help_texts metric_names)

lemma plain_value:
  assumes "CHR 0x0A \<notin> set s" and "v \<noteq> []" and "list_all visible v"
  shows "plain_line (s @ '' '' @ v)"
proof -
  have "visible (last v)" using assms(2,3) by (simp add: list_all_iff)
  then have "last v \<noteq> CHR 0x0D" by (auto simp: visible_def)
  moreover have "CHR 0x0A \<notin> set v" using assms(3) by (auto simp: list_all_iff visible_def)
  ultimately show ?thesis using assms(1,2) by (simp add: plain_line_def)
qed

lemma plain_flush_lines:
  assumes "metrics_ok m"
  shows "list_all plain_line (flush_lines m)"
proof -
  have lab: "CHR 0x0A \<notin> set f" if "list_all label_char f" for f
    using that by (auto simp: list_all_iff label_char_def is_digit_def)
  have "plain_line (rejected_series f @ '' '' @ show_nat n)" if "list_all label_char f" for f n
    using lab [OF that] by (intro plain_value) (simp_all add: rejected_series_def metric_names visible_show_nat)
  then have "list_all plain_line (map (\<lambda>(f, n). rejected_series f @ '' '' @ show_nat n) (m_param_rejected m))"
    using assms by (fastforce simp: metrics_ok_def list_all_iff)
  moreover have "plain_line (s @ '' '' @ show_nat n)" "plain_line (s @ '' '' @ show_int i)"
    if "CHR 0x0A \<notin> set s" for s n i
    using that by (simp_all only: plain_value show_nat_not_Nil show_int_not_Nil visible_show_nat visible_show_int
        not_False_eq_True)
  moreover have "CHR 0x0A \<notin> set (series_prefix r)" for r
    by (cases r) (simp_all add: series_prefix_def metric_names conflict_label_def)
  moreover have "CHR 0x0A \<notin> set POLL_FAILURES_METRIC" "CHR 0x0A \<notin> set LAST_SUCCESS_METRIC"
    "CHR 0x0A \<notin> set APPLY_FAILURES_METRIC" "CHR 0x0A \<notin> set LAST_APPLY_SUCCESS_METRIC"
    by (simp_all add: metric_names)
  ultimately show ?thesis
    unfolding flush_lines_def list_all_append list.pred_inject by (simp only: plain_headers simp_thms list.pred_inject)
qed

lemma load_flush:
  assumes "metrics_ok m"
  shows "load (Some (flush m)) = m"
  using load_flush_lines [OF assms] str_lines_unlines [OF plain_flush_lines [OF assms]]
  by (simp add: load_def flush_def)

section \<open>Bounded state\<close>

lemma inc_u64_le: "inc_u64 n \<le> u64_max"
  by (simp add: inc_u64_def)

datatype metric_event =
    PollFailure
  | PollSuccess int
  | WriteConflict conflict_reason
  | ParamRejected string
  | ApplyFailure
  | ApplySuccess int

definition record_event :: "metric_event \<Rightarrow> metrics \<Rightarrow> metrics" where
  "record_event e m =
    (case e of
       PollFailure \<Rightarrow> record_poll_failure m
     | PollSuccess now \<Rightarrow> record_poll_success now m
     | WriteConflict r \<Rightarrow> record_conf_write_conflict r m
     | ParamRejected f \<Rightarrow> record_param_rejected f m
     | ApplyFailure \<Rightarrow> record_apply_failure m
     | ApplySuccess now \<Rightarrow> record_apply_success now m)"

definition event_ok :: "metric_event \<Rightarrow> bool" where
  "event_ok e =
    (case e of PollSuccess now \<Rightarrow> is_i64 now | ApplySuccess now \<Rightarrow> is_i64 now
     | ParamRejected f \<Rightarrow> list_all label_char f | _ \<Rightarrow> True)"

lemma list_all_bt_insert: "P (k, v) \<Longrightarrow> list_all P m \<Longrightarrow> list_all P (bt_insert k v m)"
  by (induction k v m rule: bt_insert.induct) auto

lemma record_param_rejected_ok:
  assumes "metrics_ok m" and "list_all label_char f"
  shows "metrics_ok (record_param_rejected f m)"
  using assms inc_u64_le
  by (auto simp: record_param_rejected_def metrics_ok_def Let_def length_bt_insert
      intro!: list_all_bt_insert split: option.splits)

lemma record_event_ok: "metrics_ok m \<Longrightarrow> event_ok e \<Longrightarrow> metrics_ok (record_event e m)"
  using inc_u64_le record_param_rejected_ok
  by (cases e) (auto simp: record_event_def event_ok_def record_poll_failure_def record_poll_success_def
      record_conf_write_conflict_def record_apply_failure_def record_apply_success_def metrics_ok_def
      split: conflict_reason.split)

text \<open>C32: a restart loses nothing: from a fresh start, any sequence of events keeps the state well formed (at most 32 distinct
  field labels, counters and timestamps in range), and loading
  the textfile the state was flushed to restores exactly that state.\<close>

theorem metrics_run_survives_restart:
  assumes "list_all event_ok es"
  shows "metrics_ok (foldl (\<lambda>m e. record_event e m) metrics_zero es) \<and>
    length (m_param_rejected (foldl (\<lambda>m e. record_event e m) metrics_zero es)) \<le> 32 \<and>
    load (Some (flush (foldl (\<lambda>m e. record_event e m) metrics_zero es))) =
      foldl (\<lambda>m e. record_event e m) metrics_zero es"
proof -
  have "metrics_ok (foldl (\<lambda>m e. record_event e m) m es)" if "metrics_ok m" for m
    using assms that by (induction es arbitrary: m) (simp_all add: record_event_ok)
  moreover have "metrics_ok metrics_zero"
    by (simp add: metrics_ok_def metrics_zero_def is_i64_def bt_ok_def)
  ultimately have ok: "metrics_ok (foldl (\<lambda>m e. record_event e m) metrics_zero es)" by blast
  then have "length (m_param_rejected (foldl (\<lambda>m e. record_event e m) metrics_zero es)) \<le> 32"
    by (simp add: metrics_ok_def MAX_PARAM_REJECTED_FIELDS_def)
  with ok load_flush [OF ok] show ?thesis by simp
qed

theorem metrics_run_survives_restart_witness:
  "let m = foldl (\<lambda>m e. record_event e m) metrics_zero
       [PollFailure, ParamRejected ''jmin'', WriteConflict LockTimeout, ParamRejected ''jmin''] in
   m_param_rejected m = [(''jmin'', 2)] \<and> load (Some (flush m)) = m"
proof -
  have "list_all event_ok [PollFailure, ParamRejected ''jmin'', WriteConflict LockTimeout, ParamRejected ''jmin'']"
    by (simp add: event_ok_def label_char_def)
  from metrics_run_survives_restart [OF this] show ?thesis
    by (simp add: Let_def record_event_def record_param_rejected_def record_poll_failure_def
        record_conf_write_conflict_def metrics_zero_def inc_u64_def MAX_PARAM_REJECTED_FIELDS_def)
qed

end
