(* ===== verification/Awg_Agent.thy ===== *)
theory Awg_Agent
  imports Awg_Merge_Props Awg_Metrics
begin

text \<open>
  The agent loop of \<open>crates/awg-params-agent/src/agent.rs\<close> with its client (\<open>client.rs\<close>) and
  state file (\<open>state.rs\<close>).  One tick is a function of the node's files, kernel state and counters;
  the outcomes of the system calls it makes, and the writes the installer can interleave outside
  the shared lock, are the fields of an environment record.  The lemmas show that the recorded epoch
  never goes back, that it is recorded only after the kernel was configured from the merge of that epoch
  (or from a file the installer wrote over it just before the apply), and that a tick whose state write failed can be repeated without changing anything but the state.
\<close>

section \<open>The node\<close>

record conf_identity =
  ci_ino :: nat
  ci_size :: nat
  ci_mtime_sec :: int
  ci_mtime_nsec :: int

record conf_file =
  cf_text :: string
  cf_id :: conf_identity

record conf_write =
  cw_identity :: conf_identity
  cw_changed :: bool

record awg_state =
  last_applied_epoch :: int
  applied_at :: int

datatype state_file = NoState | BadState | SavedState awg_state

text \<open>
  \<open>w_kernel\<close> is the conf text the interface was last configured from, \<open>w_marker\<close> the fields named in
  the param-dropped marker file, \<open>w_reported\<close> the epochs posted to central and \<open>w_restarts\<close> the
  units restarted after an apply, both oldest first.
\<close>

record node =
  w_conf :: "conf_file option"
  w_state :: state_file
  w_kernel :: "string option"
  w_marker :: "string list option"
  w_metrics :: metrics
  w_reported :: "int list"
  w_restarts :: "string list"

text \<open>Durations are in milliseconds; the delay hook used by the tests is always zero.\<close>

record agent_config =
  central_url :: string
  service_token_path :: string
  awg_conf_path :: string
  awg_iface :: string
  state_path :: string
  poll_interval :: nat
  node_id :: string
  restart_unit_after_apply :: "string option"
  awg_conf_lock_path :: string
  lock_acquire_timeout :: nat
  textfile_dir :: string

datatype http_reply = SendError | Reply nat "awg_params_latest_response option"

datatype flock_result = FlockOk | WouldBlock | FlockError

datatype apply_result = ApplyOk | ApplyErr "string option"

record agent_env =
  e_token :: "string option"
  e_reply :: http_reply
  e_now :: int
  e_lock_open :: bool
  e_flock :: "nat \<Rightarrow> flock_result"
  e_late :: "nat \<Rightarrow> nat"
  e_write :: bool
  e_new_id :: conf_identity
  e_stat :: bool
  e_inst1 :: "conf_file option"
  e_restat :: bool
  e_inst2 :: "conf_file option"
  e_apply :: apply_result
  e_save :: bool
  e_report_token :: "string option"

datatype agent_error =
    TokenUnreadable
  | TokenEmpty
  | PollSend
  | PollDecode
  | LoadState
  | LockFailed
  | ReadConf
  | MergeFailed merge_error
  | StatConf
  | WriteConf
  | ApplyFailed
  | SaveState

section \<open>Client\<close>

definition read_token :: "string option \<Rightarrow> agent_error + string" where
  "read_token file =
    (case file of
       None \<Rightarrow> Inl TokenUnreadable
     | Some t \<Rightarrow> let token = trim t in if token = [] then Inl TokenEmpty else Inr token)"

definition poll_latest ::
  "agent_env \<Rightarrow> metrics \<Rightarrow> (agent_error + awg_params_latest_response option) \<times> metrics" where
  "poll_latest env m =
    (case read_token (e_token env) of
       Inl e \<Rightarrow> (Inl e, m)
     | Inr token \<Rightarrow>
         (case e_reply env of
            SendError \<Rightarrow> (Inl PollSend, record_poll_failure m)
          | Reply status decoded \<Rightarrow>
              if 200 \<le> status \<and> status < 300 then
                (case decoded of
                   None \<Rightarrow> (Inl PollDecode, record_poll_failure m)
                 | Some r \<Rightarrow> (Inr (Some r), record_poll_success (e_now env) m))
              else (Inr None, record_poll_failure m)))"

definition report_applied :: "agent_env \<Rightarrow> int \<Rightarrow> node \<Rightarrow> node" where
  "report_applied env epoch w =
    (case read_token (e_report_token env) of
       Inl e \<Rightarrow> w
     | Inr token \<Rightarrow> w\<lparr>w_reported := w_reported w @ [epoch]\<rparr>)"

section \<open>State file\<close>

definition load_state :: "state_file \<Rightarrow> agent_error + awg_state option" where
  "load_state s =
    (case s of NoState \<Rightarrow> Inr None | BadState \<Rightarrow> Inl LoadState | SavedState st \<Rightarrow> Inr (Some st))"

definition save_state :: "agent_env \<Rightarrow> awg_state \<Rightarrow> node \<Rightarrow> (agent_error + unit) \<times> node" where
  "save_state env st w =
    (if e_save env then (Inr (), w\<lparr>w_state := SavedState st\<rparr>) else (Inl SaveState, w))"

section \<open>The shared conf lock\<close>

definition LOCK_POLL_INTERVAL :: nat where
  "LOCK_POLL_INTERVAL = 50"

text \<open>
  Attempt \<open>i\<close> happens \<open>i\<close> poll intervals after the first one, plus however late the scheduler woke
  the thread (\<open>late i\<close> milliseconds); \<^const>\<open>None\<close> is a timeout.
\<close>

function acquire_loop :: "(nat \<Rightarrow> flock_result) \<Rightarrow> (nat \<Rightarrow> nat) \<Rightarrow> nat \<Rightarrow> nat \<Rightarrow> agent_error + unit option" where
  "acquire_loop fl late timeout i =
    (case fl i of
       FlockOk \<Rightarrow> Inr (Some ())
     | WouldBlock \<Rightarrow>
         if i * LOCK_POLL_INTERVAL + late i \<ge> timeout then Inr None
         else acquire_loop fl late timeout (Suc i)
     | FlockError \<Rightarrow> Inl LockFailed)"
  by pat_completeness auto
termination
  by (relation "measure (\<lambda>(fl, late, timeout, i). timeout - i * LOCK_POLL_INTERVAL)")
     (auto simp: LOCK_POLL_INTERVAL_def)

declare acquire_loop.simps [simp del]

definition acquire_conf_lock :: "agent_config \<Rightarrow> agent_env \<Rightarrow> agent_error + unit option" where
  "acquire_conf_lock cfg env =
    (if \<not> e_lock_open env then Inl LockFailed
     else acquire_loop (e_flock env) (e_late env) (lock_acquire_timeout cfg) 0)"

section \<open>Merge and write under the lock\<close>

definition rejected_awg_field :: "awg_error \<Rightarrow> string option" where
  "rejected_awg_field e =
    (case e of
       BadMember part s \<Rightarrow> None
     | ForbiddenChar f c \<Rightarrow> Some f
     | JunkGrammar f n \<Rightarrow> Some f
     | ITagGrammar f v r \<Rightarrow> Some f
     | SGrammar f n \<Rightarrow> Some f
     | HGrammar f lo hi \<Rightarrow> Some f
     | RangeGrammar f v \<Rightarrow> Some f
     | HpkBase64 f \<Rightarrow> Some f
     | HpkLength f n \<Rightarrow> Some f)"

text \<open>The \<open>field=\<close> marker in the message of each merge error.\<close>

definition rejected_field :: "merge_error \<Rightarrow> string option" where
  "rejected_field e =
    (case e of
       Rejected a \<Rightarrow> rejected_awg_field a
     | TypeMismatch f \<Rightarrow> Some f
     | ReservedPair s1 s2 \<Rightarrow> Some ''s2''
     | HOverlap g f \<Rightarrow> Some g
     | HpkNeedsPadding \<Rightarrow> Some ''header_protection_key''
     | JunkInverted lo hi \<Rightarrow> Some ''jmax''
     | NoSection s \<Rightarrow> None)"

definition record_param_rejection :: "merge_error \<Rightarrow> metrics \<Rightarrow> metrics" where
  "record_param_rejection e m =
    (case rejected_field e of None \<Rightarrow> m | Some f \<Rightarrow> record_param_rejected f m)"

definition sync_param_dropped_marker :: "string list \<Rightarrow> node \<Rightarrow> node" where
  "sync_param_dropped_marker dr w = w\<lparr>w_marker := (if dr = [] then None else Some dr)\<rparr>"

definition write_conf_atomic :: "agent_env \<Rightarrow> string \<Rightarrow> node \<Rightarrow> (agent_error + unit) \<times> node" where
  "write_conf_atomic env content w =
    (if e_write env
     then (Inr (), w\<lparr>w_conf := Some \<lparr>cf_text = content, cf_id = e_new_id env\<rparr>\<rparr>)
     else (Inl WriteConf, w))"

definition stat_conf :: "bool \<Rightarrow> node \<Rightarrow> agent_error + conf_identity" where
  "stat_conf ok w =
    (case w_conf w of None \<Rightarrow> Inl StatConf | Some f \<Rightarrow> if ok then Inr (cf_id f) else Inl StatConf)"

definition merge_and_write_conf_locked ::
  "(string \<Rightarrow> byte list option) \<Rightarrow> agent_config \<Rightarrow> client_defaults \<Rightarrow> agent_env \<Rightarrow> awg_params option \<Rightarrow> node
    \<Rightarrow> (agent_error + conf_write option) \<times> node" where
  "merge_and_write_conf_locked b64 cfg dft env params w =
    (case acquire_conf_lock cfg env of
       Inl e \<Rightarrow> (Inl e, w)
     | Inr None \<Rightarrow> (Inr None, w)
     | Inr (Some _) \<Rightarrow>
         (case w_conf w of
            None \<Rightarrow> (Inl ReadConf, w)
          | Some f \<Rightarrow>
              (case merge_obfuscation_params_reporting b64 (cf_text f) params dft of
                 Inl e \<Rightarrow> (Inl (MergeFailed e), w\<lparr>w_metrics := record_param_rejection e (w_metrics w)\<rparr>)
               | Inr (new_conf, dr) \<Rightarrow>
                   (let w1 = w\<lparr>w_metrics := foldl (\<lambda>m f. record_param_rejected f m) (w_metrics w) dr\<rparr>;
                        w2 = sync_param_dropped_marker dr w1 in
                    if new_conf = cf_text f then
                      (case stat_conf (e_stat env) w2 of
                         Inl e \<Rightarrow> (Inl e, w2)
                       | Inr ident \<Rightarrow> (Inr (Some \<lparr>cw_identity = ident, cw_changed = False\<rparr>), w2))
                    else
                      (case write_conf_atomic env new_conf w2 of
                         (Inl e, w3) \<Rightarrow> (Inl e, w3)
                       | (Inr _, w3) \<Rightarrow>
                           (case stat_conf (e_stat env) w3 of
                              Inl e \<Rightarrow> (Inl e, w3)
                            | Inr ident \<Rightarrow>
                                (Inr (Some \<lparr>cw_identity = ident, cw_changed = True\<rparr>), w3)))))))"

section \<open>Apply and tick\<close>

definition installer :: "conf_file option \<Rightarrow> node \<Rightarrow> node" where
  "installer write w = (case write of None \<Rightarrow> w | Some f \<Rightarrow> w\<lparr>w_conf := Some f\<rparr>)"

definition conf_changed_since :: "agent_env \<Rightarrow> conf_identity \<Rightarrow> node \<Rightarrow> agent_error + bool" where
  "conf_changed_since env ident w =
    (case stat_conf (e_restat env) w of Inl e \<Rightarrow> Inl e | Inr i \<Rightarrow> Inr (i \<noteq> ident))"

text \<open>A failed apply leaves the kernel with whatever the tools got through.\<close>

definition apply_to_kernel :: "agent_env \<Rightarrow> node \<Rightarrow> (agent_error + unit) \<times> node" where
  "apply_to_kernel env w =
    (case (w_conf w, e_apply env) of
       (Some f, ApplyOk) \<Rightarrow>
         (Inr (), w\<lparr>w_kernel := Some (cf_text f),
                    w_metrics := record_apply_success (e_now env) (w_metrics w)\<rparr>)
     | (Some f, ApplyErr left) \<Rightarrow>
         (Inl ApplyFailed, w\<lparr>w_kernel := left, w_metrics := record_apply_failure (w_metrics w)\<rparr>)
     | (None, _) \<Rightarrow> (Inl ApplyFailed, w\<lparr>w_metrics := record_apply_failure (w_metrics w)\<rparr>))"

definition should_restart :: "string option \<Rightarrow> bool \<Rightarrow> string option" where
  "should_restart u epoch_advanced =
    (case (u, epoch_advanced) of (Some x, True) \<Rightarrow> Some x | _ \<Rightarrow> None)"

definition restart_unit :: "string option \<Rightarrow> node \<Rightarrow> node" where
  "restart_unit u w = (case u of None \<Rightarrow> w | Some x \<Rightarrow> w\<lparr>w_restarts := w_restarts w @ [x]\<rparr>)"

definition conflict :: "conflict_reason \<Rightarrow> node \<Rightarrow> node" where
  "conflict r w = w\<lparr>w_metrics := record_conf_write_conflict r (w_metrics w)\<rparr>"

definition finish_epoch ::
  "agent_config \<Rightarrow> agent_env \<Rightarrow> int \<Rightarrow> node \<Rightarrow> (agent_error + unit) \<times> node" where
  "finish_epoch cfg env epoch w =
    (case apply_to_kernel env w of
       (Inl e, w1) \<Rightarrow> (Inl e, w1)
     | (Inr _, w1) \<Rightarrow>
         (let w2 = restart_unit (should_restart (restart_unit_after_apply cfg) True) w1 in
          case save_state env \<lparr>last_applied_epoch = epoch, applied_at = e_now env\<rparr> w2 of
            (Inl e, w3) \<Rightarrow> (Inl e, w3)
          | (Inr _, w3) \<Rightarrow> (Inr (), report_applied env epoch w3)))"

definition apply_epoch ::
  "(string \<Rightarrow> byte list option) \<Rightarrow> agent_config \<Rightarrow> client_defaults \<Rightarrow> agent_env
    \<Rightarrow> awg_params_latest_response \<Rightarrow> node \<Rightarrow> (agent_error + unit) \<times> node" where
  "apply_epoch b64 cfg dft env r w =
    (case merge_and_write_conf_locked b64 cfg dft env (Some (r_params r)) w of
       (Inl e, w1) \<Rightarrow> (Inl e, w1)
     | (Inr None, w1) \<Rightarrow> (Inr (), conflict LockTimeout w1)
     | (Inr (Some cw), w1) \<Rightarrow>
         (let w2 = installer (e_inst1 env) w1 in
          case conf_changed_since env (cw_identity cw) w2 of
            Inl e \<Rightarrow> (Inr (), w2)
          | Inr True \<Rightarrow> (Inr (), conflict ApplySuperseded w2)
          | Inr False \<Rightarrow> finish_epoch cfg env (r_epoch r) (installer (e_inst2 env) w2)))"

definition tick ::
  "(string \<Rightarrow> byte list option) \<Rightarrow> agent_config \<Rightarrow> client_defaults \<Rightarrow> agent_env \<Rightarrow> node
    \<Rightarrow> (agent_error + unit) \<times> node" where
  "tick b64 cfg dft env w =
    (case poll_latest env (w_metrics w) of
       (Inl e, m) \<Rightarrow> (Inl e, w\<lparr>w_metrics := m\<rparr>)
     | (Inr None, m) \<Rightarrow> (Inr (), w\<lparr>w_metrics := m\<rparr>)
     | (Inr (Some r), m) \<Rightarrow>
         (let w1 = w\<lparr>w_metrics := m\<rparr> in
          case load_state (w_state w1) of
            Inl e \<Rightarrow> (Inl e, w1)
          | Inr st \<Rightarrow>
              (let last_epoch = (case st of None \<Rightarrow> 0 | Some s \<Rightarrow> last_applied_epoch s) in
               if r_epoch r \<le> last_epoch then (Inr (), w1)
               else apply_epoch b64 cfg dft env r w1)))"

definition startup_defaults_top_up ::
  "(string \<Rightarrow> byte list option) \<Rightarrow> agent_config \<Rightarrow> client_defaults \<Rightarrow> agent_env \<Rightarrow> node \<Rightarrow> node" where
  "startup_defaults_top_up b64 cfg dft env w =
    (case merge_and_write_conf_locked b64 cfg dft env None w of
       (Inl e, w1) \<Rightarrow> w1
     | (Inr None, w1) \<Rightarrow> w1
     | (Inr (Some cw), w1) \<Rightarrow>
         if \<not> cw_changed cw then w1
         else
           (let w2 = installer (e_inst1 env) w1 in
            case conf_changed_since env (cw_identity cw) w2 of
              Inl e \<Rightarrow> w2
            | Inr True \<Rightarrow> conflict ApplySuperseded w2
            | Inr False \<Rightarrow>
                (case apply_to_kernel env (installer (e_inst2 env) w2) of
                   (Inr _, w3) \<Rightarrow> w3\<lparr>w_metrics := record_apply_success (e_now env) (w_metrics w3)\<rparr>
                 | (Inl e, w3) \<Rightarrow> w3\<lparr>w_metrics := record_apply_failure (w_metrics w3)\<rparr>)))"

text \<open>
  The process: the top-up, then one tick per environment; between ticks (and before the first) the
  installer may rewrite the conf.
\<close>

fun run_ticks ::
  "(string \<Rightarrow> byte list option) \<Rightarrow> agent_config \<Rightarrow> client_defaults \<Rightarrow> (conf_file option \<times> agent_env) list
    \<Rightarrow> node \<Rightarrow> node" where
  "run_ticks b64 cfg dft [] w = w"
| "run_ticks b64 cfg dft ((iw, env) # envs) w =
    run_ticks b64 cfg dft envs (snd (tick b64 cfg dft env (installer iw w)))"

definition agent_run ::
  "(string \<Rightarrow> byte list option) \<Rightarrow> agent_config \<Rightarrow> client_defaults \<Rightarrow> agent_env
    \<Rightarrow> (conf_file option \<times> agent_env) list \<Rightarrow> node \<Rightarrow> node" where
  "agent_run b64 cfg dft env0 envs w =
    run_ticks b64 cfg dft envs (startup_defaults_top_up b64 cfg dft env0 w)"


section \<open>What one step touches\<close>

lemma sync_marker_simps [simp]:
  "w_state (sync_param_dropped_marker dr w) = w_state w"
  "w_kernel (sync_param_dropped_marker dr w) = w_kernel w"
  "w_conf (sync_param_dropped_marker dr w) = w_conf w"
  "w_reported (sync_param_dropped_marker dr w) = w_reported w"
  "w_restarts (sync_param_dropped_marker dr w) = w_restarts w"
  by (simp_all add: sync_param_dropped_marker_def)

lemma installer_simps [simp]:
  "w_state (installer f w) = w_state w" "w_kernel (installer f w) = w_kernel w"
  "w_reported (installer f w) = w_reported w" "w_metrics (installer f w) = w_metrics w"
  by (simp_all add: installer_def split: option.split)

lemma conflict_simps [simp]:
  "w_state (conflict r w) = w_state w" "w_kernel (conflict r w) = w_kernel w"
  "w_reported (conflict r w) = w_reported w" "w_conf (conflict r w) = w_conf w"
  by (simp_all add: conflict_def)

lemma restart_unit_simps [simp]:
  "w_state (restart_unit u w) = w_state w" "w_kernel (restart_unit u w) = w_kernel w"
  "w_conf (restart_unit u w) = w_conf w" "w_reported (restart_unit u w) = w_reported w"
  by (simp_all add: restart_unit_def split: option.split)

lemma report_simps [simp]:
  "w_state (report_applied env e w) = w_state w" "w_kernel (report_applied env e w) = w_kernel w"
  "w_conf (report_applied env e w) = w_conf w"
  by (simp_all add: report_applied_def split: sum.split)

lemma write_conf_simps:
  assumes "write_conf_atomic env c w = (r, w')"
  shows "w_state w' = w_state w" "w_kernel w' = w_kernel w" "w_reported w' = w_reported w"
  using assms by (auto simp: write_conf_atomic_def split: if_splits)

lemma merge_and_write_frame:
  assumes "merge_and_write_conf_locked b64 cfg dft env params w = (r, w')"
  shows "w_state w' = w_state w \<and> w_kernel w' = w_kernel w \<and> w_reported w' = w_reported w"
  using assms write_conf_simps
  by (fastforce simp: merge_and_write_conf_locked_def Let_def split: sum.splits option.splits prod.splits if_splits)

lemma merge_and_write_written:
  assumes "merge_and_write_conf_locked b64 cfg dft env params w = (Inr (Some cw), w')"
  obtains f out dr where "w_conf w = Some f"
    and "merge_obfuscation_params_reporting b64 (cf_text f) params dft = Inr (out, dr)"
    and "w_conf w' = Some \<lparr>cf_text = out, cf_id = cw_identity cw\<rparr>"
    and "cw_changed cw \<longleftrightarrow> out \<noteq> cf_text f"
    and "cw_identity cw = (if out = cf_text f then cf_id f else e_new_id env)"
  using assms
  by (cases "w_conf w")
     (auto simp: merge_and_write_conf_locked_def Let_def write_conf_atomic_def stat_conf_def
       split: sum.splits option.splits prod.splits if_splits)

lemma apply_to_kernel_ok:
  assumes "apply_to_kernel env w = (Inr x, w')"
  obtains f where "w_conf w = Some f" and "w_kernel w' = Some (cf_text f)"
    and "w_state w' = w_state w" and "w_reported w' = w_reported w" and "w_conf w' = w_conf w"
  using assms by (auto simp: apply_to_kernel_def split: option.splits apply_result.splits)

lemma apply_to_kernel_frame:
  assumes "apply_to_kernel env w = (r, w')"
  shows "w_state w' = w_state w \<and> w_reported w' = w_reported w"
  using assms by (auto simp: apply_to_kernel_def split: option.splits apply_result.splits)

lemma finish_epoch_state:
  assumes "finish_epoch cfg env epoch w = (r, w')"
  obtains (kept) "w_state w' = w_state w" and "w_reported w' = w_reported w" and "\<exists>e. r = Inl e"
  | (saved) f where "w_conf w = Some f" and "w_kernel w' = Some (cf_text f)" and "r = Inr ()"
      and "w_state w' = SavedState \<lparr>last_applied_epoch = epoch, applied_at = e_now env\<rparr>"
      and "w_reported w' = w_reported w \<or> w_reported w' = w_reported w @ [epoch]"
proof -
  obtain r1 w1 where a: "apply_to_kernel env w = (r1, w1)" by fastforce
  show ?thesis
  proof (cases r1)
    case (Inl e)
    with a assms have "r = Inl e" "w' = w1" by (simp_all add: finish_epoch_def)
    then show ?thesis using apply_to_kernel_frame [OF a] kept by blast
  next
    case (Inr x)
    from a [unfolded Inr] obtain f where f: "w_conf w = Some f" "w_kernel w1 = Some (cf_text f)"
      "w_state w1 = w_state w" "w_reported w1 = w_reported w"
      by (rule apply_to_kernel_ok)
    show ?thesis
    proof (cases "e_save env")
      case True
      show ?thesis
        by (rule saved [OF f(1)])
           (use assms a Inr True f in \<open>auto simp: finish_epoch_def save_state_def Let_def report_applied_def
             split: sum.splits\<close>)
    next
      case False
      show ?thesis
        by (rule kept) (use assms a Inr False f in \<open>auto simp: finish_epoch_def save_state_def Let_def\<close>)
    qed
  qed
qed

lemma apply_epoch_state:
  assumes "apply_epoch b64 cfg dft env r w = (res, w')"
  obtains (kept) "w_state w' = w_state w" and "w_reported w' = w_reported w"
  | (saved) cw w1 f where "res = Inr ()"
      and "merge_and_write_conf_locked b64 cfg dft env (Some (r_params r)) w = (Inr (Some cw), w1)"
      and "conf_changed_since env (cw_identity cw) (installer (e_inst1 env) w1) = Inr False"
      and "w_conf (installer (e_inst2 env) (installer (e_inst1 env) w1)) = Some f"
      and "w_kernel w' = Some (cf_text f)"
      and "w_state w' = SavedState \<lparr>last_applied_epoch = r_epoch r, applied_at = e_now env\<rparr>"
      and "w_reported w' = w_reported w \<or> w_reported w' = w_reported w @ [r_epoch r]"
proof -
  obtain r1 w1 where m: "merge_and_write_conf_locked b64 cfg dft env (Some (r_params r)) w = (r1, w1)" by fastforce
  note fr = merge_and_write_frame [OF m]
  show ?thesis
  proof (cases "\<exists>cw. r1 = Inr (Some cw) \<and>
      conf_changed_since env (cw_identity cw) (installer (e_inst1 env) w1) = Inr False")
    case False
    show ?thesis
      by (rule kept) (use assms m fr False in
          \<open>auto simp: apply_epoch_def Let_def split: sum.splits option.splits bool.splits\<close>)
  next
    case True
    then obtain cw where cw: "r1 = Inr (Some cw)"
      "conf_changed_since env (cw_identity cw) (installer (e_inst1 env) w1) = Inr False" by blast
    then have "finish_epoch cfg env (r_epoch r) (installer (e_inst2 env) (installer (e_inst1 env) w1)) = (res, w')"
      using assms m by (simp add: apply_epoch_def Let_def)
    then show ?thesis
    proof (cases rule: finish_epoch_state)
      case kept
      with fr show ?thesis by (intro that(1)) simp_all
    next
      case (saved f)
      with fr cw m show ?thesis by (intro that(2)) simp_all
    qed
  qed
qed


definition state_epoch :: "node \<Rightarrow> int" where
  "state_epoch w = (case w_state w of SavedState s \<Rightarrow> last_applied_epoch s | _ \<Rightarrow> 0)"

lemma poll_latest_Some:
  "poll_latest env m = (Inr (Some r), m') \<Longrightarrow> \<exists>status. e_reply env = Reply status (Some r) \<and> 200 \<le> status \<and> status < 300"
  by (auto simp: poll_latest_def split: sum.splits http_reply.splits option.splits if_splits)

lemma tick_state:
  assumes "tick b64 cfg dft env w = (res, w')"
  obtains (kept) "w_state w' = w_state w" and "w_reported w' = w_reported w"
  | (saved) r m where "poll_latest env (w_metrics w) = (Inr (Some r), m)" and "state_epoch w < r_epoch r"
      and "w_state w \<noteq> BadState"
      and "apply_epoch b64 cfg dft env r (w\<lparr>w_metrics := m\<rparr>) = (res, w')"
      and "w_state w' = SavedState \<lparr>last_applied_epoch = r_epoch r, applied_at = e_now env\<rparr>"
      and "w_reported w' = w_reported w \<or> w_reported w' = w_reported w @ [r_epoch r]"
proof -
  obtain p m where p: "poll_latest env (w_metrics w) = (p, m)" by fastforce
  show ?thesis
  proof (cases "\<exists>r. p = Inr (Some r) \<and> w_state w \<noteq> BadState \<and> state_epoch w < r_epoch r")
    case False
    show ?thesis
      by (rule kept) (use assms p False in \<open>auto simp: tick_def Let_def load_state_def state_epoch_def
          split: sum.splits option.splits state_file.splits if_splits\<close>)
  next
    case True
    then obtain r where r: "p = Inr (Some r)" "w_state w \<noteq> BadState" "state_epoch w < r_epoch r" by blast
    then have ap: "apply_epoch b64 cfg dft env r (w\<lparr>w_metrics := m\<rparr>) = (res, w')"
      using assms p by (auto simp: tick_def Let_def load_state_def state_epoch_def split: state_file.splits)
    then show ?thesis
    proof (cases rule: apply_epoch_state)
      case kept
      then show ?thesis by (intro that(1)) simp_all
    next
      case (saved cw w1 f)
      with r p ap show ?thesis by (intro that(2)) auto
    qed
  qed
qed

section \<open>The agent's guarantees\<close>

text \<open>C10: an epoch is recorded only after it was applied.  Whatever the installer writes and when, a tick that
  changes the state file was sent that epoch by central, the epoch is newer than the recorded one, its
  parameters merged into the conf the tick read, and the kernel was configured from that merge, unless
  the installer wrote a file in the window between the re-stat and the apply: then it was configured
  from the installer's file.  An installer write before the re-stat always stops the tick, provided the
  files of the installer have identities of their own.\<close>

theorem recorded_epoch_is_live:
  assumes t: "tick b64 cfg dft env w = (res, w')" and changed: "w_state w' \<noteq> w_state w"
    and fresh: "\<And>f. e_inst1 env = Some f \<Longrightarrow> cf_id f \<noteq> e_new_id env \<and> (\<forall>g. w_conf w = Some g \<longrightarrow> cf_id f \<noteq> cf_id g)"
  shows "e_inst1 env = None \<and> (\<exists>r status f out dr. e_reply env = Reply status (Some r) \<and> state_epoch w < r_epoch r \<and>
    w_state w' = SavedState \<lparr>last_applied_epoch = r_epoch r, applied_at = e_now env\<rparr> \<and>
    w_conf w = Some f \<and> merge_obfuscation_params_reporting b64 (cf_text f) (Some (r_params r)) dft = Inr (out, dr) \<and>
    w_kernel w' = Some (case e_inst2 env of None \<Rightarrow> out | Some g \<Rightarrow> cf_text g))"
  using t
proof (cases rule: tick_state)
  case kept
  with changed show ?thesis by simp
next
  case (saved r m)
  obtain status where reply: "e_reply env = Reply status (Some r)"
    using poll_latest_Some [OF saved(1)] by blast
  let ?w = "w\<lparr>w_metrics := m\<rparr>"
  from saved(4) show ?thesis
  proof (cases rule: apply_epoch_state)
    case kept
    with changed show ?thesis by simp
  next
    case (saved cw w1 f1)
    from saved(2) obtain f out dr where f: "w_conf ?w = Some f"
      and mg: "merge_obfuscation_params_reporting b64 (cf_text f) (Some (r_params r)) dft = Inr (out, dr)"
      and w1: "w_conf w1 = Some \<lparr>cf_text = out, cf_id = cw_identity cw\<rparr>"
      and ident: "cw_identity cw = (if out = cf_text f then cf_id f else e_new_id env)"
      by (rule merge_and_write_written)
    have none: "e_inst1 env = None"
    proof (rule ccontr)
      assume "e_inst1 env \<noteq> None"
      then obtain g where g: "e_inst1 env = Some g" by blast
      with fresh f ident have "cf_id g \<noteq> cw_identity cw" by simp
      with saved(3) g show False
        by (simp add: conf_changed_since_def stat_conf_def installer_def split: if_splits)
    qed
    with saved(4) w1 have "cf_text f1 = (case e_inst2 env of None \<Rightarrow> out | Some g \<Rightarrow> cf_text g)"
      by (auto simp: installer_def split: option.splits)
    with none reply saved \<open>state_epoch w < r_epoch r\<close> f mg show ?thesis by auto
  qed
qed

lemma installer_epoch [simp]: "state_epoch (installer f w) = state_epoch w"
  by (simp add: state_epoch_def)

lemma tick_epoch_mono: "state_epoch w \<le> state_epoch (snd (tick b64 cfg dft env w))"
proof -
  obtain res w' where t: "tick b64 cfg dft env w = (res, w')" by fastforce
  then show ?thesis
  proof (cases rule: tick_state)
    case kept
    with t show ?thesis by (simp add: state_epoch_def)
  next
    case saved
    with t show ?thesis by (simp add: state_epoch_def)
  qed
qed

lemma run_ticks_append: "run_ticks b64 cfg dft (xs @ ys) w = run_ticks b64 cfg dft ys (run_ticks b64 cfg dft xs w)"
  by (induction b64 cfg dft xs w rule: run_ticks.induct) simp_all

lemma run_ticks_mono: "state_epoch w \<le> state_epoch (run_ticks b64 cfg dft envs w)"
proof (induction b64 cfg dft envs w rule: run_ticks.induct)
  case (2 b64 cfg dft iw env envs w)
  have "state_epoch w \<le> state_epoch (snd (tick b64 cfg dft env (installer iw w)))"
    using tick_epoch_mono [of "installer iw w"] by simp
  with 2 show ?case by simp
qed simp

lemma startup_frame:
  "w_state (startup_defaults_top_up b64 cfg dft env w) = w_state w \<and>
   w_reported (startup_defaults_top_up b64 cfg dft env w) = w_reported w"
proof -
  obtain r w1 where m: "merge_and_write_conf_locked b64 cfg dft env None w = (r, w1)" by fastforce
  obtain r2 w2 where a: "apply_to_kernel env (installer (e_inst2 env) (installer (e_inst1 env) w1)) = (r2, w2)" by fastforce
  show ?thesis using merge_and_write_frame [OF m] apply_to_kernel_frame [OF a] m a
    by (auto simp: startup_defaults_top_up_def Let_def split: sum.splits option.splits bool.splits)
qed

lemma tick_reported:
  assumes "\<forall>e \<in> set (w_reported w). e \<le> state_epoch w"
  shows "\<forall>e \<in> set (w_reported (snd (tick b64 cfg dft env w))). e \<le> state_epoch (snd (tick b64 cfg dft env w))"
proof -
  obtain res w' where t: "tick b64 cfg dft env w = (res, w')" by fastforce
  then show ?thesis
  proof (cases rule: tick_state)
    case kept
    with t assms show ?thesis by (simp add: state_epoch_def)
  next
    case (saved r m)
    have "state_epoch w' = r_epoch r" using saved(5) by (simp add: state_epoch_def)
    with t saved assms show ?thesis by fastforce
  qed
qed

lemma run_ticks_reported:
  "\<forall>e \<in> set (w_reported w). e \<le> state_epoch w \<Longrightarrow>
    \<forall>e \<in> set (w_reported (run_ticks b64 cfg dft envs w)). e \<le> state_epoch (run_ticks b64 cfg dft envs w)"
proof (induction b64 cfg dft envs w rule: run_ticks.induct)
  case (2 b64 cfg dft iw env envs w)
  then have "\<forall>e \<in> set (w_reported (installer iw w)). e \<le> state_epoch (installer iw w)" by simp
  then show ?case using 2 tick_reported by simp
qed simp

text \<open>C11: over any run (start-up top-up, any number of ticks under any outcomes of the system calls,
  installer writes at any of the modelled points) the recorded epoch never goes back from one moment
  to a later one, and no epoch above the recorded one is ever reported to central.\<close>

theorem agent_run_epoch_monotone:
  "state_epoch w \<le> state_epoch (agent_run b64 cfg dft env0 xs w) \<and>
   state_epoch (agent_run b64 cfg dft env0 xs w) \<le> state_epoch (agent_run b64 cfg dft env0 (xs @ ys) w) \<and>
   (w_reported w = [] \<longrightarrow>
     (\<forall>e \<in> set (w_reported (agent_run b64 cfg dft env0 xs w)). e \<le> state_epoch (agent_run b64 cfg dft env0 xs w)))"
proof -
  let ?s = "startup_defaults_top_up b64 cfg dft env0 w"
  have "state_epoch ?s = state_epoch w" and "w_reported ?s = w_reported w"
    using startup_frame [of b64 cfg dft env0 w] by (simp_all add: state_epoch_def)
  then show ?thesis
    using run_ticks_mono [of ?s b64 cfg dft xs] run_ticks_mono [of "run_ticks b64 cfg dft xs ?s" b64 cfg dft ys]
      run_ticks_reported [of ?s b64 cfg dft xs]
    by (simp add: agent_run_def run_ticks_append)
qed


section \<open>Progress\<close>

text \<open>An environment in which every system call succeeds and nobody else writes the conf.\<close>

definition calm :: "agent_env \<Rightarrow> bool" where
  "calm env \<longleftrightarrow>
    is_ok (read_token (e_token env)) \<and> e_lock_open env \<and> e_flock env 0 = FlockOk \<and> e_write env \<and>
    e_stat env \<and> e_inst1 env = None \<and> e_restat env \<and> e_inst2 env = None \<and> e_apply env = ApplyOk \<and>
    e_save env \<and> is_ok (read_token (e_report_token env))"

lemma calm_lock: "calm env \<Longrightarrow> acquire_conf_lock cfg env = Inr (Some ())"
  by (simp add: calm_def acquire_conf_lock_def acquire_loop.simps)

definition merged_file :: "agent_env \<Rightarrow> conf_file \<Rightarrow> string \<Rightarrow> conf_file" where
  "merged_file env f out =
    (if out = cf_text f then f else \<lparr>cf_text = out, cf_id = e_new_id env\<rparr>)"

lemma merge_and_write_calm:
  assumes "calm env" and "w_conf w = Some f"
    and "merge_obfuscation_params_reporting b64 (cf_text f) params dft = Inr (out, dr)"
  obtains w1 where "merge_and_write_conf_locked b64 cfg dft env params w =
      (Inr (Some \<lparr>cw_identity = cf_id (merged_file env f out), cw_changed = (out \<noteq> cf_text f)\<rparr>), w1)"
    and "w_conf w1 = Some (merged_file env f out)"
proof (rule that)
  let ?w2 = "sync_param_dropped_marker dr
    (w\<lparr>w_metrics := foldl (\<lambda>m f. record_param_rejected f m) (w_metrics w) dr\<rparr>)"
  let ?w1 = "?w2\<lparr>w_conf := Some (merged_file env f out)\<rparr>"
  have "?w2\<lparr>w_conf := Some f\<rparr> = ?w2" using assms(2) by (simp add: sync_param_dropped_marker_def)
  then show "merge_and_write_conf_locked b64 cfg dft env params w =
      (Inr (Some \<lparr>cw_identity = cf_id (merged_file env f out), cw_changed = (out \<noteq> cf_text f)\<rparr>), ?w1)"
    using assms calm_lock [OF assms(1), of cfg]
    by (simp add: merge_and_write_conf_locked_def Let_def stat_conf_def write_conf_atomic_def merged_file_def calm_def)
  show "w_conf ?w1 = Some (merged_file env f out)" by simp
qed

lemma tick_calm:
  assumes "calm env" and reply: "e_reply env = Reply 200 (Some r)"
    and st: "w_state w \<noteq> BadState" and new: "state_epoch w < r_epoch r" and f: "w_conf w = Some f"
    and mg: "merge_obfuscation_params_reporting b64 (cf_text f) (Some (r_params r)) dft = Inr (out, dr)"
  shows "\<exists>w'. tick b64 cfg dft env w = (Inr (), w') \<and>
    w_state w' = SavedState \<lparr>last_applied_epoch = r_epoch r, applied_at = e_now env\<rparr> \<and>
    w_kernel w' = Some out \<and> w_conf w' = Some (merged_file env f out) \<and>
    w_reported w' = w_reported w @ [r_epoch r]"
proof -
  let ?w = "w\<lparr>w_metrics := record_poll_success (e_now env) (w_metrics w)\<rparr>"
  obtain w1 where m: "merge_and_write_conf_locked b64 cfg dft env (Some (r_params r)) ?w =
      (Inr (Some \<lparr>cw_identity = cf_id (merged_file env f out), cw_changed = (out \<noteq> cf_text f)\<rparr>), w1)"
    and w1: "w_conf w1 = Some (merged_file env f out)"
    by (rule merge_and_write_calm [OF assms(1), of ?w f b64 "Some (r_params r)" dft out dr cfg])
       (use f mg in simp_all)
  have fr: "w_reported w1 = w_reported w" using merge_and_write_frame [OF m] by simp
  obtain t where t: "read_token (e_token env) = Inr t" using assms(1) by (auto simp: calm_def is_ok_iff)
  obtain t' where t': "read_token (e_report_token env) = Inr t'" using assms(1) by (auto simp: calm_def is_ok_iff)
  have poll: "poll_latest env (w_metrics w) = (Inr (Some r), record_poll_success (e_now env) (w_metrics w))"
    using t reply by (simp add: poll_latest_def)
  have "tick b64 cfg dft env w = apply_epoch b64 cfg dft env r ?w"
    using poll st new by (auto simp: tick_def Let_def load_state_def state_epoch_def split: state_file.splits)
  also have "\<dots> = finish_epoch cfg env (r_epoch r) w1"
    using assms(1) w1 by (simp add: apply_epoch_def m Let_def calm_def installer_def conf_changed_since_def stat_conf_def)
  finally have e: "tick b64 cfg dft env w = finish_epoch cfg env (r_epoch r) w1" .
  have "cf_text (merged_file env f out) = out" by (simp add: merged_file_def)
  then show ?thesis unfolding e using assms(1) w1 fr t'
    by (simp add: finish_epoch_def apply_to_kernel_def calm_def save_state_def Let_def report_applied_def
        restart_unit_def split: option.split)
qed

lemma tick_rejected:
  assumes "calm env" and reply: "e_reply env = Reply 200 (Some r)"
    and st: "w_state w \<noteq> BadState" and new: "state_epoch w < r_epoch r" and f: "w_conf w = Some f"
    and mg: "merge_obfuscation_params_reporting b64 (cf_text f) (Some (r_params r)) dft = Inl e"
  shows "\<exists>m. tick b64 cfg dft env w = (Inl (MergeFailed e), w\<lparr>w_metrics := m\<rparr>)"
proof -
  obtain t where t: "read_token (e_token env) = Inr t" using assms(1) by (auto simp: calm_def is_ok_iff)
  have poll: "poll_latest env (w_metrics w) = (Inr (Some r), record_poll_success (e_now env) (w_metrics w))"
    using t reply by (simp add: poll_latest_def)
  have "tick b64 cfg dft env w = apply_epoch b64 cfg dft env r (w\<lparr>w_metrics := record_poll_success (e_now env) (w_metrics w)\<rparr>)"
    using poll st new by (auto simp: tick_def Let_def load_state_def state_epoch_def split: state_file.splits)
  then show ?thesis
    using f mg calm_lock [OF assms(1), of cfg] by (auto simp: apply_epoch_def merge_and_write_conf_locked_def)
qed

text \<open>C27: what a tick does with a newer epoch when no system call fails, nobody else writes the conf, the
  state file is readable and there is a conf.  If the epoch's parameters merge into the conf, the tick
  returns, the kernel runs the merged conf, the file carries it, the epoch is recorded and reported.
  If the merge rejects them, the tick fails with that error and changes nothing but its metrics.\<close>

theorem tick_applies_new_epoch:
  assumes "calm env" and "e_reply env = Reply 200 (Some r)" and "w_state w \<noteq> BadState"
    and "state_epoch w < r_epoch r" and "w_conf w = Some f"
  shows "case merge_obfuscation_params_reporting b64 (cf_text f) (Some (r_params r)) dft of
      Inr (out, dr) \<Rightarrow>
        (\<exists>w'. tick b64 cfg dft env w = (Inr (), w') \<and>
          w_state w' = SavedState \<lparr>last_applied_epoch = r_epoch r, applied_at = e_now env\<rparr> \<and>
          w_kernel w' = Some out \<and> w_conf w' = Some (merged_file env f out) \<and>
          w_reported w' = w_reported w @ [r_epoch r])
    | Inl e \<Rightarrow> (\<exists>m. tick b64 cfg dft env w = (Inl (MergeFailed e), w\<lparr>w_metrics := m\<rparr>))"
  using tick_calm [OF assms] tick_rejected [OF assms] by (auto split: sum.splits)

text \<open>C29: a tick that applied an epoch but could not save its state can be repeated.  The next calm tick
  with the same reply leaves the conf (its identity included) and the kernel as they are and records
  the epoch.\<close>

theorem repeat_after_failed_save:
  assumes t: "calm env" "e_reply env = Reply 200 (Some r)"
    and fail: "tick b64 cfg dft (env\<lparr>e_save := False\<rparr>) w = (Inl SaveState, w1)"
    and again: "calm env'" "e_reply env' = e_reply env"
  shows "\<exists>w2. tick b64 cfg dft env' w1 = (Inr (), w2) \<and> w_conf w2 = w_conf w1 \<and> w_kernel w2 = w_kernel w1 \<and>
    w_state w2 = SavedState \<lparr>last_applied_epoch = r_epoch r, applied_at = e_now env'\<rparr>"
proof -
  let ?e = "env\<lparr>e_save := False\<rparr>"
  let ?w = "w\<lparr>w_metrics := record_poll_success (e_now env) (w_metrics w)\<rparr>"
  obtain t where tk: "read_token (e_token env) = Inr t" using t(1) by (auto simp: calm_def is_ok_iff)
  have poll: "poll_latest ?e (w_metrics w) = (Inr (Some r), record_poll_success (e_now env) (w_metrics w))"
    using tk t(2) by (simp add: poll_latest_def)
  have pre: "w_state w \<noteq> BadState" "state_epoch w < r_epoch r"
    and ap: "apply_epoch b64 cfg dft ?e r ?w = (Inl SaveState, w1)"
    using fail poll by (auto simp: tick_def Let_def load_state_def state_epoch_def
        split: state_file.splits if_splits)
  obtain r1 v1 where mw: "merge_and_write_conf_locked b64 cfg dft ?e (Some (r_params r)) ?w = (r1, v1)" by fastforce
  have "r1 \<noteq> Inl SaveState"
    using mw by (auto simp: merge_and_write_conf_locked_def Let_def stat_conf_def write_conf_atomic_def
        acquire_conf_lock_def acquire_loop.simps t(1) [unfolded calm_def]
        split: sum.splits option.splits prod.splits if_splits)
  then obtain cw where cw: "r1 = Inr (Some cw)"
    using ap mw by (auto simp: apply_epoch_def split: sum.splits option.splits)
  from mw [unfolded cw] obtain f out dr where f: "w_conf ?w = Some f"
    and mg: "merge_obfuscation_params_reporting b64 (cf_text f) (Some (r_params r)) dft = Inr (out, dr)"
    and v1: "w_conf v1 = Some \<lparr>cf_text = out, cf_id = cw_identity cw\<rparr>"
    by (rule merge_and_write_written)
  have "finish_epoch cfg ?e (r_epoch r) v1 = (Inl SaveState, w1)"
    using ap t(1) v1 by (simp add: apply_epoch_def mw cw Let_def calm_def installer_def conf_changed_since_def
        stat_conf_def)
  then have w1: "w_conf w1 = Some \<lparr>cf_text = out, cf_id = cw_identity cw\<rparr>" "w_kernel w1 = Some out"
    "w_state w1 = w_state w"
    using t(1) v1 merge_and_write_frame [OF mw]
    by (auto simp: finish_epoch_def apply_to_kernel_def calm_def save_state_def Let_def)
  have "\<exists>w2. tick b64 cfg dft env' w1 = (Inr (), w2) \<and>
    w_state w2 = SavedState \<lparr>last_applied_epoch = r_epoch r, applied_at = e_now env'\<rparr> \<and>
    w_kernel w2 = Some out \<and> w_conf w2 = Some (merged_file env' \<lparr>cf_text = out, cf_id = cw_identity cw\<rparr> out) \<and>
    w_reported w2 = w_reported w1 @ [r_epoch r]"
    by (rule tick_calm [OF again(1) _ _ _ w1(1)])
       (use again(2) t(2) pre w1(3) merge_again [OF mg] in \<open>simp_all add: state_epoch_def\<close>)
  then show ?thesis using w1 by (auto simp: merged_file_def)
qed


section \<open>A concrete node\<close>

definition demo_ident :: "nat \<Rightarrow> conf_identity" where
  "demo_ident i = \<lparr>ci_ino = i, ci_size = 0, ci_mtime_sec = 0, ci_mtime_nsec = 0\<rparr>"

definition demo_reply :: awg_params_latest_response where
  "demo_reply = \<lparr>r_epoch = 7, r_params = demo_epoch\<rparr>"

definition demo_env :: agent_env where
  "demo_env =
    \<lparr>e_token = Some ''t'', e_reply = Reply 200 (Some demo_reply), e_now = 100, e_lock_open = True,
     e_flock = (\<lambda>_. FlockOk), e_late = (\<lambda>_. 0), e_write = True, e_new_id = demo_ident 2, e_stat = True,
     e_inst1 = None, e_restat = True, e_inst2 = None, e_apply = ApplyOk, e_save = True,
     e_report_token = Some ''t''\<rparr>"

definition demo_node :: node where
  "demo_node =
    \<lparr>w_conf = Some \<lparr>cf_text = demo_conf, cf_id = demo_ident 1\<rparr>, w_state = NoState, w_kernel = None,
     w_marker = None, w_metrics = metrics_zero, w_reported = [], w_restarts = []\<rparr>"

definition demo_cfg :: agent_config where
  "demo_cfg =
    \<lparr>central_url = ''https://c'', service_token_path = ''/t'', awg_conf_path = ''/c'', awg_iface = ''awg0'',
     state_path = ''/s'', poll_interval = 30000, node_id = ''n'', restart_unit_after_apply = None,
     awg_conf_lock_path = ''/c.lock'', lock_acquire_timeout = 10000, textfile_dir = ''/d''\<rparr>"

lemma calm_demo: "calm demo_env"
proof -
  have "trim ''t'' = ''t''" by (rule trim_visible) (simp add: visible_def)
  then show ?thesis by (simp add: calm_def demo_env_def read_token_def)
qed

lemma demo_pre:
  "e_reply demo_env = Reply 200 (Some demo_reply)" "w_state demo_node \<noteq> BadState"
  "state_epoch demo_node < r_epoch demo_reply"
  "w_conf demo_node = Some \<lparr>cf_text = demo_conf, cf_id = demo_ident 1\<rparr>"
  "merge_obfuscation_params_reporting no_b64 (cf_text \<lparr>cf_text = demo_conf, cf_id = demo_ident 1\<rparr>)
     (Some (r_params demo_reply)) demo_defaults = Inr (demo_out, [])"
  by (simp_all add: demo_env_def demo_node_def state_epoch_def demo_reply_def demo_merge)

theorem tick_applies_new_epoch_witness:
  "\<exists>w'. tick no_b64 demo_cfg demo_defaults demo_env demo_node = (Inr (), w') \<and> w_kernel w' = Some demo_out \<and>
    w_reported w' = [7]"
  using tick_applies_new_epoch [OF calm_demo demo_pre(1-4), of no_b64 demo_cfg demo_defaults] demo_pre(5)
  by (auto simp: demo_reply_def demo_node_def)

lemma demo_overtaken:
  "\<exists>w'. tick no_b64 demo_cfg demo_defaults (demo_env\<lparr>e_inst2 := Some \<lparr>cf_text = ''late'', cf_id = demo_ident 9\<rparr>\<rparr>) demo_node = (Inr (), w') \<and>
    w_state w' \<noteq> w_state demo_node \<and> w_kernel w' = Some ''late''"
proof -
  have "trim ''t'' = ''t''" by (rule trim_visible) (simp add: visible_def)
  then show ?thesis
    by (simp add: tick_def poll_latest_def read_token_def demo_env_def load_state_def demo_node_def Let_def
        apply_epoch_def merge_and_write_conf_locked_def acquire_conf_lock_def acquire_loop.simps demo_reply_def
        demo_merge write_conf_atomic_def stat_conf_def installer_def conf_changed_since_def finish_epoch_def
        apply_to_kernel_def save_state_def restart_unit_def should_restart_def demo_cfg_def)
qed

theorem recorded_epoch_is_live_witness:
  "\<exists>w1 w2 out dr. tick no_b64 demo_cfg demo_defaults demo_env demo_node = (Inr (), w1) \<and>
    merge_obfuscation_params_reporting no_b64 demo_conf (Some demo_epoch) demo_defaults = Inr (out, dr) \<and>
    w_kernel w1 = Some out \<and>
    tick no_b64 demo_cfg demo_defaults (demo_env\<lparr>e_inst2 := Some \<lparr>cf_text = ''late'', cf_id = demo_ident 9\<rparr>\<rparr>) demo_node = (Inr (), w2) \<and>
    w_kernel w2 = Some ''late''"
proof -
  obtain w1 where t: "tick no_b64 demo_cfg demo_defaults demo_env demo_node = (Inr (), w1)"
    and st: "w_state w1 \<noteq> w_state demo_node"
    using tick_calm [OF calm_demo demo_pre, of demo_cfg] by (auto simp: demo_node_def)
  let ?e = "demo_env\<lparr>e_inst2 := Some \<lparr>cf_text = ''late'', cf_id = demo_ident 9\<rparr>\<rparr>"
  obtain w2 where t2: "tick no_b64 demo_cfg demo_defaults ?e demo_node = (Inr (), w2)" and st2: "w_state w2 \<noteq> w_state demo_node"
    using demo_overtaken by blast
  have q: "e_inst1 demo_env = None" "e_inst2 demo_env = None" "e_inst1 ?e = None" by (simp_all add: demo_env_def)
  obtain r status f out dr where "e_reply demo_env = Reply status (Some r)" "w_conf demo_node = Some f"
      "merge_obfuscation_params_reporting no_b64 (cf_text f) (Some (r_params r)) demo_defaults = Inr (out, dr)" "w_kernel w1 = Some out"
    using recorded_epoch_is_live [OF t st] by (auto simp: q)
  then have "merge_obfuscation_params_reporting no_b64 demo_conf (Some demo_epoch) demo_defaults = Inr (out, dr)" "w_kernel w1 = Some out"
    by (auto simp: demo_pre(1) demo_reply_def demo_node_def)
  moreover have "w_kernel w2 = Some ''late''" using recorded_epoch_is_live [OF t2 st2] by (auto simp: q)
  ultimately show ?thesis using t t2 by blast
qed

theorem agent_run_epoch_monotone_witness:
  "w_reported demo_node = [] \<and>
   list_all (\<lambda>e. e \<le> state_epoch (agent_run no_b64 demo_cfg demo_defaults demo_env [(None, demo_env)] demo_node))
     (w_reported (agent_run no_b64 demo_cfg demo_defaults demo_env [(None, demo_env)] demo_node))"
proof -
  have n: "w_reported demo_node = []" by (simp add: demo_node_def)
  with agent_run_epoch_monotone [of demo_node no_b64 demo_cfg demo_defaults demo_env "[(None, demo_env)]" "[]"]
  show ?thesis unfolding list_all_iff by blast
qed

lemma demo_failed_save:
  "\<exists>w1. tick no_b64 demo_cfg demo_defaults (demo_env\<lparr>e_save := False\<rparr>) demo_node = (Inl SaveState, w1)"
proof -
  let ?e = "demo_env\<lparr>e_save := False\<rparr>"
  have "trim ''t'' = ''t''" by (rule trim_visible) (simp add: visible_def)
  then show ?thesis
    by (simp add: tick_def poll_latest_def read_token_def demo_env_def load_state_def demo_node_def Let_def
        apply_epoch_def merge_and_write_conf_locked_def acquire_conf_lock_def acquire_loop.simps demo_reply_def
        demo_merge write_conf_atomic_def stat_conf_def installer_def conf_changed_since_def finish_epoch_def
        apply_to_kernel_def save_state_def)
qed

theorem repeat_after_failed_save_witness:
  "\<exists>w1 w2. tick no_b64 demo_cfg demo_defaults (demo_env\<lparr>e_save := False\<rparr>) demo_node = (Inl SaveState, w1) \<and>
    tick no_b64 demo_cfg demo_defaults demo_env w1 = (Inr (), w2) \<and> w_conf w2 = w_conf w1 \<and>
    w_kernel w2 = w_kernel w1"
proof -
  obtain w1 where w1: "tick no_b64 demo_cfg demo_defaults (demo_env\<lparr>e_save := False\<rparr>) demo_node = (Inl SaveState, w1)"
    using demo_failed_save by blast
  show ?thesis
    using w1 repeat_after_failed_save [OF calm_demo demo_pre(1) w1 calm_demo refl] by blast
qed

text \<open>a failed kernel apply of the start-up top-up is counted twice, once by \<open>apply_to_kernel\<close> and
  once by its caller.\<close>

theorem startup_apply_failure_counted_twice:
  "m_apply_failures (w_metrics (startup_defaults_top_up no_b64 demo_cfg demo_defaults
     (demo_env\<lparr>e_apply := ApplyErr None\<rparr>) demo_node)) = 2"
proof -
  have "demo_topped \<noteq> demo_conf" by (simp add: demo_topped_def demo_conf_def)
  then show ?thesis
    by (simp add: startup_defaults_top_up_def demo_env_def demo_node_def Let_def merge_and_write_conf_locked_def
        acquire_conf_lock_def acquire_loop.simps demo_top_up write_conf_atomic_def stat_conf_def installer_def
        conf_changed_since_def apply_to_kernel_def sync_param_dropped_marker_def record_apply_failure_def
        metrics_zero_def inc_u64_def)
qed

end
