(* ===== verification/Awg_Config.thy ===== *)
theory Awg_Config
  imports Awg_Agent
begin

text \<open>
  \<open>load_config\<close> of \<open>crates/awg-params-agent/src/main.rs\<close>: the agent's configuration from the process
  environment.  \<open>var\<close> is the environment, \<open>read_file\<close> reads a text file, \<open>dur\<close> is the duration parser of
  the humantime crate (in milliseconds).
\<close>

datatype config_error =
    MissingVar string
  | TokenRead string
  | TokenBlank string
  | BadDuration string

definition require_env :: "(string \<Rightarrow> string option) \<Rightarrow> string \<Rightarrow> config_error + string" where
  "require_env var key = (case var key of None \<Rightarrow> Inl (MissingVar key) | Some v \<Rightarrow> Inr v)"

definition env_or :: "(string \<Rightarrow> string option) \<Rightarrow> string \<Rightarrow> string \<Rightarrow> string" where
  "env_or var key dflt = (case var key of None \<Rightarrow> dflt | Some v \<Rightarrow> v)"

definition parse_duration :: "(string \<Rightarrow> nat option) \<Rightarrow> string \<Rightarrow> config_error + nat" where
  "parse_duration dur s = (case dur s of None \<Rightarrow> Inl (BadDuration s) | Some d \<Rightarrow> Inr d)"

definition default_lock_path :: "string \<Rightarrow> string" where
  "default_lock_path conf_path = conf_path @ ''.lock''"

definition read_service_token :: "(string \<Rightarrow> string option) \<Rightarrow> string \<Rightarrow> config_error + string" where
  "read_service_token read_file path =
    (case read_file path of
       None \<Rightarrow> Inl (TokenRead path)
     | Some t \<Rightarrow> if trim t = [] then Inl (TokenBlank path) else Inr (trim t))"

definition lock_path_of :: "(string \<Rightarrow> string option) \<Rightarrow> string \<Rightarrow> string" where
  "lock_path_of var conf_path =
    (case var ''OXPULSE_AWG_CONF_LOCK_PATH'' of
       Some v \<Rightarrow> if trim v \<noteq> [] then v else default_lock_path conf_path
     | None \<Rightarrow> default_lock_path conf_path)"

definition load_config ::
  "(string \<Rightarrow> string option) \<Rightarrow> (string \<Rightarrow> string option) \<Rightarrow> (string \<Rightarrow> nat option) \<Rightarrow> config_error + agent_config" where
  "load_config var read_file dur =
    rbind (require_env var ''OXPULSE_CENTRAL_URL'') (\<lambda>url.
    rbind (require_env var ''OXPULSE_NODE_ID'') (\<lambda>nid.
    let token_path = env_or var ''OXPULSE_SERVICE_TOKEN_PATH'' ''/etc/oxpulse-partner-edge/token'' in
    rbind (read_service_token read_file token_path) (\<lambda>token.
    let conf_path = env_or var ''OXPULSE_AWG_CONF_PATH'' ''/etc/amnezia/amneziawg/awg0.conf'' in
    rbind (parse_duration dur (env_or var ''OXPULSE_POLL_INTERVAL'' ''30s'')) (\<lambda>poll.
    rbind (parse_duration dur (env_or var ''OXPULSE_AWG_LOCK_TIMEOUT'' ''10s'')) (\<lambda>lock.
    let hook = env_or var ''OXPULSE_RESTART_UNIT_AFTER_APPLY'' '''' in
    Inr \<lparr>central_url = url, service_token_path = token_path, awg_conf_path = conf_path,
         awg_iface = env_or var ''OXPULSE_AWG_IFACE'' ''awg0'',
         state_path = env_or var ''OXPULSE_STATE_PATH'' ''/var/lib/oxpulse-partner-edge/awg-params-state.json'',
         poll_interval = poll, node_id = nid,
         restart_unit_after_apply = (if hook = [] then None else Some hook),
         awg_conf_lock_path = lock_path_of var conf_path, lock_acquire_timeout = lock,
         textfile_dir = env_or var ''OXPULSE_TEXTFILE_DIR'' ''/var/lib/prometheus-node-exporter/textfile''\<rparr>)))))"

lemma load_config_lock:
  assumes "load_config var read_file dur = Inr cfg"
  shows "awg_conf_lock_path cfg = lock_path_of var (awg_conf_path cfg)"
  using assms unfolding load_config_def Let_def rbind_Inr_iff
  by (elim exE conjE) (simp only: sum.inject, drule sym, simp)

text \<open>C39: the configuration loads exactly when the two required variables are set, the token file reads as
  a non-blank text and both durations parse; every other variable has a default.  Without an override
  the lock file is the conf path with \<open>.lock\<close> appended, the path the installer locks.\<close>

theorem load_config_total:
  "((\<exists>cfg. load_config var read_file dur = Inr cfg) \<longleftrightarrow>
     var ''OXPULSE_CENTRAL_URL'' \<noteq> None \<and> var ''OXPULSE_NODE_ID'' \<noteq> None \<and>
     (\<exists>t. read_file (env_or var ''OXPULSE_SERVICE_TOKEN_PATH'' ''/etc/oxpulse-partner-edge/token'') = Some t \<and> trim t \<noteq> []) \<and>
     dur (env_or var ''OXPULSE_POLL_INTERVAL'' ''30s'') \<noteq> None \<and>
     dur (env_or var ''OXPULSE_AWG_LOCK_TIMEOUT'' ''10s'') \<noteq> None) \<and>
   (\<forall>cfg. load_config var read_file dur = Inr cfg \<longrightarrow> var ''OXPULSE_AWG_CONF_LOCK_PATH'' = None \<longrightarrow>
     awg_conf_lock_path cfg = awg_conf_path cfg @ ''.lock'')"
proof
  show "(\<exists>cfg. load_config var read_file dur = Inr cfg) \<longleftrightarrow>
     var ''OXPULSE_CENTRAL_URL'' \<noteq> None \<and> var ''OXPULSE_NODE_ID'' \<noteq> None \<and>
     (\<exists>t. read_file (env_or var ''OXPULSE_SERVICE_TOKEN_PATH'' ''/etc/oxpulse-partner-edge/token'') = Some t \<and> trim t \<noteq> []) \<and>
     dur (env_or var ''OXPULSE_POLL_INTERVAL'' ''30s'') \<noteq> None \<and>
     dur (env_or var ''OXPULSE_AWG_LOCK_TIMEOUT'' ''10s'') \<noteq> None"
    by (simp add: load_config_def Let_def rbind_Inr_iff require_env_def read_service_token_def parse_duration_def
        split: option.split)
  show "\<forall>cfg. load_config var read_file dur = Inr cfg \<longrightarrow> var ''OXPULSE_AWG_CONF_LOCK_PATH'' = None \<longrightarrow>
     awg_conf_lock_path cfg = awg_conf_path cfg @ ''.lock''"
    using load_config_lock by (auto simp: lock_path_of_def default_lock_path_def)
qed

theorem load_config_total_witness:
  "\<exists>cfg. load_config (\<lambda>k. if k = ''OXPULSE_CENTRAL_URL'' \<or> k = ''OXPULSE_NODE_ID'' then Some ''x'' else None)
     (\<lambda>_. Some ''t'') (\<lambda>_. Some 10) = Inr cfg \<and> awg_conf_lock_path cfg = awg_conf_path cfg @ ''.lock''"
proof -
  let ?var = "\<lambda>k. if k = ''OXPULSE_CENTRAL_URL'' \<or> k = ''OXPULSE_NODE_ID'' then Some ''x'' else None"
  have "trim ''t'' \<noteq> []" using trim_visible [of "''t''"] by (simp add: visible_def)
  then obtain cfg where c: "load_config ?var (\<lambda>_. Some ''t'') (\<lambda>_. Some 10) = Inr cfg"
    using conjunct1 [OF load_config_total, of ?var "\<lambda>_. Some ''t''" "\<lambda>_. Some 10"] by auto
  moreover have "?var ''OXPULSE_AWG_CONF_LOCK_PATH'' = None" by simp
  ultimately show ?thesis
    using conjunct2 [OF load_config_total, of ?var "\<lambda>_. Some ''t''" "\<lambda>_. Some 10"] by blast
qed

end
