(* ===== verification/Awg_Scrub.thy ===== *)
theory Awg_Scrub
  imports Awg_Conf_Lines
begin

text \<open>
  \<open>scrub_key_material\<close> of \<open>crates/awg-params-agent/src/agent.rs\<close>: the redaction applied to the output
  of the AmneziaWG tools before it enters an error.  The expression is matched by hand: a
  case-insensitive key with optional underscores, blanks, an equals sign and the rest of the line.
  Case-insensitive matching folds Unicode, so the long s and the Kelvin sign (as UTF-8) match too.
\<close>

datatype pat = Lit char | OptUnderscore

definition up :: "char \<Rightarrow> char" where
  "up c = char_of ((of_char c :: nat) - 32)"

text \<open>The byte sequences that match a lower-case letter.\<close>

definition ci_alts :: "char \<Rightarrow> string list" where
  "ci_alts c =
    [[c], [up c]] @
    (if c = CHR ''k'' then [[CHR 0xE2, CHR 0x84, CHR 0xAA]]
     else if c = CHR ''s'' then [[CHR 0xC5, CHR 0xBF]] else [])"

fun match_pat :: "pat list \<Rightarrow> string \<Rightarrow> (string \<times> string) option" where
  "match_pat [] s = Some ([], s)"
| "match_pat (Lit c # ps) s =
    (case find (\<lambda>a. prefix a s) (ci_alts c) of
       None \<Rightarrow> None
     | Some a \<Rightarrow>
         (case match_pat ps (drop (length a) s) of
            None \<Rightarrow> None | Some (k, r) \<Rightarrow> Some (a @ k, r)))"
| "match_pat (OptUnderscore # ps) s =
    (case s of
       [] \<Rightarrow> match_pat ps s
     | x # s' \<Rightarrow>
         if x = CHR ''_'' then
           (case match_pat ps s' of None \<Rightarrow> None | Some (k, r) \<Rightarrow> Some (x # k, r))
         else match_pat ps s)"

definition word :: "string \<Rightarrow> pat list" where
  "word s = map Lit s"

definition KEY_RE :: "pat list list" where
  "KEY_RE =
    [word ''private'' @ OptUnderscore # word ''key'',
     word ''preshared'' @ OptUnderscore # word ''key'',
     word ''header'' @ OptUnderscore # word ''protection'' @ OptUnderscore # word ''key'']"

text \<open>A match at the head of a line: the captured key and what follows the equals sign.\<close>

definition assign_with :: "string \<Rightarrow> pat list \<Rightarrow> (string \<times> string) option" where
  "assign_with s ps =
    (case match_pat ps s of
       None \<Rightarrow> None
     | Some (k, r) \<Rightarrow>
         (case dropWhile is_blank r of
            [] \<Rightarrow> None
          | x # v \<Rightarrow> if x = CHR ''='' then Some (k, v) else None))"

fun assign_first :: "string \<Rightarrow> pat list list \<Rightarrow> (string \<times> string) option" where
  "assign_first s [] = None"
| "assign_first s (ps # pss) =
    (case assign_with s ps of Some x \<Rightarrow> Some x | None \<Rightarrow> assign_first s pss)"

definition assign_at :: "string \<Rightarrow> (string \<times> string) option" where
  "assign_at s = assign_first s KEY_RE"

fun scrub_line :: "string \<Rightarrow> string" where
  "scrub_line [] = []"
| "scrub_line (c # s) =
    (case assign_at (c # s) of
       Some (k, v) \<Rightarrow> k @ '' = [redacted]''
     | None \<Rightarrow> c # scrub_line s)"

definition scrub_key_material :: "string \<Rightarrow> string" where
  "scrub_key_material s = join_on NL (map scrub_line (split_on NL s))"

section \<open>Matching is local\<close>

definition eq_free :: "pat list \<Rightarrow> bool" where
  "eq_free ps \<longleftrightarrow> (\<forall>c. Lit c \<in> set ps \<longrightarrow> (\<forall>a \<in> set (ci_alts c). CHR ''='' \<notin> set a \<and> NL \<notin> set a))"

lemma eq_free_Cons: "eq_free (p # ps) \<longleftrightarrow>
    (\<forall>c. p = Lit c \<longrightarrow> (\<forall>a \<in> set (ci_alts c). CHR ''='' \<notin> set a \<and> NL \<notin> set a)) \<and> eq_free ps"
  by (auto simp: eq_free_def)

lemma match_pat_split:
  "match_pat ps s = Some (k, r) \<Longrightarrow> eq_free ps \<Longrightarrow> s = k @ r \<and> CHR ''='' \<notin> set k \<and> NL \<notin> set k"
proof (induction ps s arbitrary: k r rule: match_pat.induct)
  case (2 c ps s)
  then obtain a k' where a: "find (\<lambda>a. prefix a s) (ci_alts c) = Some a"
    and m: "match_pat ps (drop (length a) s) = Some (k', r)" and k: "k = a @ k'"
    by (auto split: option.splits prod.splits)
  from a have ac: "a \<in> set (ci_alts c)" and "prefix a s" by (auto simp: find_Some_iff)
  then obtain t where s: "s = a @ t" by (auto simp: prefix_def)
  from 2(3) ac have "CHR ''='' \<notin> set a \<and> NL \<notin> set a" and "eq_free ps" by (simp_all add: eq_free_Cons)
  with 2(1) [OF a m] s k show ?case by simp
next
  case (3 ps s)
  have ef: "eq_free ps" using 3(5) by (simp add: eq_free_Cons)
  show ?case
  proof (cases "s \<noteq> [] \<and> hd s = CHR ''_''")
    case True
    then obtain t where s: "s = CHR ''_'' # t" by (cases s) auto
    with 3(4) obtain k' where "match_pat ps t = Some (k', r)" "k = CHR ''_'' # k'"
      by (auto split: option.splits prod.splits)
    with 3(2) [OF s refl _ ef] s show ?thesis by simp
  next
    case False
    then have "match_pat ps s = Some (k, r)" using 3(4) by (cases s) simp_all
    with 3(1,3) ef False show ?thesis by (cases s) auto
  qed
qed simp

lemma prefix_before_eq:
  assumes "CHR ''='' \<notin> set b"
  shows "prefix b (u @ CHR ''='' # w) \<longleftrightarrow> prefix b u"
proof
  assume p: "prefix b (u @ CHR ''='' # w)"
  have u: "prefix u (u @ CHR ''='' # w)" and ue: "prefix (u @ [CHR ''='']) (u @ CHR ''='' # w)"
    by simp_all
  show "prefix b u"
  proof (cases "length b \<le> length u")
    case True
    show ?thesis by (rule prefix_length_prefix [OF p u True])
  next
    case False
    have "prefix (u @ [CHR ''='']) b" by (rule prefix_length_prefix [OF ue p]) (use False in simp)
    then have "CHR ''='' \<in> set b" using set_mono_prefix by fastforce
    with assms show ?thesis by blast
  qed
next
  show "prefix b u \<Longrightarrow> prefix b (u @ CHR ''='' # w)" by (rule prefix_prefix)
qed

lemma find_before_eq:
  "(\<forall>b \<in> set bs. CHR ''='' \<notin> set b) \<Longrightarrow>
    find (\<lambda>b. prefix b (u @ CHR ''='' # w)) bs = find (\<lambda>b. prefix b u) bs"
  by (rule find_cong) (simp_all add: prefix_before_eq)

lemma match_pat_local:
  "match_pat ps (u @ CHR ''='' # w) = Some (k, r) \<Longrightarrow> eq_free ps \<Longrightarrow>
    \<exists>u'. u = k @ u' \<and> r = u' @ CHR ''='' # w \<and>
      match_pat ps (u @ CHR ''='' # w') = Some (k, u' @ CHR ''='' # w')"
proof (induction ps arbitrary: u k r)
  case (Cons p ps)
  show ?case
  proof (cases p)
    case (Lit c)
    have f: "find (\<lambda>b. prefix b (u @ CHR ''='' # y)) (ci_alts c) = find (\<lambda>b. prefix b u) (ci_alts c)" for y
      by (rule find_before_eq) (use Cons.prems(2) Lit in \<open>simp add: eq_free_Cons\<close>)
    from Cons.prems(1) obtain a k' where a: "find (\<lambda>b. prefix b u) (ci_alts c) = Some a"
      and m: "match_pat ps (drop (length a) (u @ CHR ''='' # w)) = Some (k', r)" and k: "k = a @ k'"
      by (auto simp: Lit f split: option.splits prod.splits)
    from a have "prefix a u" by (auto simp: find_Some_iff)
    then obtain v where u: "u = a @ v" by (auto simp: prefix_def)
    with m have "match_pat ps (v @ CHR ''='' # w) = Some (k', r)" by simp
    from Cons.IH [OF this] Cons.prems(2) obtain u' where "v = k' @ u'" "r = u' @ CHR ''='' # w"
      "match_pat ps (v @ CHR ''='' # w') = Some (k', u' @ CHR ''='' # w')"
      by (auto simp: eq_free_Cons)
    then show ?thesis using a f by (simp add: Lit u k)
  next
    case OptUnderscore
    show ?thesis
    proof (cases "u \<noteq> [] \<and> hd u = CHR ''_''")
      case True
      then obtain v where u: "u = CHR ''_'' # v" by (cases u) auto
      from Cons.prems(1) obtain k' where m: "match_pat ps (v @ CHR ''='' # w) = Some (k', r)"
        and k: "k = CHR ''_'' # k'"
        by (auto simp: OptUnderscore u split: option.splits prod.splits)
      from Cons.IH [OF m] Cons.prems(2) show ?thesis by (auto simp: OptUnderscore u k eq_free_Cons)
    next
      case False
      then have "match_pat (p # ps) (u @ CHR ''='' # y) = match_pat ps (u @ CHR ''='' # y)" for y
        by (cases u) (simp_all add: OptUnderscore)
      with Cons show ?thesis by (simp add: eq_free_Cons)
    qed
  qed
qed simp

lemma blank_not_eq: "list_all is_blank b \<Longrightarrow> CHR ''='' \<notin> set b"
  by (induction b) (auto simp: is_blank_def)

lemma assign_with_split:
  assumes "assign_with s ps = Some (k, v)" and "eq_free ps"
  shows "\<exists>b. s = k @ b @ CHR ''='' # v \<and> CHR ''='' \<notin> set (k @ b)"
proof -
  obtain r where m: "match_pat ps s = Some (k, r)" and d: "dropWhile is_blank r = CHR ''='' # v"
    using assms(1) by (auto simp: assign_with_def split: option.splits list.splits if_splits)
  have "r = takeWhile is_blank r @ CHR ''='' # v" by (metis d takeWhile_dropWhile_id)
  moreover have "list_all is_blank (takeWhile is_blank r)" by (auto simp: list_all_iff dest: set_takeWhileD)
  ultimately show ?thesis using match_pat_split [OF m assms(2)] blank_not_eq by (metis Un_iff set_append)
qed

lemma dropWhile_blank_eq:
  "dropWhile is_blank (u @ CHR ''='' # w) = CHR ''='' # v \<Longrightarrow> CHR ''='' \<notin> set u \<Longrightarrow>
    v = w \<and> dropWhile is_blank (u @ CHR ''='' # w') = CHR ''='' # w'"
  by (induction u) (auto simp: is_blank_def split: if_splits)

lemma assign_with_local:
  assumes "assign_with (u @ CHR ''='' # w) ps = Some (k, v)" and "eq_free ps" and "CHR ''='' \<notin> set u"
  shows "v = w \<and> assign_with (u @ CHR ''='' # w') ps = Some (k, w')"
proof -
  obtain r where m: "match_pat ps (u @ CHR ''='' # w) = Some (k, r)"
    and d: "dropWhile is_blank r = CHR ''='' # v"
    using assms(1) by (auto simp: assign_with_def split: option.splits list.splits if_splits)
  from match_pat_local [OF m assms(2), of w'] obtain u' where u': "u = k @ u'" "r = u' @ CHR ''='' # w"
    "match_pat ps (u @ CHR ''='' # w') = Some (k, u' @ CHR ''='' # w')" by blast
  with d assms(3) have "v = w \<and> dropWhile is_blank (u' @ CHR ''='' # w') = CHR ''='' # w'"
    using dropWhile_blank_eq [of u' w v w'] by simp
  with u' show ?thesis by (simp add: assign_with_def)
qed

lemma eq_free_word:
  "list_all (\<lambda>c. list_all (\<lambda>a. CHR ''='' \<notin> set a \<and> NL \<notin> set a) (ci_alts c)) s \<Longrightarrow> eq_free (word s)"
  by (auto simp: eq_free_def word_def list_all_iff)

lemma eq_free_append: "eq_free (ps @ qs) \<longleftrightarrow> eq_free ps \<and> eq_free qs"
  by (auto simp: eq_free_def)

lemma eq_free_words:
  "eq_free (word ''private'')" "eq_free (word ''preshared'')" "eq_free (word ''header'')"
  "eq_free (word ''protection'')" "eq_free (word ''key'')"
  by (rule eq_free_word; simp add: ci_alts_def up_def char_of_def bit_0)+

lemma eq_free_KEY_RE: "list_all eq_free KEY_RE"
  by (simp add: KEY_RE_def eq_free_append eq_free_Cons eq_free_words)

lemma assign_first_split:
  "assign_first s pss = Some (k, v) \<Longrightarrow> list_all eq_free pss \<Longrightarrow>
    \<exists>b. s = k @ b @ CHR ''='' # v \<and> CHR ''='' \<notin> set (k @ b)"
proof (induction pss)
  case (Cons ps pss)
  then show ?case
    using assign_with_split [of s ps k v] by (cases "assign_with s ps") simp_all
qed simp

lemma assign_first_local:
  "assign_first (u @ CHR ''='' # w) pss = Some (k, v) \<Longrightarrow> list_all eq_free pss \<Longrightarrow> CHR ''='' \<notin> set u \<Longrightarrow>
    v = w \<and> assign_first (u @ CHR ''='' # w') pss \<noteq> None"
proof (induction pss)
  case (Cons ps pss)
  show ?case
  proof (cases "assign_with (u @ CHR ''='' # w) ps")
    case None
    with Cons show ?thesis by (auto split: option.split)
  next
    case (Some kv)
    with Cons.prems assign_with_local [of u w ps k v w'] show ?thesis by simp
  qed
qed simp

lemmas assign_at_split = assign_first_split [OF _ eq_free_KEY_RE, folded assign_at_def]
lemmas assign_at_local = assign_first_local [OF _ eq_free_KEY_RE, folded assign_at_def]

section \<open>Nothing secret survives\<close>

text \<open>Either no position of the line matches, or the line was cut at the leftmost match.\<close>

lemma scrub_line_shape:
  "(scrub_line l = l \<and> (\<forall>i. assign_at (drop i l) = None)) \<or>
   (\<exists>pre k b v. l = pre @ k @ b @ CHR ''='' # v \<and> CHR ''='' \<notin> set (k @ b) \<and>
      scrub_line l = pre @ k @ '' = [redacted]'' \<and> (\<forall>i < length pre. assign_at (drop i l) = None))"
proof (induction l)
  case Nil
  have "assign_at [] = None" using assign_at_split [of "[]"] by (cases "assign_at []") auto
  then show ?case by simp
next
  case (Cons c s)
  show ?case
  proof (cases "assign_at (c # s)")
    case None
    from Cons.IH show ?thesis
    proof (elim disjE exE conjE)
      assume "scrub_line s = s" "\<forall>i. assign_at (drop i s) = None"
      moreover have "assign_at (drop i (c # s)) = None" for i using None calculation(2) by (cases i) simp_all
      ultimately show ?thesis using None by simp
    next
      fix pre k b v
      assume a: "s = pre @ k @ b @ CHR ''='' # v" "CHR ''='' \<notin> set (k @ b)"
        "scrub_line s = pre @ k @ '' = [redacted]''" "\<forall>i < length pre. assign_at (drop i s) = None"
      have "assign_at (drop i (c # s)) = None" if "i < length (c # pre)" for i
        using None a(4) that by (cases i) simp_all
      moreover have "scrub_line (c # s) = (c # pre) @ k @ '' = [redacted]''" using None a(3) by simp
      moreover have "c # s = (c # pre) @ k @ b @ CHR ''='' # v" using a(1) by simp
      ultimately have "c # s = (c # pre) @ k @ b @ CHR ''='' # v \<and> CHR ''='' \<notin> set (k @ b) \<and>
        scrub_line (c # s) = (c # pre) @ k @ '' = [redacted]'' \<and>
        (\<forall>i < length (c # pre). assign_at (drop i (c # s)) = None)"
        using a(2) by blast
      then show ?thesis by blast
    qed
  next
    case (Some kv)
    obtain k v where kv: "kv = (k, v)" by fastforce
    with Some have at: "assign_at (c # s) = Some (k, v)" by simp
    then obtain b where "c # s = k @ b @ CHR ''='' # v" "CHR ''='' \<notin> set (k @ b)"
      using assign_at_split by blast
    moreover have "scrub_line (c # s) = k @ '' = [redacted]''" using at by simp
    ultimately have
      "c # s = [] @ k @ b @ CHR ''='' # v \<and> CHR ''='' \<notin> set (k @ b) \<and>
       scrub_line (c # s) = [] @ k @ '' = [redacted]'' \<and> (\<forall>i < length ([] :: string). assign_at (drop i (c # s)) = None)"
      by simp
    then show ?thesis by blast
  qed
qed

lemma first_eq_unique:
  assumes "p @ CHR ''='' # v = q @ CHR ''='' # w" and "CHR ''='' \<notin> set p" and "CHR ''='' \<notin> set q"
  shows "v = w"
  using append_sep_inj [OF assms(2,3)] assms(1) by simp

lemma scrub_line_redacted:
  assumes m: "assign_at (drop i (scrub_line l)) = Some (k', v')"
  shows "v' = '' [redacted]''"
  using scrub_line_shape [of l]
proof (elim disjE exE conjE)
  assume "scrub_line l = l" "\<forall>i. assign_at (drop i l) = None"
  with m show ?thesis by simp
next
  fix pre k b v
  assume l: "l = pre @ k @ b @ CHR ''='' # v" and kb: "CHR ''='' \<notin> set (k @ b)"
    and sc: "scrub_line l = pre @ k @ '' = [redacted]''" and left: "\<forall>i < length pre. assign_at (drop i l) = None"
  from assign_at_split [OF m] obtain b' where d: "drop i (scrub_line l) = (k' @ b') @ CHR ''='' # v'"
    and kb': "CHR ''='' \<notin> set (k' @ b')" by (metis append.assoc)
  show ?thesis
  proof (cases "CHR ''='' \<in> set (drop i pre)")
    case True
    then have i: "i < length pre" by (cases "i < length pre") simp_all
    from True obtain q1 q2 where q: "drop i pre = q1 @ CHR ''='' # q2" "CHR ''='' \<notin> set q1"
      by (meson split_list_first)
    have "drop i (scrub_line l) = q1 @ CHR ''='' # (q2 @ k @ '' = [redacted]'')"
      using q(1) i by (simp add: sc)
    with m have "assign_at (q1 @ CHR ''='' # (q2 @ k @ '' = [redacted]'')) = Some (k', v')" by simp
    from conjunct2 [OF assign_at_local [OF this q(2), of "q2 @ k @ b @ CHR ''='' # v"]]
    have "assign_at (q1 @ CHR ''='' # (q2 @ k @ b @ CHR ''='' # v)) \<noteq> None" .
    moreover have "drop i l = q1 @ CHR ''='' # (q2 @ k @ b @ CHR ''='' # v)" using q(1) i by (simp add: l)
    moreover have "assign_at (drop i l) = None" using left i by blast
    ultimately show ?thesis by simp
  next
    case False
    let ?p = "pre @ k @ '' ''"
    have sp: "scrub_line l = ?p @ ''= [redacted]''" by (simp add: sc)
    have kj: "CHR ''='' \<notin> set (drop j (k @ '' ''))" for j
    proof
      assume "CHR ''='' \<in> set (drop j (k @ '' ''))"
      then have "CHR ''='' \<in> set (k @ '' '')" by (rule in_set_dropD)
      with kb show False by simp
    qed
    have nk: "CHR ''='' \<notin> set (drop i ?p)"
    proof
      assume "CHR ''='' \<in> set (drop i ?p)"
      then have "CHR ''='' \<in> set (drop i pre) \<or> CHR ''='' \<in> set (drop (i - length pre) (k @ '' ''))"
        by (simp only: drop_append [of i pre] set_append Un_iff)
      with False kj [of "i - length pre"] show False by (simp only: simp_thms)
    qed
    have "i \<le> length ?p"
    proof (rule ccontr)
      assume i: "\<not> i \<le> length ?p"
      then have sub: "set (drop (i - length ?p) ''= [redacted]'') \<subseteq> set (drop (Suc 0) ''= [redacted]'')"
        by (intro set_drop_subset_set_drop) simp
      have e: "drop i (scrub_line l) = drop (i - length ?p) ''= [redacted]''"
        using i unfolding sp drop_append by simp
      have "CHR ''='' \<in> set (drop i (scrub_line l))" unfolding d by simp
      then have "CHR ''='' \<in> set (drop (i - length ?p) ''= [redacted]'')" unfolding e .
      then have "CHR ''='' \<in> set (drop (Suc 0) ''= [redacted]'')" by (rule subsetD [OF sub])
      then show False by simp
    qed
    then have "drop i (scrub_line l) = drop i ?p @ CHR ''='' # '' [redacted]''"
      unfolding sp drop_append by simp
    from first_eq_unique [OF trans [OF d [symmetric] this] kb' nk] show ?thesis .
  qed
qed

lemma scrub_line_no_nl: "NL \<notin> set l \<Longrightarrow> NL \<notin> set (scrub_line l)"
  using scrub_line_shape [of l] by (elim disjE exE conjE) simp_all

lemma split_scrub: "split_on NL (scrub_key_material s) = map scrub_line (split_on NL s)"
  unfolding scrub_key_material_def
  by (rule split_join) (use scrub_line_no_nl split_on_no_sep in auto)

text \<open>C34: no key material passes the redaction.  In the scrubbed text, at every position of every line, an
  assignment to a private, preshared or header-protection key (in any spelling the expression
  recognises) has the value \<open>[redacted]\<close>.\<close>

theorem scrub_redacts_everywhere:
  assumes "l \<in> set (split_on NL (scrub_key_material s))" and "assign_at (drop i l) = Some (k, v)"
  shows "v = '' [redacted]''"
proof -
  obtain l' where "l = scrub_line l'" using assms(1) by (auto simp: split_scrub)
  with assms(2) show ?thesis using scrub_line_redacted by simp
qed

lemma demo_assign: "assign_at ''Private_key = [redacted]'' = Some (''Private_key'', '' [redacted]'')"
  by (simp add: assign_at_def KEY_RE_def word_def assign_with_def ci_alts_def up_def char_of_def bit_0 is_blank_def)

lemma demo_scrub: "scrub_key_material ''Private_key  =c2VjcmV0'' = ''Private_key = [redacted]''"
  by (simp add: scrub_key_material_def assign_at_def KEY_RE_def word_def assign_with_def ci_alts_def up_def
      char_of_def bit_0 is_blank_def)

theorem scrub_redacts_everywhere_witness:
  "\<exists>k v. assign_at (drop 0 (scrub_key_material ''Private_key  =c2VjcmV0'')) = Some (k, v) \<and> v = '' [redacted]''"
proof -
  have "''Private_key = [redacted]'' \<in> set (split_on NL (scrub_key_material ''Private_key  =c2VjcmV0''))"
    unfolding demo_scrub by simp
  moreover have "assign_at (drop 0 ''Private_key = [redacted]'') = Some (''Private_key'', '' [redacted]'')"
    unfolding drop_0 by (rule demo_assign)
  ultimately have r: "'' [redacted]'' = '' [redacted]''" by (rule scrub_redacts_everywhere)
  show ?thesis unfolding demo_scrub drop_0
    by (rule exI [of _ "''Private_key''"], rule exI [of _ "'' [redacted]''"], rule conjI [OF demo_assign r])
qed

end
