(* ===== verification/Dd_Parse.thy ===== *)
theory Dd_Parse
  imports Prelude
begin

text \<open>
  The bit parser of \<open>crates/sfu/src/svc/dd_parse.rs\<close> for the AV1 dependency descriptor.  A step has
  three outcomes: a value, a soft failure (\<open>None\<close> in the source) and a panic.  Everything that could
  panic (indexing, subtraction below zero, shifting by the width) is an explicit branch, so that the
  absence of panics is a theorem about this model rather than an assumption.
\<close>

unbundle bit_operations_syntax

section \<open>Bit reader\<close>

datatype 'a out = Panic | Fail | Done 'a

record reader =
  rd_bytes :: "byte list"
  bit_pos :: nat

definition obind :: "('a \<times> reader) out \<Rightarrow> ('a \<Rightarrow> reader \<Rightarrow> 'b out) \<Rightarrow> 'b out" where
  "obind x f = (case x of Panic \<Rightarrow> Panic | Fail \<Rightarrow> Fail | Done (a, r) \<Rightarrow> f a r)"

definition new_reader :: "byte list \<Rightarrow> reader" where
  "new_reader bytes = \<lparr>rd_bytes = bytes, bit_pos = 0\<rparr>"

definition total_bits :: "reader \<Rightarrow> nat" where
  "total_bits r = length (rd_bytes r) * 8"

definition remaining :: "reader \<Rightarrow> nat" where
  "remaining r = total_bits r - bit_pos r"

fun read_loop :: "nat \<Rightarrow> nat \<Rightarrow> reader \<Rightarrow> (nat \<times> reader) out" where
  "read_loop 0 result r = Done (result, r)"
| "read_loop (Suc n) result r =
    (let byte_idx = bit_pos r div 8; bit_idx = 7 - bit_pos r mod 8 in
     if byte_idx < length (rd_bytes r) then
       (let b = unat (drop_bit bit_idx (rd_bytes r ! byte_idx) AND 1) in
        read_loop n ((result * 2) mod 2 ^ 32 + b) (r\<lparr>bit_pos := bit_pos r + 1\<rparr>))
     else Panic)"

definition read_bits :: "nat \<Rightarrow> reader \<Rightarrow> (nat \<times> reader) out" where
  "read_bits n r =
    (if n = 0 then Done (0, r)
     else if n > 32 \<or> remaining r < n then Fail
     else read_loop n 0 r)"

definition read_bool :: "reader \<Rightarrow> (bool \<times> reader) out" where
  "read_bool r = obind (read_bits 1 r) (\<lambda>v r. Done (v \<noteq> 0, r))"

fun bit_width :: "nat \<Rightarrow> nat" where
  "bit_width x = (if x = 0 then 0 else Suc (bit_width (x div 2)))"

declare bit_width.simps [simp del]

definition read_ns :: "nat \<Rightarrow> reader \<Rightarrow> (nat \<times> reader) out" where
  "read_ns n r =
    (if n \<le> 1 then Done (0, r)
     else
       (let w = bit_width n in
        if w \<ge> 32 \<or> 2 ^ w < n then Panic
        else
          (let m = 2 ^ w - n in
           obind (read_bits (w - 1) r) (\<lambda>v r.
             if v < m then Done (v, r)
             else obind (read_bits 1 r) (\<lambda>extra r.
               if 2 * v < m \<or> 2 * v \<ge> 2 ^ 32 then Panic else Done (2 * v - m + extra, r))))))"

section \<open>Reading bits\<close>

definition bits_of :: "byte list \<Rightarrow> bool list" where
  "bits_of bytes = map (\<lambda>i. bit (bytes ! (i div 8)) (7 - i mod 8)) [0..<8 * length bytes]"

definition rest :: "reader \<Rightarrow> bool list" where
  "rest r = drop (bit_pos r) (bits_of (rd_bytes r))"

definition bits_val :: "bool list \<Rightarrow> nat" where
  "bits_val bs = foldl (\<lambda>a b. 2 * a + of_bool b) 0 bs"

lemma length_bits_of [simp]: "length (bits_of bytes) = 8 * length bytes"
  by (simp add: bits_of_def)

lemma length_rest [simp]: "length (rest r) = remaining r"
  by (simp add: rest_def remaining_def total_bits_def mult.commute)

lemma rest_step:
  assumes "bit_pos r < total_bits r"
  shows "rest r = bit (rd_bytes r ! (bit_pos r div 8)) (7 - bit_pos r mod 8) # rest (r\<lparr>bit_pos := bit_pos r + 1\<rparr>)"
proof -
  have l: "bit_pos r < length (bits_of (rd_bytes r))" using assms by (simp add: total_bits_def mult.commute)
  then have "bits_of (rd_bytes r) ! bit_pos r = bit (rd_bytes r ! (bit_pos r div 8)) (7 - bit_pos r mod 8)"
    by (simp add: bits_of_def)
  with Cons_nth_drop_Suc [OF l] show ?thesis by (simp add: rest_def)
qed

lemma unat_bit_and: "unat (drop_bit k (b :: byte) AND 1) = of_bool (bit b k)"
  by (simp add: and_one_eq mod_2_eq_odd bit_iff_odd_drop_bit)

lemma read_loop_rest:
  assumes "n \<le> remaining r" and "result < 2 ^ (32 - n)" and "n \<le> 32"
  shows "read_loop n result r =
    Done (foldl (\<lambda>a b. 2 * a + of_bool b) result (take n (rest r)), r\<lparr>bit_pos := bit_pos r + n\<rparr>)"
  using assms
proof (induction n arbitrary: result r)
  case (Suc n)
  let ?r = "r\<lparr>bit_pos := bit_pos r + 1\<rparr>"
  let ?b = "bit (rd_bytes r ! (bit_pos r div 8)) (7 - bit_pos r mod 8)"
  have pos: "bit_pos r < total_bits r" using Suc.prems(1) by (simp add: remaining_def)
  have res: "result * 2 + of_bool ?b < 2 ^ (32 - n)"
  proof -
    have "(2::nat) ^ (32 - n) = 2 * 2 ^ (32 - Suc n)"
      using Suc.prems(3) by (simp flip: power_Suc add: Suc_diff_Suc)
    with Suc.prems(2) show ?thesis by (cases ?b) simp_all
  qed
  then have small: "(result * 2) mod 2 ^ 32 = result * 2"
  proof -
    have "(2::nat) ^ (32 - n) \<le> 2 ^ 32" by (intro power_increasing) simp_all
    with res show ?thesis by simp
  qed
  have "bit_pos r div 8 < length (rd_bytes r)" using pos by (simp add: total_bits_def div_less_iff_less_mult)
  then have "read_loop (Suc n) result r = read_loop n (result * 2 + of_bool ?b) ?r"
    by (simp only: read_loop.simps Let_def small unat_bit_and if_True)
  also have "\<dots> = Done (foldl (\<lambda>a b. 2 * a + of_bool b) (result * 2 + of_bool ?b) (take n (rest ?r)),
      ?r\<lparr>bit_pos := bit_pos ?r + n\<rparr>)"
    by (rule Suc.IH) (use Suc.prems res in \<open>auto simp: remaining_def total_bits_def\<close>)
  finally show ?case by (simp add: rest_step [OF pos] mult.commute)
qed simp

lemma read_bits_eq:
  "read_bits n r =
    (if n > 32 \<or> remaining r < n then Fail
     else Done (bits_val (take n (rest r)), r\<lparr>bit_pos := bit_pos r + n\<rparr>))"
  by (simp add: read_bits_def read_loop_rest bits_val_def)

lemma read_bits_remaining: "read_bits n r = Done (v, r') \<Longrightarrow> remaining r' + n = remaining r"
  by (auto simp: read_bits_eq remaining_def total_bits_def split: if_splits)

lemma bits_val_less: "bits_val bs < 2 ^ length bs"
proof (induction bs rule: rev_induct)
  case (snoc b bs)
  then show ?case by (cases b) (simp_all add: bits_val_def)
qed (simp add: bits_val_def)

lemma read_bits_less: "read_bits n r = Done (v, r') \<Longrightarrow> v < 2 ^ n"
  using bits_val_less [of "take n (rest r)"] by (auto simp: read_bits_eq min_def split: if_splits)

lemma read_bits_no_panic [simp]: "read_bits n r \<noteq> Panic"
  by (simp add: read_bits_eq)

section \<open>Descriptor types\<close>

record frame_dependency_template =
  tpl_temporal_id :: nat
  tpl_spatial_id :: nat
  tpl_dtis :: "nat list"
  tpl_fdiffs :: "nat list"
  tpl_chain_fdiffs :: "nat list"

record template_dependency_structure =
  template_id_offset :: nat
  template_count :: nat
  dt_cnt :: nat
  chain_cnt :: nat
  max_temporal_id :: nat
  max_spatial_id :: nat
  templates :: "frame_dependency_template list"

record dependency_descriptor =
  start_of_frame :: bool
  end_of_frame :: bool
  frame_dependency_template_id :: nat
  frame_number :: nat
  dd_temporal_id :: "nat option"
  dd_spatial_id :: "nat option"
  dd_structure :: "template_dependency_structure option"

section \<open>Structure\<close>

text \<open>\<open>u8::checked_add\<close>.\<close>

definition checked_add_u8 :: "nat \<Rightarrow> nat option" where
  "checked_add_u8 x = (if x + 1 \<le> 255 then Some (x + 1) else None)"

function layers_loop ::
  "nat \<Rightarrow> nat \<Rightarrow> nat \<Rightarrow> (nat \<times> nat) list \<Rightarrow> reader \<Rightarrow> (((nat \<times> nat) list \<times> nat \<times> nat) \<times> reader) out" where
  "layers_loop tid sid max_tid acc r =
    (let acc' = acc @ [(sid, tid)] in
     case read_bits 2 r of
       Panic \<Rightarrow> Panic
     | Fail \<Rightarrow> Fail
     | Done (idc, r1) \<Rightarrow>
         if idc = 3 then Done ((acc', max_tid, sid), r1)
         else
           (case (if idc = 0 then Done (tid, sid, max_tid)
                  else if idc = 1 then
                    (case checked_add_u8 tid of
                       None \<Rightarrow> Fail
                     | Some t \<Rightarrow> Done (t, sid, if t > max_tid then t else max_tid))
                  else if idc = 2 then
                    (case checked_add_u8 sid of None \<Rightarrow> Fail | Some s \<Rightarrow> Done (0, s, max_tid))
                  else Panic) of
              Panic \<Rightarrow> Panic
            | Fail \<Rightarrow> Fail
            | Done (t, s, mt) \<Rightarrow>
                if length acc' \<ge> 64 then Fail else layers_loop t s mt acc' r1))"
  by pat_completeness auto
termination
  by (relation "measure (\<lambda>(tid, sid, mt, acc, r). 64 - length acc)") auto

declare layers_loop.simps [simp del]

definition parse_template_layers :: "reader \<Rightarrow> (((nat \<times> nat) list \<times> nat \<times> nat) \<times> reader) out" where
  "parse_template_layers r = layers_loop 0 0 0 [] r"

function fdiffs_loop :: "nat list \<Rightarrow> reader \<Rightarrow> (nat list \<times> reader) out" where
  "fdiffs_loop acc r =
    (case read_bits 4 r of
       Panic \<Rightarrow> Panic
     | Fail \<Rightarrow> Fail
     | Done (d, r1) \<Rightarrow>
         (case checked_add_u8 d of
            None \<Rightarrow> Fail
          | Some d' \<Rightarrow>
              (case read_bool r1 of
                 Panic \<Rightarrow> Panic
               | Fail \<Rightarrow> Fail
               | Done (follows, r2) \<Rightarrow>
                   (let acc' = acc @ [d'] in
                    if length acc' \<ge> 8 then Fail
                    else if follows then fdiffs_loop acc' r2
                    else Done (acc', r2)))))"
  by pat_completeness auto
termination
  by (relation "measure (\<lambda>(acc, r). 8 - length acc)") auto

declare fdiffs_loop.simps [simp del]

definition parse_template_fdiffs :: "reader \<Rightarrow> (nat list \<times> reader) out" where
  "parse_template_fdiffs r =
    obind (read_bool r) (\<lambda>follows r. if follows then fdiffs_loop [] r else Done ([], r))"

text \<open>\<open>for _ in 0..n\<close> over one reading step, collecting the values.\<close>

fun read_many :: "(reader \<Rightarrow> ('a \<times> reader) out) \<Rightarrow> nat \<Rightarrow> reader \<Rightarrow> ('a list \<times> reader) out" where
  "read_many p 0 r = Done ([], r)"
| "read_many p (Suc n) r =
    (case p r of
       Panic \<Rightarrow> Panic
     | Fail \<Rightarrow> Fail
     | Done (x, r1) \<Rightarrow>
         (case read_many p n r1 of
            Panic \<Rightarrow> Panic | Fail \<Rightarrow> Fail | Done (xs, r2) \<Rightarrow> Done (x # xs, r2)))"

definition read_chains :: "nat \<Rightarrow> nat \<Rightarrow> nat \<Rightarrow> reader \<Rightarrow> (nat list list \<times> reader) out" where
  "read_chains count dtc cc r =
    (if cc > 0 then
       obind (read_many (read_ns cc) dtc r) (\<lambda>_ r. read_many (read_many (read_bits 4) cc) count r)
     else Done (replicate count [], r))"

definition read_resolutions :: "nat \<Rightarrow> reader \<Rightarrow> (unit \<times> reader) out" where
  "read_resolutions max_sid r =
    obind (read_bool r) (\<lambda>present r.
      if present then obind (read_many (read_bits 16) (2 * (max_sid + 1)) r) (\<lambda>_ r. Done ((), r))
      else Done ((), r))"

fun mk_templates ::
  "(nat \<times> nat) list \<Rightarrow> nat list list \<Rightarrow> nat list list \<Rightarrow> nat list list \<Rightarrow> frame_dependency_template list" where
  "mk_templates ((sid, tid) # ls) (d # ds) (f # fs) (c # cs) =
    \<lparr>tpl_temporal_id = tid, tpl_spatial_id = sid, tpl_dtis = d, tpl_fdiffs = f, tpl_chain_fdiffs = c\<rparr>
      # mk_templates ls ds fs cs"
| "mk_templates _ _ _ _ = []"

text \<open>The three full blocks over all templates, the chain count between them, and the resolutions.\<close>

definition read_blocks ::
  "nat \<Rightarrow> nat \<Rightarrow> (nat \<times> nat) list \<times> nat \<times> nat \<Rightarrow> reader \<Rightarrow> (template_dependency_structure \<times> reader) out" where
  "read_blocks offset dtc l r =
    (case l of (layers, max_tid, max_sid) \<Rightarrow>
       let n = length layers in
       if n mod 256 = 0 then Fail
       else
         obind (read_many (read_many (read_bits 2) dtc) n r) (\<lambda>dtis r.
         obind (read_many parse_template_fdiffs n r) (\<lambda>fdiffs r.
         obind (read_ns (dtc + 1) r) (\<lambda>cc r.
         obind (read_chains n dtc (cc mod 256) r) (\<lambda>chains r.
         obind (read_resolutions max_sid r) (\<lambda>_ r.
           Done (\<lparr>template_id_offset = offset, template_count = n mod 256, dt_cnt = dtc,
                  chain_cnt = cc mod 256, max_temporal_id = max_tid, max_spatial_id = max_sid,
                  templates = mk_templates layers dtis fdiffs chains\<rparr>, r)))))))"

definition parse_template_dependency_structure ::
  "reader \<Rightarrow> (template_dependency_structure \<times> reader) out" where
  "parse_template_dependency_structure r =
    obind (read_bits 6 r) (\<lambda>offset r.
    obind (read_bits 5 r) (\<lambda>dt_cnt_minus_one r.
    case checked_add_u8 dt_cnt_minus_one of
      None \<Rightarrow> Fail
    | Some dtc \<Rightarrow>
        if dtc \<ge> 32 then Fail
        else obind (parse_template_layers r) (read_blocks offset dtc)))"

section \<open>Descriptor\<close>

function skip_fdiffs :: "reader \<Rightarrow> (unit \<times> reader) out" where
  "skip_fdiffs r =
    (case read_bits 2 r of
       Panic \<Rightarrow> Panic
     | Fail \<Rightarrow> Fail
     | Done (sz, r1) \<Rightarrow>
         if sz = 0 then Done ((), r1)
         else
           (case read_bits (4 * sz) r1 of
              Panic \<Rightarrow> Panic
            | Fail \<Rightarrow> Fail
            | Done (_, r2) \<Rightarrow> skip_fdiffs r2))"
  by pat_completeness auto
termination
proof (relation "measure remaining")
  fix r p sz r1 p' v r2
  assume a: "read_bits 2 r = Done p" "(sz, r1) = p" "read_bits (4 * sz) r1 = Done p'" "(v, r2) = p'"
  have "remaining r1 < remaining r" using read_bits_remaining [of 2 r sz r1] a(1,2) by auto
  moreover have "remaining r2 \<le> remaining r1" using read_bits_remaining [of "4 * sz" r1 v r2] a(3,4) by auto
  ultimately show "(r2, r) \<in> measure remaining" by simp
qed simp

declare skip_fdiffs.simps [simp del]

definition read_overrides ::
  "template_dependency_structure option \<Rightarrow> bool \<Rightarrow> bool \<Rightarrow> bool \<Rightarrow> reader \<Rightarrow> (unit \<times> reader) out" where
  "read_overrides resolve dtis_flag fdiffs_flag chains_flag r =
    (case resolve of
       Some s \<Rightarrow>
         obind (if dtis_flag then obind (read_many (read_bits 2) (dt_cnt s) r) (\<lambda>_ r. Done ((), r))
                else Done ((), r)) (\<lambda>_ r.
         obind (if fdiffs_flag then skip_fdiffs r else Done ((), r)) (\<lambda>_ r.
         if chains_flag then obind (read_many (read_bits 8) (chain_cnt s) r) (\<lambda>_ r. Done ((), r))
         else Done ((), r)))
     | None \<Rightarrow> if dtis_flag \<or> fdiffs_flag \<or> chains_flag then Fail else Done ((), r))"

definition resolve_layer ::
  "template_dependency_structure option \<Rightarrow> nat \<Rightarrow> (nat option \<times> nat option) out" where
  "resolve_layer resolve template_id =
    (case resolve of
       None \<Rightarrow> Done (None, None)
     | Some s \<Rightarrow>
         if template_id + 64 < template_id_offset s then Panic
         else
           (let i = (template_id + 64 - template_id_offset s) mod 64 in
            if i \<ge> template_count s then Fail
            else if i \<ge> length (templates s) then Panic
            else Done (Some (tpl_temporal_id (templates s ! i)), Some (tpl_spatial_id (templates s ! i)))))"

text \<open>The extended fields: the attached structure and the three override flags.\<close>

definition read_extended ::
  "template_dependency_structure option \<Rightarrow> reader
    \<Rightarrow> ((template_dependency_structure option \<times> bool \<times> bool \<times> bool) \<times> reader) out" where
  "read_extended prior r =
    obind (read_bool r) (\<lambda>structure_present r.
    obind (read_bool r) (\<lambda>targets_present r.
    obind (read_bool r) (\<lambda>dtis_flag r.
    obind (read_bool r) (\<lambda>fdiffs_flag r.
    obind (read_bool r) (\<lambda>chains_flag r.
    if structure_present then
      obind (parse_template_dependency_structure r) (\<lambda>s r.
        if dt_cnt s \<ge> 32 then Panic
        else if targets_present then
          obind (read_bits (dt_cnt s) r) (\<lambda>_ r. Done ((Some s, dtis_flag, fdiffs_flag, chains_flag), r))
        else Done ((Some s, dtis_flag, fdiffs_flag, chains_flag), r))
    else if targets_present then
      (case prior of
         None \<Rightarrow> Fail
       | Some ps \<Rightarrow>
           obind (read_bits (dt_cnt ps) r) (\<lambda>_ r. Done ((None, dtis_flag, fdiffs_flag, chains_flag), r)))
    else Done ((None, dtis_flag, fdiffs_flag, chains_flag), r))))))"

definition parse_dependency_descriptor ::
  "byte list \<Rightarrow> template_dependency_structure option \<Rightarrow> dependency_descriptor out" where
  "parse_dependency_descriptor bytes prior =
    (if length bytes < 3 then Fail
     else
       obind (read_bool (new_reader bytes)) (\<lambda>sof r.
       obind (read_bool r) (\<lambda>eof r.
       obind (read_bits 6 r) (\<lambda>tid r.
       obind (read_bits 16 r) (\<lambda>num r.
       obind (if length bytes > 3 then read_extended prior r
              else Done ((None, False, False, False), r)) (\<lambda>(structure, dtis_flag, fdiffs_flag, chains_flag) r.
       let resolve = (case structure of Some s \<Rightarrow> Some s | None \<Rightarrow> prior) in
       case resolve_layer resolve tid of
         Panic \<Rightarrow> Panic
       | Fail \<Rightarrow> Fail
       | Done (t, s) \<Rightarrow>
           obind (read_overrides resolve dtis_flag fdiffs_flag chains_flag r) (\<lambda>_ r.
             Done \<lparr>start_of_frame = sof, end_of_frame = eof, frame_dependency_template_id = tid,
                   frame_number = num, dd_temporal_id = t, dd_spatial_id = s,
                   dd_structure = structure\<rparr>)))))))"

end
