(* ===== verification/Dd_Safe.thy ===== *)
theory Dd_Safe
  imports Dd_Parse
begin

text \<open>
  The dependency descriptor parser never panics, whatever the bytes, and every structure it returns is
  well formed, so that caching it keeps the parser safe on the packets that follow.
\<close>

section \<open>Safe outcomes\<close>

definition safe :: "('a \<Rightarrow> bool) \<Rightarrow> 'a out \<Rightarrow> bool" where
  "safe P x \<longleftrightarrow> x \<noteq> Panic \<and> (\<forall>v. x = Done v \<longrightarrow> P v)"

named_theorems safe_intros

lemma safe_Done [simp]: "safe P (Done v) = P v"
  by (simp add: safe_def)

lemma safe_Fail [simp]: "safe P Fail"
  by (simp add: safe_def)

lemma safe_not_Panic: "safe P x \<Longrightarrow> x \<noteq> Panic"
  by (simp add: safe_def)

lemma safe_mono: "safe P x \<Longrightarrow> (\<And>v. P v \<Longrightarrow> Q v) \<Longrightarrow> safe Q x"
  by (auto simp: safe_def)

lemma safe_obind:
  assumes "safe (\<lambda>(a, r). P a) x" and "\<And>a r. P a \<Longrightarrow> safe Q (f a r)"
  shows "safe Q (obind x f)"
  using assms by (cases x) (auto simp: obind_def safe_def)

lemma safe_case:
  assumes "safe (\<lambda>(a, r). P a) (x :: ('a \<times> reader) out)" and "\<And>a r. P a \<Longrightarrow> safe Q (f a r)"
  shows "safe Q (case x of Panic \<Rightarrow> Panic | Fail \<Rightarrow> Fail | Done (a, r) \<Rightarrow> f a r)"
  using safe_obind [OF assms] by (simp add: obind_def)

lemma safe_read_bits: "safe (\<lambda>(v, r). v < 2 ^ n) (read_bits n r)"
  using read_bits_less by (auto simp: safe_def)

lemma safe_read_bool: "safe (\<lambda>(v, r). True) (read_bool r)"
  unfolding read_bool_def by (rule safe_obind [OF safe_read_bits]) simp

lemma safe_read_many:
  assumes "\<And>r. safe (\<lambda>(x, r). P x) (p r)"
  shows "safe (\<lambda>(xs, r). length xs = n \<and> list_all P xs) (read_many p n r)"
proof (induction n arbitrary: r)
  case (Suc n)
  show ?case unfolding read_many.simps
  proof (rule safe_case [OF assms])
    fix x r1 assume "P x"
    show "safe (\<lambda>(xs, r). length xs = Suc n \<and> list_all P xs)
        (case read_many p n r1 of Panic \<Rightarrow> Panic | Fail \<Rightarrow> Fail | Done (xs, r2) \<Rightarrow> Done (x # xs, r2))"
      by (rule safe_case [OF Suc]) (use \<open>P x\<close> in simp)
  qed
qed simp

section \<open>Non-symmetric integers\<close>

lemma bit_width_bounds: "0 < n \<Longrightarrow> 2 ^ (bit_width n - 1) \<le> n \<and> n < 2 ^ bit_width n \<and> 0 < bit_width n"
proof (induction n rule: bit_width.induct)
  case (1 n)
  show ?case
  proof (cases "n = 1")
    case True
    have "bit_width 1 = 1" using bit_width.simps [of 1] bit_width.simps [of 0] by simp
    with True show ?thesis by simp
  next
    case False
    with 1 have h: "2 ^ (bit_width (n div 2) - 1) \<le> n div 2 \<and> n div 2 < 2 ^ bit_width (n div 2) \<and> 0 < bit_width (n div 2)"
      by simp
    have w: "bit_width n = Suc (bit_width (n div 2))" using 1(2) bit_width.simps [of n] by simp
    obtain k where k: "bit_width (n div 2) = Suc k" using h gr0_conv_Suc by blast
    show ?thesis using h unfolding w k
      by (auto simp: div_less_iff_less_mult less_eq_div_iff_mult_less_eq)
  qed
qed

lemma bit_width_le: "0 < n \<Longrightarrow> n < 2 ^ k \<Longrightarrow> bit_width n \<le> k"
proof -
  assume "0 < n" "n < 2 ^ k"
  with bit_width_bounds [of n] have "(2::nat) ^ (bit_width n - 1) < 2 ^ k" by linarith
  then have "bit_width n - 1 < k" by simp
  then show "bit_width n \<le> k" by linarith
qed

lemma safe_read_ns:
  assumes "n < 2 ^ 31"
  shows "safe (\<lambda>(v, r). v < max n 1) (read_ns n r)"
proof (cases "n \<le> 1")
  case True
  then show ?thesis by (simp add: read_ns_def)
next
  case False
  define w where "w = bit_width n"
  define m where "m = 2 ^ w - n"
  have b: "2 ^ (w - 1) \<le> n" "n < 2 ^ w" "0 < w" using bit_width_bounds [of n] False by (simp_all add: w_def)
  have w31: "w \<le> 31" using bit_width_le [of n 31] False assms by (simp add: w_def)
  have p: "(2::nat) ^ w = 2 * 2 ^ (w - 1)" using b(3) by (simp flip: power_Suc)
  have m: "m \<le> 2 ^ (w - 1)" using b(1) p by (simp add: m_def)
  have pw: "(2::nat) ^ w \<le> 2 ^ 31" using w31 by (intro power_increasing) simp_all
  have "read_ns n r = obind (read_bits (w - 1) r) (\<lambda>v r.
      if v < m then Done (v, r)
      else obind (read_bits 1 r) (\<lambda>extra r.
        if 2 * v < m \<or> 2 * v \<ge> 2 ^ 32 then Panic else Done (2 * v - m + extra, r)))"
    unfolding m_def using False b(2) w31 by (simp add: read_ns_def w_def [symmetric] Let_def)
  moreover have "safe (\<lambda>(v, r). v < max n 1) \<dots>"
  proof (rule safe_obind [OF safe_read_bits])
    fix v r' assume v: "v < (2::nat) ^ (w - 1)"
    show "safe (\<lambda>(v, r). v < max n 1)
      (if v < m then Done (v, r') else obind (read_bits 1 r') (\<lambda>extra r.
        if 2 * v < m \<or> 2 * v \<ge> 2 ^ 32 then Panic else Done (2 * v - m + extra, r)))"
    proof (cases "v < m")
      case True
      with v b(1) show ?thesis by simp
    next
      case False
      have "safe (\<lambda>(v, r). v < max n 1) (obind (read_bits 1 r') (\<lambda>extra r.
        if 2 * v < m \<or> 2 * v \<ge> 2 ^ 32 then Panic else Done (2 * v - m + extra, r)))"
      proof (rule safe_obind [OF safe_read_bits])
        fix extra r assume "extra < (2::nat) ^ 1"
        moreover have "\<not> (2 * v < m \<or> 2 * v \<ge> 2 ^ 32)" using False v p pw by simp
        moreover have "2 * v - m + extra < n" using calculation v p b(2) False m_def by auto
        ultimately show "safe (\<lambda>(v, r). v < max n 1)
          (if 2 * v < m \<or> 2 * v \<ge> 2 ^ 32 then Panic else Done (2 * v - m + extra, r))" by simp
      qed
      with False show ?thesis by simp
    qed
  qed
  ultimately show ?thesis by simp
qed

section \<open>Layers and frame differences\<close>

definition layers_ok :: "(nat \<times> nat) list \<times> nat \<times> nat \<Rightarrow> bool" where
  "layers_ok l = (case l of (ls, mt, ms) \<Rightarrow>
    1 \<le> length ls \<and> length ls \<le> 64 \<and> list_all (\<lambda>(s, t). s \<le> ms \<and> t \<le> mt) ls)"

lemma safe_layers_loop:
  "length acc < 64 \<Longrightarrow> tid \<le> mt \<Longrightarrow> list_all (\<lambda>(s, t). s \<le> sid \<and> t \<le> mt) acc \<Longrightarrow>
    safe (\<lambda>(l, r). layers_ok l) (layers_loop tid sid mt acc r)"
proof (induction tid sid mt acc r rule: layers_loop.induct)
  case (1 tid sid mt acc r)
  let ?acc = "acc @ [(sid, tid)]"
  have ok: "list_all (\<lambda>(s, t). s \<le> s' \<and> t \<le> mt') ?acc" if "sid \<le> s'" "mt \<le> mt'" for s' mt'
    using 1(3,4) that by (auto simp: list_all_iff)
  show ?case
  proof (cases "read_bits 2 r")
    case (Done p)
    obtain idc r1 where p: "p = (idc, r1)" by fastforce
    have "idc < 4" using read_bits_less [of 2 r idc r1] Done p by simp
    then consider "idc = 0" | "idc = 1" | "idc = 2" | "idc = 3" by linarith
    then show ?thesis
    proof cases
      case 4
      have "layers_ok (?acc, mt, sid)" using ok [of sid mt] 1(2) by (simp add: layers_ok_def)
      then show ?thesis using Done p 4 by (simp add: layers_loop.simps [of tid])
    next
      case 3
      show ?thesis
      proof (cases "checked_add_u8 sid = None \<or> 64 \<le> length ?acc")
        case True
        then show ?thesis using Done p 3 by (subst layers_loop.simps) (auto split: option.split)
      next
        case False
        then have ca: "checked_add_u8 sid = Some (Suc sid)" by (auto simp: checked_add_u8_def split: if_splits)
        have "safe (\<lambda>(l, r). layers_ok l) (layers_loop 0 (Suc sid) mt ?acc r1)"
          by (rule 1(1) [OF refl Done p [symmetric]]) (use 3 ca False ok [of "Suc sid" mt] in \<open>simp_all\<close>)
        then show ?thesis using Done p 3 ca False by (subst layers_loop.simps) simp
      qed
    next
      case 2
      let ?mt = "if Suc tid > mt then Suc tid else mt"
      show ?thesis
      proof (cases "checked_add_u8 tid = None \<or> 64 \<le> length ?acc")
        case True
        then show ?thesis using Done p 2 by (subst layers_loop.simps) (auto split: option.split)
      next
        case False
        then have ca: "checked_add_u8 tid = Some (Suc tid)" by (auto simp: checked_add_u8_def split: if_splits)
        have "safe (\<lambda>(l, r). layers_ok l) (layers_loop (Suc tid) sid ?mt ?acc r1)"
          by (rule 1(1) [OF refl Done p [symmetric]]) (use 2 ca False ok [of sid ?mt] in \<open>simp_all\<close>)
        then show ?thesis using Done p 2 ca False by (subst layers_loop.simps) simp
      qed
    next
      case 1
      show ?thesis
      proof (cases "64 \<le> length ?acc")
        case True
        then show ?thesis using Done p 1 by (subst layers_loop.simps) simp
      next
        case False
        have "safe (\<lambda>(l, r). layers_ok l) (layers_loop tid sid mt ?acc r1)"
          by (rule "1.IH" [OF refl Done p [symmetric]])
             (use 1 False ok [of sid mt] \<open>tid \<le> mt\<close> in \<open>simp_all\<close>)
        then show ?thesis using Done p 1 False by (subst layers_loop.simps) simp
      qed
    qed
  qed (simp_all add: layers_loop.simps [of tid])
qed

lemma safe_layers: "safe (\<lambda>(l, r). layers_ok l) (parse_template_layers r)"
  unfolding parse_template_layers_def by (rule safe_layers_loop) simp_all

lemma safe_fdiffs_loop: "safe (\<lambda>(ds, r). length ds < 8) (fdiffs_loop acc r)"
proof (induction acc r rule: fdiffs_loop.induct)
  case (1 acc r)
  show ?case
  proof (cases "read_bits 4 r")
    case (Done p)
    obtain d r1 where p: "p = (d, r1)" by fastforce
    show ?thesis
    proof (cases "checked_add_u8 d")
      case (Some d')
      show ?thesis
      proof (cases "read_bool r1")
        case Panic
        then show ?thesis using safe_read_bool [of r1] by (simp add: safe_def)
      next
        case D2: (Done q)
        obtain follows r2 where q: "q = (follows, r2)" by fastforce
        have "safe (\<lambda>(ds, r). length ds < 8) (fdiffs_loop (acc @ [d']) r2)" if "\<not> 8 \<le> length (acc @ [d'])" "follows"
          using 1 [OF Done p [symmetric] Some D2 q [symmetric] refl] that by blast
        then show ?thesis using Done p Some D2 q by (subst fdiffs_loop.simps) (simp add: Let_def)
      qed (use Done p Some in \<open>simp add: fdiffs_loop.simps [of acc]\<close>)
    qed (use Done p in \<open>simp add: fdiffs_loop.simps [of acc]\<close>)
  qed (simp_all add: fdiffs_loop.simps [of acc])
qed

lemma safe_fdiffs: "safe (\<lambda>(ds, r). length ds < 8) (parse_template_fdiffs r)"
  unfolding parse_template_fdiffs_def
  by (rule safe_obind [OF safe_read_bool]) (simp add: safe_fdiffs_loop)

section \<open>Structure and descriptor\<close>

definition wf_template :: "template_dependency_structure \<Rightarrow> frame_dependency_template \<Rightarrow> bool" where
  "wf_template s t \<longleftrightarrow>
    tpl_temporal_id t \<le> max_temporal_id s \<and> tpl_spatial_id t \<le> max_spatial_id s \<and>
    length (tpl_dtis t) = dt_cnt s \<and> list_all (\<lambda>d. d < 4) (tpl_dtis t) \<and> length (tpl_fdiffs t) < 8 \<and>
    length (tpl_chain_fdiffs t) = chain_cnt s \<and> list_all (\<lambda>d. d < 16) (tpl_chain_fdiffs t)"

definition wf_structure :: "template_dependency_structure \<Rightarrow> bool" where
  "wf_structure s \<longleftrightarrow>
    template_count s = length (templates s) \<and> 1 \<le> template_count s \<and> template_count s \<le> 64 \<and>
    template_id_offset s < 64 \<and> 1 \<le> dt_cnt s \<and> dt_cnt s < 32 \<and> chain_cnt s \<le> dt_cnt s \<and>
    list_all (wf_template s) (templates s)"

lemma length_mk_templates:
  "length ds = length ls \<Longrightarrow> length fs = length ls \<Longrightarrow> length cs = length ls \<Longrightarrow>
    length (mk_templates ls ds fs cs) = length ls"
  by (induction ls ds fs cs rule: mk_templates.induct) auto

lemma mk_templates_all:
  "list_all (\<lambda>(s, t). s \<le> ms \<and> t \<le> mt) ls \<Longrightarrow> list_all D ds \<Longrightarrow> list_all F fs \<Longrightarrow> list_all C cs \<Longrightarrow>
    list_all (\<lambda>t. tpl_temporal_id t \<le> mt \<and> tpl_spatial_id t \<le> ms \<and> D (tpl_dtis t) \<and> F (tpl_fdiffs t) \<and>
      C (tpl_chain_fdiffs t)) (mk_templates ls ds fs cs)"
  by (induction ls ds fs cs rule: mk_templates.induct) auto

lemma safe_chains:
  assumes "cc < 2 ^ 31"
  shows "safe (\<lambda>(cs, r). length cs = n \<and> list_all (\<lambda>c. length c = cc \<and> list_all (\<lambda>d. d < 16) c) cs)
    (read_chains n dtc cc r)"
proof (cases "cc > 0")
  case True
  have "safe (\<lambda>(xs, r). length xs = cc \<and> list_all (\<lambda>d. d < 16) xs) (read_many (read_bits 4) cc r)" for r
    using safe_read_many [of "\<lambda>d. d < 2 ^ 4" "read_bits 4" cc r] safe_read_bits [of 4] by simp
  from safe_read_many [OF this] have s:
    "safe (\<lambda>(cs, r). length cs = n \<and> list_all (\<lambda>c. length c = cc \<and> list_all (\<lambda>d. d < 16) c) cs)
      (read_many (read_many (read_bits 4) cc) n r)" for r by simp
  show ?thesis unfolding read_chains_def if_P [OF True]
    by (rule safe_obind [OF safe_read_many [OF safe_read_ns [OF assms]]]) (rule s)
next
  case False
  then show ?thesis by (simp add: read_chains_def list_all_iff)
qed

lemma safe_skip_many: "safe (\<lambda>(u, r). True) (obind (read_many (read_bits k) n r) (\<lambda>_ r. Done ((), r)))"
  by (rule safe_obind [OF safe_read_many [OF safe_read_bits]]) simp

lemma safe_if: "safe Q x \<Longrightarrow> safe Q y \<Longrightarrow> safe Q (if b then x else y)"
  by simp

lemma safe_resolutions: "safe (\<lambda>(u, r). True) (read_resolutions m r)"
  unfolding read_resolutions_def
proof (rule safe_obind [OF safe_read_bool])
  fix present r'
  show "safe (\<lambda>(u, r). True) (if present then obind (read_many (read_bits 16) (2 * (m + 1)) r') (\<lambda>_ r. Done ((), r))
      else Done ((), r'))"
    by (rule safe_if, rule safe_skip_many) simp
qed

lemma safe_dtis:
  "safe (\<lambda>(xs, r). length xs = n \<and> list_all (\<lambda>d. length d = dtc \<and> list_all (\<lambda>x. x < 4) d) xs)
    (read_many (read_many (read_bits 2) dtc) n r)"
proof -
  have "safe (\<lambda>(d, r). length d = dtc \<and> list_all (\<lambda>x. x < 4) d) (read_many (read_bits 2) dtc r)" for r
    using safe_read_many [of "\<lambda>x. x < 2 ^ 2" "read_bits 2" dtc r] safe_read_bits [of 2] by simp
  from safe_read_many [OF this] show ?thesis .
qed

lemma safe_blocks:
  assumes ok: "layers_ok l" and off: "offset < 64" and dtc: "1 \<le> dtc" "dtc < 32"
  shows "safe (\<lambda>(s, r). wf_structure s) (read_blocks offset dtc l r)"
proof -
  obtain layers mt ms where l: "l = (layers, mt, ms)" by (cases l)
  let ?n = "length layers"
  have n: "?n mod 256 = ?n" "1 \<le> ?n" "?n \<le> 64" and le: "list_all (\<lambda>(s, t). s \<le> ms \<and> t \<le> mt) layers"
    using ok by (auto simp: l layers_ok_def)
  have ne: "?n mod 256 \<noteq> 0" using n by linarith
  have d31: "dtc + 1 < 2 ^ 31" using dtc by simp
  show ?thesis unfolding read_blocks_def l prod.case Let_def if_not_P [OF ne]
  proof (rule safe_obind [OF safe_dtis], rule safe_obind [OF safe_read_many [OF safe_fdiffs]],
      rule safe_obind [OF safe_read_ns [OF d31]])
    fix dtis fdiffs :: "nat list list" and cc :: nat and r3 :: reader
    assume d: "length dtis = ?n \<and> list_all (\<lambda>d. length d = dtc \<and> list_all (\<lambda>x. x < 4) d) dtis"
      and f: "length fdiffs = ?n \<and> list_all (\<lambda>d. length d < 8) fdiffs" and cc: "cc < max (dtc + 1) 1"
    have cc': "cc mod 256 = cc" and cs: "cc < 2 ^ 31" using cc dtc by simp_all
    show "safe (\<lambda>(s, r). wf_structure s) (obind (read_chains ?n dtc (cc mod 256) r3) (\<lambda>chains r.
        obind (read_resolutions ms r) (\<lambda>_ r.
          Done (\<lparr>template_id_offset = offset, template_count = ?n mod 256, dt_cnt = dtc,
                 chain_cnt = cc mod 256, max_temporal_id = mt, max_spatial_id = ms,
                 templates = mk_templates layers dtis fdiffs chains\<rparr>, r))))"
      unfolding cc'
    proof (rule safe_obind [OF safe_chains [OF cs]], rule safe_obind [OF safe_resolutions])
      fix chains :: "nat list list" and r5 :: reader
      assume c: "length chains = ?n \<and> list_all (\<lambda>c. length c = cc \<and> list_all (\<lambda>d. d < 16) c) chains"
      from mk_templates_all [OF le conjunct2 [OF d] conjunct2 [OF f] conjunct2 [OF c]]
      show "safe (\<lambda>(s, r). wf_structure s) (Done (\<lparr>template_id_offset = offset, template_count = ?n mod 256,
          dt_cnt = dtc, chain_cnt = cc, max_temporal_id = mt, max_spatial_id = ms,
          templates = mk_templates layers dtis fdiffs chains\<rparr>, r5))"
        using n off cc dtc length_mk_templates [of dtis layers fdiffs chains] d f c
        by (simp add: wf_structure_def wf_template_def list_all_iff)
    qed
  qed
qed

lemma safe_structure: "safe (\<lambda>(s, r). wf_structure s) (parse_template_dependency_structure r)"
  unfolding parse_template_dependency_structure_def
proof (rule safe_obind [OF safe_read_bits], rule safe_obind [OF safe_read_bits])
  fix offset dm :: nat and r' :: reader assume off: "offset < 2 ^ 6" and dm: "dm < 2 ^ 5"
  have ca: "checked_add_u8 dm = Some (dm + 1)" using dm by (simp add: checked_add_u8_def)
  show "safe (\<lambda>(s, r). wf_structure s) (case checked_add_u8 dm of None \<Rightarrow> Fail | Some dtc \<Rightarrow>
      if dtc \<ge> 32 then Fail else obind (parse_template_layers r') (read_blocks offset dtc))"
  proof (cases "dm + 1 \<ge> 32")
    case True
    then show ?thesis by (simp add: ca)
  next
    case False
    show ?thesis unfolding ca option.case if_not_P [OF False]
      by (rule safe_obind [OF safe_layers], rule safe_blocks) (use off False in simp_all)
  qed
qed

section \<open>Descriptor\<close>

lemma safe_skip_fdiffs: "safe (\<lambda>(u, r). True) (skip_fdiffs r)"
proof (induction r rule: skip_fdiffs.induct)
  case (1 r)
  show ?case
  proof (cases "read_bits 2 r")
    case (Done p)
    obtain sz r1 where p: "p = (sz, r1)" by fastforce
    show ?thesis
    proof (cases "sz = 0")
      case False
      show ?thesis
      proof (cases "read_bits (4 * sz) r1")
        case D2: (Done q)
        obtain v r2 where q: "q = (v, r2)" by fastforce
        have "skip_fdiffs r = skip_fdiffs r2" using Done p False D2 q by (subst skip_fdiffs.simps) simp
        with 1 [OF Done p [symmetric] False D2 q [symmetric]] show ?thesis by (simp only:)
      qed (use Done p False in \<open>simp_all add: skip_fdiffs.simps [of r]\<close>)
    qed (use Done p in \<open>simp add: skip_fdiffs.simps [of r]\<close>)
  qed (simp_all add: skip_fdiffs.simps [of r])
qed

lemma safe_overrides: "safe (\<lambda>(u, r). True) (read_overrides s a b c r)"
proof (cases s)
  case (Some x)
  have i: "safe (\<lambda>(u, r). True) (if P then y else Done ((), r'))" if "safe (\<lambda>(u, r). True) y" for P y and r' :: reader
    using that by (rule safe_if) simp
  show ?thesis unfolding read_overrides_def Some option.case
    by (rule safe_obind [where P = "\<lambda>_. True"], rule i, rule safe_skip_many,
        rule safe_obind [where P = "\<lambda>_. True"], rule i, rule safe_skip_fdiffs, rule i, rule safe_skip_many)
qed (simp add: read_overrides_def)

lemma safe_resolve:
  assumes "\<And>x. s = Some x \<Longrightarrow> wf_structure x"
  shows "safe (\<lambda>(t, sp). (s = None \<longrightarrow> t = None) \<and>
    (\<forall>x. s = Some x \<longrightarrow> (\<exists>a b. t = Some a \<and> sp = Some b \<and> a \<le> max_temporal_id x \<and> b \<le> max_spatial_id x)))
    (resolve_layer s tid)"
proof (cases s)
  case (Some x)
  with assms have wf: "wf_structure x" by simp
  let ?i = "(tid + 64 - template_id_offset x) mod 64"
  have "\<not> tid + 64 < template_id_offset x" using wf by (simp add: wf_structure_def)
  moreover have "wf_template x (templates x ! ?i)" if "?i < template_count x"
    using wf that by (simp add: wf_structure_def list_all_length)
  moreover have "template_count x = length (templates x)" using wf by (simp add: wf_structure_def)
  ultimately show ?thesis by (simp add: resolve_layer_def Some Let_def wf_template_def)
qed (simp add: resolve_layer_def)

lemma safe_extended:
  assumes "\<And>x. prior = Some x \<Longrightarrow> wf_structure x"
  shows "safe (\<lambda>((s, f), r). \<forall>x. s = Some x \<longrightarrow> wf_structure x) (read_extended prior r)"
proof -
  let ?Q = "\<lambda>((s :: template_dependency_structure option, f :: bool \<times> bool \<times> bool), r :: reader).
    \<forall>x. s = Some x \<longrightarrow> wf_structure x"
  have rd: "safe ?Q (obind (read_bits k r) (\<lambda>_ r. Done ((s, f), r)))" if "\<forall>x. s = Some x \<longrightarrow> wf_structure x" for k r s f
    by (rule safe_obind [OF safe_read_bits]) (use that in simp)
  show ?thesis unfolding read_extended_def
  proof (rule safe_obind [OF safe_read_bool], rule safe_obind [OF safe_read_bool], rule safe_obind [OF safe_read_bool],
      rule safe_obind [OF safe_read_bool], rule safe_obind [OF safe_read_bool])
    fix sp tp df ff cf and r5 :: reader
    have "safe ?Q (obind (parse_template_dependency_structure r5) (\<lambda>s r.
        if dt_cnt s \<ge> 32 then Panic
        else if tp then obind (read_bits (dt_cnt s) r) (\<lambda>_ r. Done ((Some s, df, ff, cf), r))
        else Done ((Some s, df, ff, cf), r)))"
    proof (rule safe_obind [OF safe_structure])
      fix s and r6 :: reader assume "wf_structure s"
      then show "safe ?Q (if dt_cnt s \<ge> 32 then Panic
        else if tp then obind (read_bits (dt_cnt s) r6) (\<lambda>_ r. Done ((Some s, df, ff, cf), r))
        else Done ((Some s, df, ff, cf), r6))"
        using rd [of "Some s" "dt_cnt s" r6 "(df, ff, cf)"] by (simp add: wf_structure_def)
    qed
    moreover have "safe ?Q (case prior of None \<Rightarrow> Fail | Some ps \<Rightarrow>
        obind (read_bits (dt_cnt ps) r5) (\<lambda>_ r. Done ((None, df, ff, cf), r)))"
      using rd [of None _ r5 "(df, ff, cf)"] by (cases prior) simp_all
    ultimately show "safe ?Q (if sp then obind (parse_template_dependency_structure r5) (\<lambda>s r.
        if dt_cnt s \<ge> 32 then Panic
        else if tp then obind (read_bits (dt_cnt s) r) (\<lambda>_ r. Done ((Some s, df, ff, cf), r))
        else Done ((Some s, df, ff, cf), r))
      else if tp then (case prior of None \<Rightarrow> Fail | Some ps \<Rightarrow>
        obind (read_bits (dt_cnt ps) r5) (\<lambda>_ r. Done ((None, df, ff, cf), r)))
      else Done ((None, df, ff, cf), r5))" by simp
  qed
qed

definition dd_ok :: "template_dependency_structure option \<Rightarrow> dependency_descriptor \<Rightarrow> bool" where
  "dd_ok prior d \<longleftrightarrow>
    frame_dependency_template_id d < 64 \<and> frame_number d < 65536 \<and>
    (\<forall>s. dd_structure d = Some s \<longrightarrow> wf_structure s) \<and>
    (case (case dd_structure d of Some s \<Rightarrow> Some s | None \<Rightarrow> prior) of
       None \<Rightarrow> dd_temporal_id d = None
     | Some s \<Rightarrow> \<exists>t sp. dd_temporal_id d = Some t \<and> t \<le> max_temporal_id s \<and>
         dd_spatial_id d = Some sp \<and> sp \<le> max_spatial_id s)"

lemma safe_descriptor:
  assumes prior: "\<And>x. prior = Some x \<Longrightarrow> wf_structure x"
  shows "safe (dd_ok prior) (parse_dependency_descriptor bytes prior)"
proof (cases "length bytes < 3")
  case True
  then show ?thesis by (simp add: parse_dependency_descriptor_def)
next
  case False
  have ext: "safe (\<lambda>((s, f), r). \<forall>x. s = Some x \<longrightarrow> wf_structure x)
      (if length bytes > 3 then read_extended prior r else Done ((None, False, False, False), r))" for r
    using safe_extended [OF prior] by simp
  have ext': "safe (\<lambda>(sf, r). \<forall>x. fst sf = Some x \<longrightarrow> wf_structure x)
      (if length bytes > 3 then read_extended prior r else Done ((None, False, False, False), r))" for r
    by (rule safe_mono [OF ext]) auto
  show ?thesis unfolding parse_dependency_descriptor_def if_not_P [OF False]
  proof (rule safe_obind [OF safe_read_bool], rule safe_obind [OF safe_read_bool], rule safe_obind [OF safe_read_bits],
      rule safe_obind [OF safe_read_bits], rule safe_obind [OF ext'], unfold split_beta)
    fix sof eof tid num and sf :: "template_dependency_structure option \<times> bool \<times> bool \<times> bool" and r5 :: reader
    assume tid: "tid < (2::nat) ^ 6" and num: "num < (2::nat) ^ 16" and wf: "\<forall>x. fst sf = Some x \<longrightarrow> wf_structure x"
    let ?res = "case fst sf of Some s \<Rightarrow> Some s | None \<Rightarrow> prior"
    have res: "\<And>x. ?res = Some x \<Longrightarrow> wf_structure x" using wf prior by (auto split: option.splits)
    have sr: "safe (\<lambda>(t, sp). (?res = None \<longrightarrow> t = None) \<and>
        (\<forall>x. ?res = Some x \<longrightarrow> (\<exists>a b. t = Some a \<and> sp = Some b \<and> a \<le> max_temporal_id x \<and> b \<le> max_spatial_id x)))
        (resolve_layer ?res tid)"
      by (rule safe_resolve) (rule res)
    have o: "safe Q (obind (read_overrides s a b c r5) (\<lambda>_ r. Done d))" if "Q d" for Q d s a b c
      by (rule safe_obind [OF safe_overrides]) (use that in simp)
    show "safe (dd_ok prior) (let resolve = ?res in
       case resolve_layer resolve tid of Panic \<Rightarrow> Panic | Fail \<Rightarrow> Fail
       | Done p \<Rightarrow> obind (read_overrides resolve (fst (snd sf)) (fst (snd (snd sf))) (snd (snd (snd sf))) r5) (\<lambda>_ r.
             Done \<lparr>start_of_frame = sof, end_of_frame = eof, frame_dependency_template_id = tid,
                   frame_number = num, dd_temporal_id = fst p, dd_spatial_id = snd p,
                   dd_structure = fst sf\<rparr>))"
    proof (cases "resolve_layer ?res tid")
      case Panic
      then show ?thesis using sr by (simp add: safe_def)
    next
      case (Done p)
      have "dd_ok prior \<lparr>start_of_frame = sof, end_of_frame = eof, frame_dependency_template_id = tid,
          frame_number = num, dd_temporal_id = fst p, dd_spatial_id = snd p, dd_structure = fst sf\<rparr>"
        using sr tid num wf unfolding Done safe_Done
        by (cases p) (auto simp: dd_ok_def split: option.splits)
      then show ?thesis unfolding Let_def Done out.case by (rule o)
    qed (simp add: Let_def)
  qed
qed

end
