(* ===== verification/Dd_Cache.thy ===== *)
theory Dd_Cache
  imports Dd_Safe
begin

text \<open>
  The per-subscriber cache of template structures, \<open>svc/dd_ext.rs\<close>: a map with a queue of its keys in
  insertion order, bounded by \<open>MAX_STREAMS\<close>.  The contract its clients rely on (what a lookup may
  return after each operation) is the locale \<open>bounded_cache\<close>, interpreted on the model below.
  Also here: the header extension serializer that carries the descriptor bytes of a packet.
\<close>

section \<open>Interface\<close>

text \<open>
  A bounded cache: a lookup returns the value last stored under the key or nothing, and only
  \<open>insert\<close> may forget a key.
\<close>

locale bounded_cache =
  fixes get :: "'k \<Rightarrow> 'c \<Rightarrow> 'v option"
    and ins :: "'k \<Rightarrow> 'v \<Rightarrow> 'c \<Rightarrow> 'c"
    and wipe :: "'c \<Rightarrow> 'c"
    and inv :: "'c \<Rightarrow> bool"
    and bound :: nat
  assumes get_ins_same: "inv c \<Longrightarrow> get k (ins k v c) = Some v"
    and get_ins_other: "inv c \<Longrightarrow> k' \<noteq> k \<Longrightarrow> get k' (ins k v c) = None \<or> get k' (ins k v c) = get k' c"
    and get_wipe: "get k (wipe c) = None"
    and inv_ins: "inv c \<Longrightarrow> inv (ins k v c)"
    and inv_wipe: "inv (wipe c)"
    and bounded: "inv c \<Longrightarrow> finite {k. get k c \<noteq> None} \<and> card {k. get k c \<noteq> None} \<le> bound"
begin

lemma get_ins: "inv c \<Longrightarrow> get k' (ins k v c) = Some w \<Longrightarrow> (k' = k \<and> w = v) \<or> (k' \<noteq> k \<and> get k' c = Some w)"
  using get_ins_same [of c k v] get_ins_other [of c k' k v] by (cases "k' = k") auto

lemma sound_ins:
  assumes "inv c" and "\<And>k w. get k c = Some w \<Longrightarrow> P k w" and "P k v"
  shows "get k' (ins k v c) = Some w \<Longrightarrow> P k' w"
  using get_ins [OF assms(1)] assms(2,3) by blast

definition runs :: "('k \<times> 'v) list \<Rightarrow> 'c \<Rightarrow> 'c" where
  "runs kvs c = fold (\<lambda>(k, v). ins k v) kvs c"

lemma inv_runs: "inv c \<Longrightarrow> inv (runs kvs c)"
  unfolding runs_def by (induction kvs arbitrary: c) (auto simp: inv_ins)

lemma runs_sound:
  "inv c \<Longrightarrow> get k (runs kvs c) = Some w \<Longrightarrow> map_of (rev kvs) k = Some w \<or> (map_of (rev kvs) k = None \<and> get k c = Some w)"
proof (induction kvs arbitrary: w rule: rev_induct)
  case (snoc kv kvs)
  obtain k1 v1 where kv: "kv = (k1, v1)" by (cases kv)
  from snoc.prems(2) have "get k (ins k1 v1 (runs kvs c)) = Some w" by (simp add: runs_def kv)
  from get_ins [OF inv_runs [OF snoc.prems(1)] this]
  show ?case using snoc.IH [OF snoc.prems(1)] by (auto simp: kv)
qed (simp add: runs_def)

end

section \<open>Structure cache\<close>

type_synonym stream_key = "nat \<times> string"

record dd_structure_cache =
  dc_map :: "stream_key \<Rightarrow> template_dependency_structure option"
  dc_order :: "stream_key list"

definition MAX_STREAMS :: nat where
  "MAX_STREAMS = 32"

definition dd_new :: dd_structure_cache where
  "dd_new = \<lparr>dc_map = (\<lambda>_. None), dc_order = []\<rparr>"

definition dd_get :: "stream_key \<Rightarrow> dd_structure_cache \<Rightarrow> template_dependency_structure option" where
  "dd_get key c = dc_map c key"

definition dd_insert ::
  "stream_key \<Rightarrow> template_dependency_structure \<Rightarrow> dd_structure_cache \<Rightarrow> dd_structure_cache" where
  "dd_insert key s c =
    (let c1 =
       (if dc_map c key = None then
          (let c0 =
             (if length (dc_order c) \<ge> MAX_STREAMS then
                (case dc_order c of
                   [] \<Rightarrow> c
                 | evicted # rst \<Rightarrow> c\<lparr>dc_order := rst, dc_map := (dc_map c)(evicted := None)\<rparr>)
              else c) in
           c0\<lparr>dc_order := dc_order c0 @ [key]\<rparr>)
        else c) in
     c1\<lparr>dc_map := (dc_map c1)(key \<mapsto> s)\<rparr>)"

definition dd_clear :: "dd_structure_cache \<Rightarrow> dd_structure_cache" where
  "dd_clear c = c\<lparr>dc_map := (\<lambda>_. None), dc_order := []\<rparr>"

text \<open>\<open>HashMap::len\<close>: every key of the map is in the queue, by the invariant below.\<close>

definition dd_len :: "dd_structure_cache \<Rightarrow> nat" where
  "dd_len c = length (filter (\<lambda>k. dc_map c k \<noteq> None) (remdups (dc_order c)))"

definition dd_is_empty :: "dd_structure_cache \<Rightarrow> bool" where
  "dd_is_empty c \<longleftrightarrow> dd_len c = 0"

text \<open>The queue lists exactly the keys of the map, once each, and is never longer than the bound.\<close>

definition dd_inv :: "dd_structure_cache \<Rightarrow> bool" where
  "dd_inv c \<longleftrightarrow> distinct (dc_order c) \<and> dom (dc_map c) = set (dc_order c) \<and> length (dc_order c) \<le> MAX_STREAMS"

lemma dd_inv_new [simp]: "dd_inv dd_new"
  by (simp add: dd_inv_def dd_new_def MAX_STREAMS_def)

lemma dd_inv_clear [simp]: "dd_inv (dd_clear c)"
  by (simp add: dd_inv_def dd_clear_def)

lemma dd_insert_present:
  "dc_map c k \<noteq> None \<Longrightarrow> dd_insert k s c = c\<lparr>dc_map := (dc_map c)(k \<mapsto> s)\<rparr>"
  by (auto simp: dd_insert_def Let_def)

lemma dd_insert_room:
  "dc_map c k = None \<Longrightarrow> length (dc_order c) < MAX_STREAMS \<Longrightarrow>
    dd_insert k s c = c\<lparr>dc_map := (dc_map c)(k \<mapsto> s), dc_order := dc_order c @ [k]\<rparr>"
  by (simp add: dd_insert_def)

lemma dd_insert_full:
  "dc_map c k = None \<Longrightarrow> length (dc_order c) \<ge> MAX_STREAMS \<Longrightarrow> dc_order c = e # rst \<Longrightarrow>
    dd_insert k s c = c\<lparr>dc_map := (dc_map c)(e := None, k \<mapsto> s), dc_order := rst @ [k]\<rparr>"
  by (simp add: dd_insert_def)

lemma dd_insert_cases:
  assumes "dd_inv c"
  obtains (present) "dc_map c k \<noteq> None" "dd_insert k s c = c\<lparr>dc_map := (dc_map c)(k \<mapsto> s)\<rparr>"
  | (room) "dc_map c k = None" "length (dc_order c) < MAX_STREAMS"
      "dd_insert k s c = c\<lparr>dc_map := (dc_map c)(k \<mapsto> s), dc_order := dc_order c @ [k]\<rparr>"
  | (full) e rst where "dc_map c k = None" "dc_order c = e # rst" "length (dc_order c) = MAX_STREAMS"
      "dd_insert k s c = c\<lparr>dc_map := (dc_map c)(e := None, k \<mapsto> s), dc_order := rst @ [k]\<rparr>"
proof (cases "dc_map c k = None")
  case True
  show thesis
  proof (cases "length (dc_order c) < MAX_STREAMS")
    case lt: True
    show thesis by (rule room [OF True lt dd_insert_room [OF True lt]])
  next
    case False
    then have eq: "length (dc_order c) = MAX_STREAMS" using assms by (simp add: dd_inv_def)
    then obtain e rst where o: "dc_order c = e # rst" by (cases "dc_order c") (auto simp: MAX_STREAMS_def)
    show thesis by (rule full [OF True o eq dd_insert_full [OF True _ o]]) (simp add: eq)
  qed
next
  case False
  show thesis by (rule present [OF False dd_insert_present [OF False]])
qed

lemma dd_inv_insert: "dd_inv c \<Longrightarrow> dd_inv (dd_insert k s c)"
proof -
  assume inv: "dd_inv c"
  then have d: "distinct (dc_order c)" "dom (dc_map c) = set (dc_order c)" "length (dc_order c) \<le> MAX_STREAMS"
    by (simp_all add: dd_inv_def)
  from inv show ?thesis
  proof (cases rule: dd_insert_cases [where k = k and s = s])
    case present
    then have "k \<in> set (dc_order c)" using d(2) by blast
    then show ?thesis using d present by (simp add: dd_inv_def insert_absorb)
  next
    case room
    then have "k \<notin> set (dc_order c)" using d(2) by blast
    then show ?thesis using d room by (simp add: dd_inv_def)
  next
    case (full e rst)
    then have "k \<notin> set (dc_order c)" using d(2) by blast
    then have k: "k \<noteq> e" "k \<notin> set rst" using full(2) by auto
    have e: "e \<notin> set rst" "distinct rst" using d(1) full(2) by auto
    have dm: "dom (dc_map c) = insert e (set rst)" using d(2) full(2) by simp
    then have "dom ((dc_map c)(e := None, k \<mapsto> s)) = insert k (set rst)"
      using e by (auto simp: dom_def)
    then show ?thesis using full k e by (simp add: dd_inv_def)
  qed
qed

interpretation dcache: bounded_cache dd_get dd_insert dd_clear dd_inv MAX_STREAMS
proof unfold_locales
  fix c k k' and s :: template_dependency_structure
  show "dd_get k (dd_clear c) = None" by (simp add: dd_get_def dd_clear_def)
  assume inv: "dd_inv c"
  show "dd_get k (dd_insert k s c) = Some s"
    using inv by (cases rule: dd_insert_cases [where k = k and s = s]) (simp_all add: dd_get_def)
  show "dd_inv (dd_insert k s c)" by (rule dd_inv_insert [OF inv])
  have "{k. dd_get k c \<noteq> None} = set (dc_order c)"
    using inv by (auto simp: dd_inv_def dd_get_def dom_def)
  then show "finite {k. dd_get k c \<noteq> None} \<and> card {k. dd_get k c \<noteq> None} \<le> MAX_STREAMS"
    using inv by (simp add: dd_inv_def distinct_card)
  assume ne: "k' \<noteq> k"
  show "dd_get k' (dd_insert k s c) = None \<or> dd_get k' (dd_insert k s c) = dd_get k' c"
    using inv ne by (cases rule: dd_insert_cases [where k = k and s = s]) (auto simp: dd_get_def)
qed simp_all

lemma dd_len_order: "dd_inv c \<Longrightarrow> dd_len c = length (dc_order c)"
proof -
  assume inv: "dd_inv c"
  then have "filter (\<lambda>k. dc_map c k \<noteq> None) (dc_order c) = dc_order c"
    by (intro filter_True) (auto simp: dd_inv_def)
  with inv show ?thesis by (simp add: dd_len_def dd_inv_def distinct_remdups_id)
qed

section \<open>Reference: a bounded first-in first-out list\<close>

text \<open>
  The cache as an association list in order of first insertion: storing under a known key replaces in
  place, storing under a new key appends and drops the oldest entries beyond the bound.
\<close>

type_synonym fifo = "(stream_key \<times> template_dependency_structure) list"

definition fifo_insert :: "stream_key \<Rightarrow> template_dependency_structure \<Rightarrow> fifo \<Rightarrow> fifo" where
  "fifo_insert k s l =
    (if k \<in> fst ` set l then map (\<lambda>(k', s'). (k', if k' = k then s else s')) l
     else drop (length l + 1 - MAX_STREAMS) (l @ [(k, s)]))"

definition dd_abs :: "dd_structure_cache \<Rightarrow> fifo" where
  "dd_abs c = map (\<lambda>k. (k, the (dc_map c k))) (dc_order c)"

lemma fst_dd_abs: "fst ` set (dd_abs c) = set (dc_order c)"
  by (force simp: dd_abs_def)

lemma map_of_dd_abs: "dd_inv c \<Longrightarrow> map_of (dd_abs c) k = dd_get k c"
proof -
  assume inv: "dd_inv c"
  have "map_of (map (\<lambda>k. (k, the (dc_map c k))) ks) k = (if k \<in> set ks then Some (the (dc_map c k)) else None)" for ks
    by (induction ks) auto
  moreover have "k \<in> set (dc_order c) \<longleftrightarrow> (\<exists>s. dc_map c k = Some s)"
    using inv by (auto simp: dd_inv_def dom_def)
  ultimately show ?thesis by (cases "dc_map c k") (simp_all add: dd_abs_def dd_get_def)
qed

lemma dd_abs_insert: "dd_inv c \<Longrightarrow> dd_abs (dd_insert k s c) = fifo_insert k s (dd_abs c)"
proof -
  assume inv: "dd_inv c"
  then have d: "distinct (dc_order c)" "dom (dc_map c) = set (dc_order c)" "length (dc_order c) \<le> MAX_STREAMS"
    by (simp_all add: dd_inv_def)
  from inv show ?thesis
  proof (cases rule: dd_insert_cases [where k = k and s = s])
    case present
    then have "k \<in> set (dc_order c)" using d(2) by blast
    then show ?thesis using present by (auto simp: dd_abs_def fifo_insert_def image_image)
  next
    case room
    then have k: "k \<notin> set (dc_order c)" using d(2) by blast
    then have "k \<notin> fst ` set (dd_abs c)" by (simp add: fst_dd_abs)
    moreover have "map (\<lambda>x. (x, the (((dc_map c)(k \<mapsto> s)) x))) (dc_order c) = dd_abs c"
      unfolding dd_abs_def using k by (intro map_cong) auto
    ultimately show ?thesis using room by (simp add: fifo_insert_def) (simp add: dd_abs_def)
  next
    case (full e rst)
    then have k: "k \<notin> set (dc_order c)" using d(2) by blast
    have "k \<notin> fst ` set (dd_abs c)" using k by (simp add: fst_dd_abs)
    moreover have "map (\<lambda>x. (x, the (((dc_map c)(e := None, k \<mapsto> s)) x))) rst = map (\<lambda>k. (k, the (dc_map c k))) rst"
      using k d(1) full(2) by (intro map_cong) auto
    ultimately show ?thesis using full by (simp add: fifo_insert_def) (simp add: dd_abs_def)
  qed
qed

section \<open>Header extension\<close>

text \<open>
  \<open>DdSerializer\<close>: the extension values of a packet hold at most one descriptor, and \<open>write_to\<close> copies
  it to the front of the buffer when it fits.
\<close>

definition dd_parse_value :: "byte list \<Rightarrow> byte list option \<Rightarrow> bool \<times> byte list option" where
  "dd_parse_value buf ev = (if buf = [] then (False, ev) else (True, Some buf))"

definition dd_write_to :: "byte list \<Rightarrow> byte list option \<Rightarrow> nat \<times> byte list" where
  "dd_write_to buf ev =
    (case ev of
       None \<Rightarrow> (0, buf)
     | Some dd \<Rightarrow>
         (let n = length dd in
          if n = 0 \<or> length buf < n then (0, buf) else (n, dd @ drop n buf)))"


lemma dd_ext_copy:
  "buf \<noteq> [] \<Longrightarrow> length buf \<le> length out \<Longrightarrow>
    dd_write_to out (snd (dd_parse_value buf ev)) = (length buf, buf @ drop (length buf) out)"
  by (simp add: dd_write_to_def dd_parse_value_def Let_def)

section \<open>A structure is read the same whatever was cached\<close>

lemma obind_Done: "obind x f = Done y \<longleftrightarrow> (\<exists>a r. x = Done (a, r) \<and> f a r = Done y)"
  by (cases x) (auto simp: obind_def)

lemma read_extended_own:
  assumes "read_extended prior r = Done ((Some s, f), r')"
  shows "read_extended prior' r = Done ((Some s, f), r')"
proof -
  from assms obtain sp r1 tp r2 a r3 b r4 c r5 where
    r: "read_bool r = Done (sp, r1)" "read_bool r1 = Done (tp, r2)" "read_bool r2 = Done (a, r3)"
      "read_bool r3 = Done (b, r4)" "read_bool r4 = Done (c, r5)"
    unfolding read_extended_def obind_Done by blast
  show ?thesis
  proof (cases sp)
    case True
    with assms r show ?thesis by (simp add: read_extended_def obind_def)
  next
    case False
    with assms r show ?thesis
      by (auto simp: read_extended_def obind_Done obind_def split: if_splits option.splits out.splits)
  qed
qed

lemma parse_own_structure:
  assumes "parse_dependency_descriptor bytes prior = Done d" and "dd_structure d = Some s"
  shows "parse_dependency_descriptor bytes prior' = Done d"
proof -
  have l: "\<not> length bytes < 3" using assms(1) by (auto simp: parse_dependency_descriptor_def)
  note P = assms(1) [unfolded parse_dependency_descriptor_def if_not_P [OF l] obind_Done]
  from P obtain sof r1 eof r2 tid r3 num r4 e r5 where
    r: "read_bool (new_reader bytes) = Done (sof, r1)" "read_bool r1 = Done (eof, r2)"
      "read_bits 6 r2 = Done (tid, r3)" "read_bits 16 r3 = Done (num, r4)"
    and ext: "(if length bytes > 3 then read_extended prior r4 else Done ((None, False, False, False), r4)) = Done (e, r5)"
    by blast
  obtain s' x y z where e: "e = (s', x, y, z)" by (cases e)
  have "s' = Some s"
    using assms r ext l unfolding parse_dependency_descriptor_def e
    by (auto simp: obind_def Let_def split: out.splits prod.splits)
  then have big: "3 < length bytes" and ext': "read_extended prior r4 = Done ((Some s, x, y, z), r5)"
    using ext e by (simp_all split: if_splits)
  have "parse_dependency_descriptor bytes prior = parse_dependency_descriptor bytes prior'"
    using r l big ext' read_extended_own [OF ext', of prior']
    unfolding parse_dependency_descriptor_def by (simp add: obind_def)
  with assms(1) show ?thesis by simp
qed

section \<open>Properties\<close>

text \<open>C5: On every byte sequence, and with any well-formed structure cached for the stream, the
  descriptor parser does not panic: it fails softly or returns a descriptor in which the template id
  and frame number are within their field widths, an attached structure is well formed, and the
  temporal and spatial ids are known exactly when a structure is available and then within the
  maxima of that structure.\<close>

theorem parse_dd_never_panics:
  assumes "\<And>x. prior = Some x \<Longrightarrow> wf_structure x"
  shows "parse_dependency_descriptor bytes prior \<noteq> Panic \<and>
    (\<forall>d. parse_dependency_descriptor bytes prior = Done d \<longrightarrow> dd_ok prior d)"
  using safe_descriptor [of prior bytes, OF assms] by (auto simp: safe_def)

definition demo_template :: "nat \<Rightarrow> frame_dependency_template" where
  "demo_template t = \<lparr>tpl_temporal_id = t, tpl_spatial_id = 0, tpl_dtis = [2, 2], tpl_fdiffs = [],
    tpl_chain_fdiffs = [0]\<rparr>"

definition demo_structure :: template_dependency_structure where
  "demo_structure = \<lparr>template_id_offset = 0, template_count = 2, dt_cnt = 2, chain_cnt = 1,
    max_temporal_id = 1, max_spatial_id = 0, templates = [demo_template 0, demo_template 1]\<rparr>"

lemma wf_demo_structure: "wf_structure demo_structure"
  by (simp add: wf_structure_def wf_template_def demo_structure_def demo_template_def)

lemmas bits_exec = bits_of_def upt_rec [of 0] upt_conv_Cons bit_numeral_rec

lemmas dd_exec = parse_dependency_descriptor_def read_bool_def read_bits_eq obind_def new_reader_def
  remaining_def total_bits_def rest_def bits_val_def resolve_layer_def read_overrides_def

lemma demo_parse:
  "parse_dependency_descriptor [0xC1, 0, 7] (Some demo_structure) =
    Done \<lparr>start_of_frame = True, end_of_frame = True, frame_dependency_template_id = 1, frame_number = 7,
      dd_temporal_id = Some 1, dd_spatial_id = Some 0, dd_structure = None\<rparr>"
  by (simp add: dd_exec bits_exec demo_structure_def demo_template_def)

theorem parse_dd_never_panics_witness:
  "parse_dependency_descriptor [0xC1, 0, 7] (Some demo_structure) \<noteq> Panic \<and>
    (\<exists>d. parse_dependency_descriptor [0xC1, 0, 7] (Some demo_structure) = Done d \<and>
      dd_temporal_id d = Some 1 \<and> dd_ok (Some demo_structure) d)"
  using parse_dd_never_panics [where prior = "Some demo_structure" and bytes = "[0xC1, 0, 7]"] wf_demo_structure
  by (simp add: demo_parse)

text \<open>The bit reader, which assembles a value bit by bit over a byte buffer with 32-bit shifts,
  agrees with the reference reading of the buffer as one list of bits, most significant first: it
  fails exactly on more than 32 bits or past the end, and otherwise returns the value of the next
  \<open>n\<close> bits and advances by \<open>n\<close>.\<close>

theorem read_bits_reference:
  "read_bits n r =
    (if n > 32 \<or> length (rest r) < n then Fail
     else Done (bits_val (take n (rest r)), r\<lparr>bit_pos := bit_pos r + n\<rparr>))"
  by (simp add: read_bits_eq)

text \<open>C26: Over any sequence of insertions into a new cache, the map with its queue of keys implements
  the bounded first-in first-out list: a lookup is the lookup in that list, the length is the length
  of the list and never exceeds \<open>MAX_STREAMS\<close>.\<close>

theorem dd_cache_refines_fifo:
  fixes kvs
  defines "c \<equiv> fold (\<lambda>(k, s). dd_insert k s) kvs dd_new"
    and "l \<equiv> fold (\<lambda>(k, s). fifo_insert k s) kvs []"
  shows "dd_abs c = l \<and> dd_get k c = map_of l k \<and> dd_len c = length l \<and> dd_len c \<le> MAX_STREAMS"
proof -
  have i: "dd_inv (fold (\<lambda>(k, s). dd_insert k s) kvs c0) \<and>
      dd_abs (fold (\<lambda>(k, s). dd_insert k s) kvs c0) = fold (\<lambda>(k, s). fifo_insert k s) kvs (dd_abs c0)"
    if "dd_inv c0" for c0
    using that by (induction kvs arbitrary: c0) (auto simp: dd_inv_insert dd_abs_insert)
  have "dd_abs dd_new = []" by (simp add: dd_abs_def dd_new_def)
  with i [of dd_new] have inv: "dd_inv c" and abs: "dd_abs c = l"
    by (simp_all add: c_def l_def)
  moreover have "length (dd_abs c) = length (dc_order c)" by (simp add: dd_abs_def)
  ultimately show ?thesis
    using map_of_dd_abs [OF inv, of k] dd_len_order [OF inv] by (simp add: dd_inv_def)
qed

end
