(* ===== verification/Sfu_Client.thy ===== *)
theory Sfu_Client
  imports Dd_Cache
begin

text \<open>
  The per-peer state of the SFU: \<open>client/mod.rs\<close>, \<open>client/tracks.rs\<close>, \<open>client/layer.rs\<close>,
  \<open>client/construct.rs\<close>, \<open>pacer.rs\<close>, \<open>pacer_floor.rs\<close>, \<open>bwe_temporal_cap.rs\<close> and the events of
  \<open>propagate.rs\<close>.

  The WebRTC stack (str0m) and the pacer of the media kit are third-party code: their states are the
  type parameters \<open>'r\<close> and \<open>'p\<close> of the client and their operations are the fields of \<open>rtc_api\<close>, an
  argument of the operations that call them.  A reference-counted \<open>TrackIn\<close> is an address of an
  explicit store; \<open>Weak::upgrade\<close> is the lookup in that store, so a publisher that left is an address
  the store no longer has.  Instants are nanoseconds.  The counters a client updates are a log.
\<close>

section \<open>Identifiers and media\<close>

type_synonym rid = string
type_synonym mid = string
type_synonym client_id = nat
type_synonym channel_id = nat
type_synonym instant = nat
type_synonym payload = "byte list"

definition LOW :: rid where "LOW = ''q       ''"
definition MEDIUM :: rid where "MEDIUM = ''h       ''"
definition HIGH :: rid where "HIGH = ''f       ''"

lemma layer_distinct [simp]:
  "LOW \<noteq> MEDIUM" "MEDIUM \<noteq> LOW" "LOW \<noteq> HIGH" "HIGH \<noteq> LOW" "MEDIUM \<noteq> HIGH" "HIGH \<noteq> MEDIUM"
  by (simp_all add: LOW_def MEDIUM_def HIGH_def)

definition secs :: "nat \<Rightarrow> nat" where
  "secs n = n * 1000000000"

datatype media_kind = Audio | Video

datatype codec = Av1 | Vp9 | Other_Codec

record media_data =
  md_mid :: mid
  md_rid :: "rid option"
  md_params :: nat
  md_codec :: codec
  md_dd :: "byte list option"
  md_is_keyframe :: bool
  md_contiguous :: bool
  md_data :: payload
  md_audio_level :: "int option"
  md_video_time :: "nat option"

text \<open>\<open>md_video_time\<close> is the RTP time of a packet whose codec is a video codec.\<close>

definition layer_matches :: "rid \<Rightarrow> media_data \<Rightarrow> bool" where
  "layer_matches desired d = (case md_rid d of None \<Rightarrow> True | Some r \<Rightarrow> r = desired)"

definition rid_label_for :: "rid \<Rightarrow> string" where
  "rid_label_for r =
    (if r = LOW then ''q'' else if r = MEDIUM then ''h'' else if r = HIGH then ''f'' else ''other'')"

section \<open>Tracks\<close>

record track_in =
  ti_origin :: client_id
  ti_mid :: mid
  ti_kind :: media_kind
  ti_external_peer_id :: "nat option"

type_synonym track_ref = nat
type_synonym track_store = "track_ref \<Rightarrow> track_in option"

record track_in_entry =
  te_ref :: track_ref
  te_mid :: mid
  last_keyframe_request :: "instant option"

datatype track_out_state = ToOpen | Negotiating mid | Open mid

record track_out =
  to_track_in :: track_ref
  to_state :: track_out_state

definition track_out_mid :: "track_out \<Rightarrow> mid option" where
  "track_out_mid o1 = (case to_state o1 of ToOpen \<Rightarrow> None | Negotiating _ \<Rightarrow> None | Open m \<Rightarrow> Some m)"

definition is_negotiating :: "track_out \<Rightarrow> bool" where
  "is_negotiating o1 = (case to_state o1 of Negotiating _ \<Rightarrow> True | _ \<Rightarrow> False)"

section \<open>Propagated events\<close>

datatype suspend_tier = AudioNormal | AudioLow | VideoMax

datatype keyframe_kind = Pli | Fir

record keyframe_request =
  kr_mid :: mid
  kr_rid :: "rid option"
  kr_kind :: keyframe_kind

text \<open>
  \<open>Propagated\<close>.  The confidence of a speaker change is kept as the text of its three-digit rendering,
  the only form in which the SFU uses it.
\<close>

datatype propagated =
    Noop
  | Timeout instant
  | TrackOpen client_id track_ref
  | MediaData client_id media_data
  | KeyframeRequest client_id keyframe_request client_id mid
  | ActiveSpeakerChanged nat string
  | BandwidthEstimate client_id nat
  | ClientBudgetHint client_id nat
  | TopSpeakers "nat list"
  | AudioCodecHint nat bool bool
  | VfmLayerCap client_id nat
  | PublisherLayerHint client_id rid
  | MarkRelaySource client_id string
  | UpstreamKeyframeRequest client_id keyframe_request mid
  | PublisherLayerHintForUpstream client_id rid
  | ChatData client_id payload
  | ChatCtrl client_id payload
  | VoiceData client_id payload
  | KeysData client_id payload
  | PeerSuspended client_id suspend_tier

fun prop_client_id :: "propagated \<Rightarrow> client_id option" where
  "prop_client_id (TrackOpen c _) = Some c"
| "prop_client_id (MediaData c _) = Some c"
| "prop_client_id (KeyframeRequest c _ _ _) = Some c"
| "prop_client_id (BandwidthEstimate c _) = Some c"
| "prop_client_id (ClientBudgetHint c _) = Some c"
| "prop_client_id (ChatData c _) = Some c"
| "prop_client_id (ChatCtrl c _) = Some c"
| "prop_client_id (VoiceData c _) = Some c"
| "prop_client_id (KeysData c _) = Some c"
| "prop_client_id (PeerSuspended c _) = Some c"
| "prop_client_id (VfmLayerCap c _) = Some c"
| "prop_client_id (PublisherLayerHint c _) = Some c"
| "prop_client_id _ = None"

definition as_wire_str :: "suspend_tier \<Rightarrow> string" where
  "as_wire_str t =
    (case t of AudioNormal \<Rightarrow> ''audio-normal'' | AudioLow \<Rightarrow> ''audio-low'' | VideoMax \<Rightarrow> ''video-max'')"

section \<open>Metrics\<close>

datatype metric =
    Inc string "string list"
  | IncBy string "string list" nat
  | Dec string "string list"
  | SetGauge string "string list" nat
  | Observe string nat
  | RemoveLabels string "string list"

section \<open>Third-party operations\<close>

datatype rtc_error = WriteWithoutPoll | OtherRtcError

datatype reliability = Reliable | MaxRetransmits nat | MaxPacketLifetime nat

record channel_config =
  cc_label :: string
  cc_ordered :: bool
  cc_reliability :: reliability
  cc_negotiated :: "nat option"

datatype pacer_action =
    NoChange
  | ChangeLayer rid
  | SuspendVideo
  | GoAudioOnly
  | RestoreAudio
  | RestoreVideo
  | OtherAction

text \<open>
  The operations of str0m and of the kit's pacer that the SFU calls.  \<open>add_media\<close> stands for
  \<open>sdp_api\<close>, \<open>add_media\<close> and \<open>apply\<close>: the mid it allocates and, unless \<open>apply\<close> returned nothing, the
  offer text and the handle of the pending offer.
\<close>

record ('r, 'p) rtc_api =
  rtc_is_alive :: "'r \<Rightarrow> bool"
  rtc_disconnect :: "'r \<Rightarrow> 'r"
  rtc_writer :: "'r \<Rightarrow> mid \<Rightarrow> bool"
  rtc_match_params :: "'r \<Rightarrow> mid \<Rightarrow> nat \<Rightarrow> nat option"
  rtc_write :: "'r \<Rightarrow> mid \<Rightarrow> nat \<Rightarrow> media_data \<Rightarrow> rtc_error option \<times> 'r"
  rtc_request_keyframe :: "'r \<Rightarrow> mid \<Rightarrow> rid option \<Rightarrow> keyframe_kind \<Rightarrow> 'r"
  rtc_add_media :: "'r \<Rightarrow> media_kind \<Rightarrow> string \<Rightarrow> mid \<times> (string \<times> nat) option \<times> 'r"
  rtc_answer_parses :: "string \<Rightarrow> bool"
  rtc_accept_answer :: "'r \<Rightarrow> nat \<Rightarrow> string \<Rightarrow> bool \<times> 'r"
  rtc_create_channel :: "'r \<Rightarrow> channel_config \<Rightarrow> channel_id \<times> 'r"
  rtc_channel :: "'r \<Rightarrow> channel_id \<Rightarrow> bool"
  rtc_channel_label :: "'r \<Rightarrow> channel_id \<Rightarrow> string option"
  rtc_buffered_amount :: "'r \<Rightarrow> channel_id \<Rightarrow> nat"
  rtc_channel_write :: "'r \<Rightarrow> channel_id \<Rightarrow> payload \<Rightarrow> bool \<times> 'r"
  kit_pacer_update :: "'p \<Rightarrow> nat \<Rightarrow> pacer_action \<times> 'p"

section \<open>Client\<close>

datatype ws_frame =
    OfferRenegotiate string mid
  | TracksMapUpdate mid nat string string
  | TracksMap "(string \<times> nat) list"

text \<open>A bounded queue of frames to the browser: \<open>try_send\<close> fails when it is full or closed.\<close>

record ws_chan =
  wc_capacity :: nat
  wc_queue :: "ws_frame list"
  wc_closed :: bool

datatype send_error = Full | Closed

definition try_send :: "ws_frame \<Rightarrow> ws_chan \<Rightarrow> send_error option \<times> ws_chan" where
  "try_send f ch =
    (if wc_closed ch then (Some Closed, ch)
     else if length (wc_queue ch) \<ge> wc_capacity ch then (Some Full, ch)
     else (None, ch\<lparr>wc_queue := wc_queue ch @ [f]\<rparr>))"

datatype ws_client_ctrl = AnswerRenegotiate string string

text \<open>The receiving half: the messages that arrived and whether the sender is gone.\<close>

record ws_ctrl =
  wr_queue :: "ws_client_ctrl list"
  wr_disconnected :: bool

record keyframe_wait =
  kw_origin :: client_id
  kw_mid_in :: mid
  kw_started_at :: instant
  kw_last_request_at :: instant
  kw_attempts :: nat

datatype client_origin = Local | RelayFromSfu string

text \<open>An outbound datagram, as the transport hands it out.\<close>

datatype ip_addr = V4 "32 word" | V6 "128 word"

record socket_addr =
  sa_ip :: ip_addr
  sa_port :: nat

record transmit =
  destination :: socket_addr
  contents :: payload

text \<open>
  The order of \<open>active_rids\<close> is the iteration order of the source's hash set.  \<open>close_signal\<close> says whether
  the one-shot sender towards the session task is still held.
\<close>

record ('r, 'p) client =
  cl_id :: client_id
  rtc :: 'r
  tracks_in :: "track_in_entry list"
  tracks_out :: "track_out list"
  chosen_rid :: "rid option"
  last_switch_keyframe_request :: "rid \<Rightarrow> instant option"
  desired_layer :: rid
  active_rids :: "rid list"
  pending_out :: "transmit list"
  metrics :: "metric list"
  delivered_media :: nat
  active_speaker_cid :: channel_id
  keys_dc_cid :: "channel_id option"
  chat_data_cid :: "channel_id option"
  chat_ctrl_cid :: "channel_id option"
  voice_data_cid :: "channel_id option"
  reactions_dc_cid :: "channel_id option"
  reactions_dc_opened :: bool
  sfu_events_cid :: "channel_id option"
  last_emitted_tier :: "suspend_tier option"
  pending_tier_emit :: "suspend_tier option"
  relay_source_pending :: "(channel_id \<times> string \<times> string) option"
  cl_origin :: client_origin
  relay_auth_secret :: "string option"
  relay_signing_pubkey :: "string option"
  relay_hs256_fallback_enabled :: bool
  max_vfm_temporal_layer :: nat
  bwe_vfm_temporal_cap :: nat
  bwe_cap_audio_only_bps :: nat
  bwe_cap_low_min_bps :: nat
  dd_cache :: dd_structure_cache
  ws_msg_tx :: "ws_chan option"
  ws_ctrl_rx :: "ws_ctrl option"
  pending_offer :: "nat option"
  renegotiation_queue :: "track_ref list"
  pending_offer_at :: "instant option"
  external_peer_id :: "nat option"
  close_signal :: bool
  pacer :: 'p
  last_pacer_tick :: "instant option"
  keyframe_waits :: "keyframe_wait list"
  pending_propagated :: "propagated list"

definition bump :: "metric \<Rightarrow> ('r, 'p) client \<Rightarrow> ('r, 'p) client" where
  "bump m c = c\<lparr>metrics := metrics c @ [m]\<rparr>"

definition client_label :: "('r, 'p) client \<Rightarrow> string" where
  "client_label c = show_nat (cl_id c)"

section \<open>Construction\<close>

record pacer_config =
  suspend_video_bps :: nat
  audio_only_bps :: nat
  low_min_bps :: nat
  medium_min_bps :: nat
  high_min_bps :: nat
  upgrade_streak :: nat
  suspend_streak :: nat

definition SOFTENED_SUSPEND_STREAK :: nat where
  "SOFTENED_SUSPEND_STREAK = 3"

text \<open>\<open>read_env\<close> of \<open>pacer_floor.rs\<close> and \<open>bwe_temporal_cap.rs\<close>: set only by the text \<open>1\<close>.\<close>

definition flag_enabled :: "string option \<Rightarrow> bool" where
  "flag_enabled var = (var = Some ''1'')"

definition oxpulse_partner_edge_pacer_config :: "pacer_config \<Rightarrow> bool \<Rightarrow> pacer_config" where
  "oxpulse_partner_edge_pacer_config dflt floor =
    (let cfg = dflt\<lparr>audio_only_bps := 100000, medium_min_bps := 500000, high_min_bps := 1500000\<rparr> in
     if floor then cfg\<lparr>suspend_streak := SOFTENED_SUSPEND_STREAK\<rparr> else cfg)"

definition new_client ::
  "('r, 'p) rtc_api \<Rightarrow> (pacer_config \<Rightarrow> 'p) \<Rightarrow> pacer_config \<Rightarrow> client_id \<Rightarrow> 'r \<Rightarrow> ('r, 'p) client" where
  "new_client api with_config cfg cid r =
    (case rtc_create_channel api r \<lparr>cc_label = ''sfu-active-speaker'', cc_ordered = True,
            cc_reliability = Reliable, cc_negotiated = Some 3\<rparr> of (asc, r') \<Rightarrow>
     \<lparr>cl_id = cid, rtc = r', tracks_in = [], tracks_out = [], chosen_rid = None,
      last_switch_keyframe_request = (\<lambda>_. None), desired_layer = LOW, active_rids = [], pending_out = [], metrics = [],
      delivered_media = 0, active_speaker_cid = asc, keys_dc_cid = None, chat_data_cid = None,
      chat_ctrl_cid = None, voice_data_cid = None, reactions_dc_cid = None, reactions_dc_opened = False,
      sfu_events_cid = None, last_emitted_tier = None, pending_tier_emit = None, relay_source_pending = None,
      cl_origin = Local, relay_auth_secret = None, relay_signing_pubkey = None,
      relay_hs256_fallback_enabled = True,
      max_vfm_temporal_layer = 255, bwe_vfm_temporal_cap = 255,
      bwe_cap_audio_only_bps = audio_only_bps cfg, bwe_cap_low_min_bps = low_min_bps cfg,
      dd_cache = dd_new, ws_msg_tx = None, ws_ctrl_rx = None, pending_offer = None,
      renegotiation_queue = [], pending_offer_at = None, external_peer_id = None, close_signal = False,
      pacer = with_config cfg, last_pacer_tick = None, keyframe_waits = [], pending_propagated = []\<rparr>)"

definition with_chat_dcs :: "('r, 'p) rtc_api \<Rightarrow> ('r, 'p) client \<Rightarrow> ('r, 'p) client" where
  "with_chat_dcs api c =
    (case rtc_create_channel api (rtc c) \<lparr>cc_label = ''chat-data'', cc_ordered = True,
            cc_reliability = Reliable, cc_negotiated = Some 4\<rparr> of (d, r1) \<Rightarrow>
     case rtc_create_channel api r1 \<lparr>cc_label = ''chat-ctrl'', cc_ordered = False,
            cc_reliability = MaxRetransmits 0, cc_negotiated = Some 5\<rparr> of (k, r2) \<Rightarrow>
     bump (Inc ''chat_relay_active_channels'' [''ctrl''])
       (bump (Inc ''chat_relay_active_channels'' [''data''])
         (c\<lparr>rtc := r2, chat_data_cid := Some d, chat_ctrl_cid := Some k\<rparr>)))"

definition with_voice_dc :: "('r, 'p) rtc_api \<Rightarrow> nat \<Rightarrow> ('r, 'p) client \<Rightarrow> ('r, 'p) client" where
  "with_voice_dc api lifetime c =
    (case rtc_create_channel api (rtc c) \<lparr>cc_label = ''voice'', cc_ordered = False,
            cc_reliability = MaxPacketLifetime lifetime, cc_negotiated = Some 6\<rparr> of (v, r1) \<Rightarrow>
     bump (Inc ''voice_relay_active_channels'' [''voice'']) (c\<lparr>rtc := r1, voice_data_cid := Some v\<rparr>))"

definition with_reactions_dc :: "('r, 'p) rtc_api \<Rightarrow> ('r, 'p) client \<Rightarrow> ('r, 'p) client" where
  "with_reactions_dc api c =
    (case rtc_create_channel api (rtc c) \<lparr>cc_label = ''reactions-group'', cc_ordered = True,
            cc_reliability = MaxPacketLifetime 1000, cc_negotiated = Some 7\<rparr> of (v, r1) \<Rightarrow>
     c\<lparr>rtc := r1, reactions_dc_cid := Some v\<rparr>)"

definition with_keys_dc :: "('r, 'p) rtc_api \<Rightarrow> ('r, 'p) client \<Rightarrow> ('r, 'p) client" where
  "with_keys_dc api c =
    (case rtc_create_channel api (rtc c) \<lparr>cc_label = ''sframe-keys'', cc_ordered = True,
            cc_reliability = Reliable, cc_negotiated = Some 1\<rparr> of (v, r1) \<Rightarrow>
     c\<lparr>rtc := r1, keys_dc_cid := Some v\<rparr>)"

definition with_sfu_events_dc :: "('r, 'p) rtc_api \<Rightarrow> ('r, 'p) client \<Rightarrow> ('r, 'p) client" where
  "with_sfu_events_dc api c =
    (case rtc_create_channel api (rtc c) \<lparr>cc_label = ''sfu-events'', cc_ordered = False,
            cc_reliability = MaxRetransmits 0, cc_negotiated = Some 8\<rparr> of (v, r1) \<Rightarrow>
     c\<lparr>rtc := r1, sfu_events_cid := Some v\<rparr>)"

definition with_external_peer_id :: "nat \<Rightarrow> ('r, 'p) client \<Rightarrow> ('r, 'p) client" where
  "with_external_peer_id pid c = c\<lparr>external_peer_id := Some pid\<rparr>"

definition with_close_signal :: "('r, 'p) client \<Rightarrow> ('r, 'p) client" where
  "with_close_signal c = c\<lparr>close_signal := True\<rparr>"

definition with_ws_msg_tx :: "ws_chan \<Rightarrow> ('r, 'p) client \<Rightarrow> ('r, 'p) client" where
  "with_ws_msg_tx tx c = c\<lparr>ws_msg_tx := Some tx\<rparr>"

definition with_ws_ctrl_rx :: "ws_ctrl \<Rightarrow> ('r, 'p) client \<Rightarrow> ('r, 'p) client" where
  "with_ws_ctrl_rx rx c = c\<lparr>ws_ctrl_rx := Some rx\<rparr>"

text \<open>A relay connection to an upstream SFU: its channel, the upstream URL and the room token.\<close>

definition new_outbound_relay ::
  "('r, 'p) rtc_api \<Rightarrow> (pacer_config \<Rightarrow> 'p) \<Rightarrow> pacer_config \<Rightarrow> client_id \<Rightarrow> 'r
    \<Rightarrow> channel_id \<Rightarrow> string \<Rightarrow> string \<Rightarrow> ('r, 'p) client" where
  "new_outbound_relay api with_config cfg cid r dc_id upstream_url upstream_room_token =
    (new_client api with_config cfg cid r)
      \<lparr>cl_origin := RelayFromSfu upstream_url, relay_source_pending := Some (dc_id, upstream_url, upstream_room_token)\<rparr>"

section \<open>Accessors\<close>

definition is_relay :: "('r, 'p) client \<Rightarrow> bool" where
  "is_relay c = (case cl_origin c of Local \<Rightarrow> False | RelayFromSfu _ \<Rightarrow> True)"

definition set_origin :: "client_origin \<Rightarrow> ('r, 'p) client \<Rightarrow> ('r, 'p) client" where
  "set_origin og c = c\<lparr>cl_origin := og\<rparr>"

definition set_desired_layer :: "rid \<Rightarrow> ('r, 'p) client \<Rightarrow> ('r, 'p) client" where
  "set_desired_layer r c = c\<lparr>desired_layer := r, chosen_rid := None\<rparr>"

definition pacer_tick_ready :: "instant \<Rightarrow> nat \<Rightarrow> ('r, 'p) client \<Rightarrow> bool \<times> ('r, 'p) client" where
  "pacer_tick_ready now min_interval c =
    (case last_pacer_tick c of
       Some t \<Rightarrow>
         if now - t < min_interval then (False, c) else (True, c\<lparr>last_pacer_tick := Some now\<rparr>)
     | None \<Rightarrow> (True, c\<lparr>last_pacer_tick := Some now\<rparr>))"


section \<open>A concrete stack\<close>

text \<open>A small transport, used to evaluate the model: it accepts everything and counts its calls.\<close>

definition demo_api :: "(nat, nat) rtc_api" where
  "demo_api = \<lparr>rtc_is_alive = (\<lambda>_. True), rtc_disconnect = (\<lambda>r. r), rtc_writer = (\<lambda>_ _. True),
    rtc_match_params = (\<lambda>_ _ p. Some p), rtc_write = (\<lambda>r _ _ _. (None, r + 1)),
    rtc_request_keyframe = (\<lambda>r _ _ _. r + 1),
    rtc_add_media = (\<lambda>r _ _. (''m'' @ replicate r CHR ''0'', Some (''v=0'', r), r + 1)),
    rtc_answer_parses = (\<lambda>s. s \<noteq> []), rtc_accept_answer = (\<lambda>r _ _. (True, r)),
    rtc_create_channel = (\<lambda>r _. (r, r + 1)), rtc_channel = (\<lambda>_ _. True),
    rtc_channel_label = (\<lambda>_ _. None), rtc_buffered_amount = (\<lambda>_ _. 0),
    rtc_channel_write = (\<lambda>r _ _. (True, r + 1)), kit_pacer_update = (\<lambda>p _. (NoChange, p))\<rparr>"

definition demo_config :: pacer_config where
  "demo_config = \<lparr>suspend_video_bps = 50000, audio_only_bps = 80000, low_min_bps = 150000,
    medium_min_bps = 350000, high_min_bps = 700000, upgrade_streak = 3, suspend_streak = 2\<rparr>"

definition demo_client :: "(nat, nat) client" where
  "demo_client = new_client demo_api (\<lambda>_. 0) (oxpulse_partner_edge_pacer_config demo_config False) 1 0"

lemmas demo_simps = demo_client_def new_client_def demo_api_def demo_config_def
  oxpulse_partner_edge_pacer_config_def Let_def

end
