(* ===== verification/Sfu_Keyframe.thy ===== *)
theory Sfu_Keyframe
  imports Sfu_Client
begin

text \<open>
  Keyframe requests, \<open>client/keyframe.rs\<close>: the throttled requests towards a publisher, the request on a
  layer switch, the translation of a subscriber's request, and the subscribe-triggered loop that
  repeats a request until a keyframe is observed or its budget is spent.  An operation reads the clock
  once, as its \<open>now\<close> argument.
\<close>

section \<open>Operations\<close>

definition KEYFRAME_REQUEST_MIN_GAP :: nat where
  "KEYFRAME_REQUEST_MIN_GAP = secs 1"

definition KEYFRAME_SUBSCRIBE_MAX_ATTEMPTS :: nat where
  "KEYFRAME_SUBSCRIBE_MAX_ATTEMPTS = 5"

definition KEYFRAME_SUBSCRIBE_DEADLINE :: nat where
  "KEYFRAME_SUBSCRIBE_DEADLINE = secs 10"

definition recently :: "instant \<Rightarrow> instant option \<Rightarrow> bool" where
  "recently now t = (case t of None \<Rightarrow> False | Some t \<Rightarrow> now - t < KEYFRAME_REQUEST_MIN_GAP)"

text \<open>\<open>iter_mut().find(p)\<close> followed by an update of the entry found.\<close>

fun update_first :: "('a \<Rightarrow> bool) \<Rightarrow> ('a \<Rightarrow> 'a) \<Rightarrow> 'a list \<Rightarrow> 'a list" where
  "update_first p f [] = []"
| "update_first p f (x # xs) = (if p x then f x # xs else x # update_first p f xs)"

definition mark_requested :: "instant \<Rightarrow> mid \<Rightarrow> ('r, 'p) client \<Rightarrow> ('r, 'p) client" where
  "mark_requested now m c =
    c\<lparr>tracks_in := update_first (\<lambda>t. te_mid t = m) (\<lambda>t. t\<lparr>last_keyframe_request := Some now\<rparr>) (tracks_in c)\<rparr>"

definition request_keyframe_throttled ::
  "('r, 'p) rtc_api \<Rightarrow> instant \<Rightarrow> mid \<Rightarrow> rid option \<Rightarrow> keyframe_kind \<Rightarrow> ('r, 'p) client \<Rightarrow> ('r, 'p) client" where
  "request_keyframe_throttled api now m r kind c =
    (if \<not> rtc_writer api (rtc c) m then c
     else
       (case find (\<lambda>t. te_mid t = m) (tracks_in c) of
          None \<Rightarrow> c
        | Some entry \<Rightarrow>
            if recently now (last_keyframe_request entry) then c
            else mark_requested now m (c\<lparr>rtc := rtc_request_keyframe api (rtc c) m r kind\<rparr>)))"

definition switch_requests :: "track_store \<Rightarrow> rid \<Rightarrow> ('r, 'p) client \<Rightarrow> propagated list" where
  "switch_requests st new_rid c =
    concat (map (\<lambda>o1. case st (to_track_in o1) of
        None \<Rightarrow> []
      | Some t \<Rightarrow>
          if ti_kind t \<noteq> Video then []
          else [KeyframeRequest (cl_id c) \<lparr>kr_mid = ti_mid t, kr_rid = Some new_rid, kr_kind = Pli\<rparr>
                  (ti_origin t) (ti_mid t)]) (tracks_out c))"

definition emit_keyframe_on_layer_switch ::
  "instant \<Rightarrow> track_store \<Rightarrow> rid \<Rightarrow> ('r, 'p) client \<Rightarrow> propagated list \<Rightarrow> ('r, 'p) client \<times> propagated list" where
  "emit_keyframe_on_layer_switch now st new_rid c q =
    (if recently now (last_switch_keyframe_request c new_rid) then (c, q)
     else
       (let c1 = c\<lparr>last_switch_keyframe_request := (last_switch_keyframe_request c)(new_rid \<mapsto> now)\<rparr>;
            c2 = bump (Inc ''sfu_keyframe_on_switch_total'' [rid_label_for new_rid]) c1 in
        (c2, q @ switch_requests st new_rid c2)))"

definition incoming_keyframe_req :: "track_store \<Rightarrow> ('r, 'p) client \<Rightarrow> keyframe_request \<Rightarrow> propagated" where
  "incoming_keyframe_req st c req =
    (case find (\<lambda>t. track_out_mid t = Some (kr_mid req)) (tracks_out c) of
       None \<Rightarrow> Noop
     | Some track_out \<Rightarrow>
         (case st (to_track_in track_out) of
            None \<Rightarrow> Noop
          | Some t \<Rightarrow> KeyframeRequest (cl_id c) (req\<lparr>kr_rid := chosen_rid c\<rparr>) (ti_origin t) (ti_mid t)))"

definition handle_keyframe_request ::
  "('r, 'p) rtc_api \<Rightarrow> instant \<Rightarrow> keyframe_request \<Rightarrow> mid \<Rightarrow> ('r, 'p) client \<Rightarrow> ('r, 'p) client" where
  "handle_keyframe_request api now req mid_in c =
    (case find (\<lambda>t. te_mid t = mid_in) (tracks_in c) of
       None \<Rightarrow> c
     | Some entry \<Rightarrow>
         if recently now (last_keyframe_request entry) then c
         else
           (let c1 = mark_requested now mid_in c in
            if \<not> rtc_writer api (rtc c1) mid_in then c1
            else c1\<lparr>rtc := rtc_request_keyframe api (rtc c1) mid_in (kr_rid req) (kr_kind req)\<rparr>))"

section \<open>Subscribe-triggered loop\<close>

definition wait_key :: "keyframe_wait \<Rightarrow> client_id \<times> mid" where
  "wait_key w = (kw_origin w, kw_mid_in w)"

definition pli_for :: "('r, 'p) client \<Rightarrow> client_id \<Rightarrow> mid \<Rightarrow> propagated" where
  "pli_for c og m = KeyframeRequest (cl_id c) \<lparr>kr_mid = m, kr_rid = chosen_rid c, kr_kind = Pli\<rparr> og m"

definition start_keyframe_wait :: "instant \<Rightarrow> client_id \<Rightarrow> mid \<Rightarrow> ('r, 'p) client \<Rightarrow> ('r, 'p) client" where
  "start_keyframe_wait now og mid_in c =
    (if (og, mid_in) \<in> wait_key ` set (keyframe_waits c) then c
     else
       (let c1 = bump (Inc ''sfu_keyframe_on_subscribe_requests_total'' [''initial''])
              (c\<lparr>pending_propagated := pending_propagated c @ [pli_for c og mid_in]\<rparr>) in
        c1\<lparr>keyframe_waits := keyframe_waits c1 @
              [\<lparr>kw_origin = og, kw_mid_in = mid_in, kw_started_at = now, kw_last_request_at = now,
                kw_attempts = 1\<rparr>]\<rparr>))"

definition open_video_tracks :: "track_store \<Rightarrow> track_out list \<Rightarrow> (client_id \<times> mid) list" where
  "open_video_tracks st os =
    List.map_filter (\<lambda>o1. case st (to_track_in o1) of
        None \<Rightarrow> None
      | Some t \<Rightarrow> if ti_kind t \<noteq> Video then None else Some (ti_origin t, ti_mid t))
      (filter (\<lambda>o1. case to_state o1 of Open _ \<Rightarrow> True | _ \<Rightarrow> False) os)"

definition start_keyframe_waits_for_open_video_tracks ::
  "instant \<Rightarrow> track_store \<Rightarrow> ('r, 'p) client \<Rightarrow> ('r, 'p) client" where
  "start_keyframe_waits_for_open_video_tracks now st c =
    fold (\<lambda>(og, m). start_keyframe_wait now og m) (open_video_tracks st (tracks_out c)) c"

definition publisher_alive :: "track_store \<Rightarrow> track_out list \<Rightarrow> keyframe_wait \<Rightarrow> bool" where
  "publisher_alive st os w =
    list_ex (\<lambda>o1. case st (to_track_in o1) of
        None \<Rightarrow> False
      | Some t \<Rightarrow> ti_origin t = kw_origin w \<and> ti_mid t = kw_mid_in w) os"

datatype wait_verdict = Remove string | Keep | Retry

definition pump_verdict :: "instant \<Rightarrow> track_store \<Rightarrow> track_out list \<Rightarrow> keyframe_wait \<Rightarrow> wait_verdict" where
  "pump_verdict now st os w =
    (if now - kw_started_at w \<ge> KEYFRAME_SUBSCRIBE_DEADLINE then Remove ''budget_exhausted''
     else if kw_attempts w \<ge> KEYFRAME_SUBSCRIBE_MAX_ATTEMPTS then Remove ''budget_exhausted''
     else if now - kw_last_request_at w < KEYFRAME_REQUEST_MIN_GAP then Keep
     else if \<not> publisher_alive st os w then Remove ''publisher_gone''
     else Retry)"

text \<open>
  The scan: the waits that stay (with a retry recorded), the outcomes of those to remove, and the
  client with the retries queued.
\<close>

fun pump_scan ::
  "instant \<Rightarrow> track_store \<Rightarrow> keyframe_wait list \<Rightarrow> ('r, 'p) client
    \<Rightarrow> keyframe_wait list \<times> string list \<times> ('r, 'p) client" where
  "pump_scan now st [] c = ([], [], c)"
| "pump_scan now st (w # ws) c =
    (case pump_verdict now st (tracks_out c) w of
       Remove outcome \<Rightarrow>
         (case pump_scan now st ws c of (kept, removed, c') \<Rightarrow> (kept, outcome # removed, c'))
     | Keep \<Rightarrow> (case pump_scan now st ws c of (kept, removed, c') \<Rightarrow> (w # kept, removed, c'))
     | Retry \<Rightarrow>
         (let c1 = bump (Inc ''sfu_keyframe_on_subscribe_requests_total'' [''retry''])
               (c\<lparr>pending_propagated := pending_propagated c @ [pli_for c (kw_origin w) (kw_mid_in w)]\<rparr>);
              w1 = w\<lparr>kw_last_request_at := now, kw_attempts := kw_attempts w + 1\<rparr> in
          case pump_scan now st ws c1 of (kept, removed, c') \<Rightarrow> (w1 # kept, removed, c')))"

definition pump_keyframe_waits :: "instant \<Rightarrow> track_store \<Rightarrow> ('r, 'p) client \<Rightarrow> ('r, 'p) client" where
  "pump_keyframe_waits now st c =
    (case pump_scan now st (keyframe_waits c) c of (kept, removed, c') \<Rightarrow>
       c'\<lparr>keyframe_waits := kept,
          metrics := metrics c' @
            map (\<lambda>o1. Inc ''sfu_keyframe_on_subscribe_outcome_total'' [o1]) (rev removed)\<rparr>)"

definition terminate_waits ::
  "instant \<Rightarrow> client_id \<Rightarrow> mid \<Rightarrow> string \<Rightarrow> bool \<Rightarrow> ('r, 'p) client \<Rightarrow> ('r, 'p) client" where
  "terminate_waits now og m outcome record_time c =
    (let matching = filter (\<lambda>w. wait_key w = (og, m)) (keyframe_waits c) in
     if matching = [] then c
     else c\<lparr>keyframe_waits := filter (\<lambda>w. wait_key w \<noteq> (og, m)) (keyframe_waits c),
            metrics := metrics c @ concat (map (\<lambda>w.
              Inc ''sfu_keyframe_on_subscribe_outcome_total'' [outcome] #
              (if record_time
               then [Observe ''sfu_keyframe_on_subscribe_time_to_first_seconds'' (now - kw_started_at w)]
               else [])) (rev matching))\<rparr>)"

definition observe_keyframe :: "instant \<Rightarrow> client_id \<Rightarrow> media_data \<Rightarrow> ('r, 'p) client \<Rightarrow> ('r, 'p) client" where
  "observe_keyframe now og d c =
    (if md_is_keyframe d then terminate_waits now og (md_mid d) ''observed'' True c
     else if md_codec d = Av1 \<or> md_codec d = Vp9
     then terminate_waits now og (md_mid d) ''codec_unobservable'' False c
     else c)"

section \<open>One wait per publisher track\<close>

definition waits_ok :: "('r, 'p) client \<Rightarrow> bool" where
  "waits_ok c \<longleftrightarrow> distinct (map wait_key (keyframe_waits c)) \<and>
    list_all (\<lambda>w. 1 \<le> kw_attempts w \<and> kw_attempts w \<le> KEYFRAME_SUBSCRIBE_MAX_ATTEMPTS) (keyframe_waits c)"

lemma waits_ok_start: "waits_ok c \<Longrightarrow> waits_ok (start_keyframe_wait now og m c)"
  by (simp add: waits_ok_def start_keyframe_wait_def bump_def wait_key_def KEYFRAME_SUBSCRIBE_MAX_ATTEMPTS_def)

lemma waits_ok_start_all: "waits_ok c \<Longrightarrow> waits_ok (start_keyframe_waits_for_open_video_tracks now st c)"
proof -
  have "waits_ok (fold (\<lambda>(og, m). start_keyframe_wait now og m) ks c)" if "waits_ok c" for ks c
    using that by (induction ks arbitrary: c) (auto intro: waits_ok_start)
  then show "waits_ok c \<Longrightarrow> ?thesis" by (simp add: start_keyframe_waits_for_open_video_tracks_def)
qed

lemma waits_ok_terminate: "waits_ok c \<Longrightarrow> waits_ok (terminate_waits now og m out b c)"
  by (auto simp: waits_ok_def terminate_waits_def Let_def distinct_map_filter list_all_iff)

lemma waits_ok_observe: "waits_ok c \<Longrightarrow> waits_ok (observe_keyframe now og d c)"
  by (simp add: observe_keyframe_def waits_ok_terminate)

text \<open>The scan reads only the tracks, the id and the chosen layer of the client, and queues retries.\<close>

definition queue_retry :: "keyframe_wait \<Rightarrow> ('r, 'p) client \<Rightarrow> ('r, 'p) client" where
  "queue_retry w c = bump (Inc ''sfu_keyframe_on_subscribe_requests_total'' [''retry''])
    (c\<lparr>pending_propagated := pending_propagated c @ [pli_for c (kw_origin w) (kw_mid_in w)]\<rparr>)"

definition retried :: "instant \<Rightarrow> keyframe_wait \<Rightarrow> keyframe_wait" where
  "retried now w = w\<lparr>kw_last_request_at := now, kw_attempts := kw_attempts w + 1\<rparr>"

lemma pump_scan_Cons_cases:
  assumes "pump_scan now st (w # ws) c = (kept, removed, c')"
  obtains (remove) out removed' where "pump_verdict now st (tracks_out c) w = Remove out"
      "removed = out # removed'" "pump_scan now st ws c = (kept, removed', c')"
  | (keep) kept' where "pump_verdict now st (tracks_out c) w = Keep"
      "kept = w # kept'" "pump_scan now st ws c = (kept', removed, c')"
  | (retry) kept' where "pump_verdict now st (tracks_out c) w = Retry"
      "kept = retried now w # kept'" "pump_scan now st ws (queue_retry w c) = (kept', removed, c')"
  using assms
  by (cases "pump_verdict now st (tracks_out c) w")
    (auto simp: Let_def queue_retry_def retried_def split: prod.splits)

lemma queue_retry_simps [simp]:
  "tracks_out (queue_retry w c) = tracks_out c" "keyframe_waits (queue_retry w c) = keyframe_waits c"
  "chosen_rid (queue_retry w c) = chosen_rid c" "cl_id (queue_retry w c) = cl_id c" "rtc (queue_retry w c) = rtc c"
  "pending_propagated (queue_retry w c) = pending_propagated c @ [pli_for c (kw_origin w) (kw_mid_in w)]"
  by (simp_all add: queue_retry_def bump_def)

lemma retried_simps [simp]:
  "wait_key (retried now w) = wait_key w" "kw_attempts (retried now w) = kw_attempts w + 1"
  "kw_started_at (retried now w) = kw_started_at w" "kw_last_request_at (retried now w) = now"
  by (simp_all add: retried_def wait_key_def)

lemma pump_verdict_Retry: "pump_verdict now st os w = Retry \<Longrightarrow> kw_attempts w < KEYFRAME_SUBSCRIBE_MAX_ATTEMPTS"
  by (simp add: pump_verdict_def split: if_splits)

lemma pump_scan_frame:
  "pump_scan now st ws c = (kept, removed, c') \<Longrightarrow>
    tracks_out c' = tracks_out c \<and> keyframe_waits c' = keyframe_waits c \<and> chosen_rid c' = chosen_rid c \<and>
    cl_id c' = cl_id c \<and> rtc c' = rtc c"
proof (induction ws arbitrary: c kept removed c')
  case (Cons w ws)
  from Cons.prems show ?case by (cases rule: pump_scan_Cons_cases) (use Cons.IH in fastforce)+
qed simp

lemma pump_scan_keys:
  "pump_scan now st ws c = (kept, removed, c') \<Longrightarrow>
    wait_key ` set kept \<subseteq> wait_key ` set ws \<and> (distinct (map wait_key ws) \<longrightarrow> distinct (map wait_key kept))"
proof (induction ws arbitrary: c kept removed c')
  case (Cons w ws)
  from Cons.prems show ?case
  proof (cases rule: pump_scan_Cons_cases)
    case remove
    then show ?thesis using Cons.IH [OF remove(3)] by auto
  next
    case keep
    then show ?thesis using Cons.IH [OF keep(3)] by auto
  next
    case retry
    then show ?thesis using Cons.IH [OF retry(3)] by auto
  qed
qed simp

lemma pump_scan_attempts:
  "pump_scan now st ws c = (kept, removed, c') \<Longrightarrow>
    list_all (\<lambda>w. 1 \<le> kw_attempts w \<and> kw_attempts w \<le> KEYFRAME_SUBSCRIBE_MAX_ATTEMPTS) ws \<Longrightarrow>
    list_all (\<lambda>w. 1 \<le> kw_attempts w \<and> kw_attempts w \<le> KEYFRAME_SUBSCRIBE_MAX_ATTEMPTS) kept"
proof (induction ws arbitrary: c kept removed c')
  case (Cons w ws)
  from Cons.prems(1) show ?case
  proof (cases rule: pump_scan_Cons_cases)
    case retry
    then show ?thesis using Cons.IH [OF retry(3)] Cons.prems(2) pump_verdict_Retry [OF retry(1)] by simp
  qed (use Cons in auto)
qed simp

lemma waits_ok_pump: "waits_ok c \<Longrightarrow> waits_ok (pump_keyframe_waits now st c)"
proof -
  assume ok: "waits_ok c"
  obtain kept removed c' where s: "pump_scan now st (keyframe_waits c) c = (kept, removed, c')"
    by (cases "pump_scan now st (keyframe_waits c) c")
  have "distinct (map wait_key kept)"
    using pump_scan_keys [OF s] ok by (simp add: waits_ok_def)
  with pump_scan_attempts [OF s] ok show ?thesis
    by (simp add: pump_keyframe_waits_def s waits_ok_def)
qed


section \<open>Request budget\<close>

text \<open>The requests the waits of a client may still emit.\<close>

definition budget_left :: "keyframe_wait list \<Rightarrow> nat" where
  "budget_left ws = sum_list (map (\<lambda>w. KEYFRAME_SUBSCRIBE_MAX_ATTEMPTS - kw_attempts w) ws)"

lemma pump_scan_budget:
  "pump_scan now st ws c = (kept, removed, c') \<Longrightarrow>
    \<exists>ps. pending_propagated c' = pending_propagated c @ ps \<and> length ps + budget_left kept \<le> budget_left ws"
proof (induction ws arbitrary: c kept removed c')
  case (Cons w ws)
  from Cons.prems show ?case
  proof (cases rule: pump_scan_Cons_cases)
    case remove
    from Cons.IH [OF remove(3)] show ?thesis by (force simp: budget_left_def)
  next
    case keep
    from Cons.IH [OF keep(3)] keep(2) show ?thesis by (force simp: budget_left_def)
  next
    case (retry kept')
    from Cons.IH [OF retry(3)] obtain ps where
      "pending_propagated c' = pending_propagated c @ pli_for c (kw_origin w) (kw_mid_in w) # ps"
      "length ps + budget_left kept' \<le> budget_left ws" by auto
    then show ?thesis using retry(2) pump_verdict_Retry [OF retry(1)]
      by (intro exI [of _ "pli_for c (kw_origin w) (kw_mid_in w) # ps"]) (auto simp: budget_left_def)
  qed
qed simp

lemma pump_budget:
  "\<exists>ps. pending_propagated (pump_keyframe_waits now st c) = pending_propagated c @ ps \<and>
    length ps + budget_left (keyframe_waits (pump_keyframe_waits now st c)) \<le> budget_left (keyframe_waits c)"
proof -
  obtain kept removed c' where s: "pump_scan now st (keyframe_waits c) c = (kept, removed, c')"
    by (cases "pump_scan now st (keyframe_waits c) c")
  from pump_scan_budget [OF s] show ?thesis by (simp add: pump_keyframe_waits_def s)
qed

definition pump_run :: "(instant \<times> track_store) list \<Rightarrow> ('r, 'p) client \<Rightarrow> ('r, 'p) client" where
  "pump_run ts c = fold (\<lambda>(now, st). pump_keyframe_waits now st) ts c"

lemma pump_run_budget:
  "\<exists>ps. pending_propagated (pump_run ts c) = pending_propagated c @ ps \<and>
    length ps + budget_left (keyframe_waits (pump_run ts c)) \<le> budget_left (keyframe_waits c)"
proof (induction ts arbitrary: c)
  case (Cons t ts)
  obtain now st where t: "t = (now, st)" by (cases t)
  from pump_budget [of now st c] obtain ps where
    1: "pending_propagated (pump_keyframe_waits now st c) = pending_propagated c @ ps"
      "length ps + budget_left (keyframe_waits (pump_keyframe_waits now st c)) \<le> budget_left (keyframe_waits c)"
    by blast
  from Cons.IH [of "pump_keyframe_waits now st c"] obtain qs where
    2: "pending_propagated (pump_run ts (pump_keyframe_waits now st c)) = pending_propagated c @ ps @ qs"
      "length qs + budget_left (keyframe_waits (pump_run ts (pump_keyframe_waits now st c)))
        \<le> budget_left (keyframe_waits (pump_keyframe_waits now st c))"
    using 1(1) by auto
  then show ?case using 1(2) by (intro exI [of _ "ps @ qs"]) (simp add: pump_run_def t)
qed (simp add: pump_run_def)

section \<open>The loop ends\<close>

text \<open>A pump at least one gap after the last request of every wait removes the wait or counts an attempt.\<close>

lemma pump_scan_progress:
  "pump_scan now st ws c = (kept, removed, c') \<Longrightarrow>
    \<forall>w \<in> set ws. k \<le> kw_attempts w \<and> kw_last_request_at w + KEYFRAME_REQUEST_MIN_GAP \<le> now \<Longrightarrow>
    \<forall>w \<in> set kept. Suc k \<le> kw_attempts w \<and> kw_last_request_at w = now \<and> k < KEYFRAME_SUBSCRIBE_MAX_ATTEMPTS"
proof (induction ws arbitrary: c kept removed c')
  case (Cons w ws)
  from Cons.prems(1) show ?case
  proof (cases rule: pump_scan_Cons_cases)
    case remove
    then show ?thesis using Cons.IH [OF remove(3)] Cons.prems(2) by auto
  next
    case keep
    then show ?thesis using Cons.prems(2) by (simp add: pump_verdict_def split: if_splits)
  next
    case retry
    then show ?thesis using Cons.IH [OF retry(3)] Cons.prems(2) pump_verdict_Retry [OF retry(1)] by auto
  qed
qed simp

lemma pump_progress:
  assumes "\<forall>w \<in> set (keyframe_waits c). k \<le> kw_attempts w \<and> kw_last_request_at w + KEYFRAME_REQUEST_MIN_GAP \<le> now"
  shows "\<forall>w \<in> set (keyframe_waits (pump_keyframe_waits now st c)).
    Suc k \<le> kw_attempts w \<and> kw_last_request_at w = now \<and> k < KEYFRAME_SUBSCRIBE_MAX_ATTEMPTS"
proof -
  obtain kept removed c' where s: "pump_scan now st (keyframe_waits c) c = (kept, removed, c')"
    by (cases "pump_scan now st (keyframe_waits c) c")
  from pump_scan_progress [OF s assms] show ?thesis by (simp add: pump_keyframe_waits_def s)
qed

fun spaced :: "nat \<Rightarrow> instant \<Rightarrow> instant list \<Rightarrow> bool" where
  "spaced g t [] = True"
| "spaced g t (x # xs) = (t + g \<le> x \<and> spaced g x xs)"

lemma pump_run_progress:
  "spaced KEYFRAME_REQUEST_MIN_GAP t (map fst ts) \<Longrightarrow>
    \<forall>w \<in> set (keyframe_waits c). k \<le> kw_attempts w \<and> kw_last_request_at w \<le> t \<Longrightarrow>
    k + length ts > KEYFRAME_SUBSCRIBE_MAX_ATTEMPTS \<Longrightarrow> ts \<noteq> [] \<Longrightarrow>
    keyframe_waits (pump_run ts c) = []"
proof (induction ts arbitrary: c k t)
  case (Cons p ts)
  obtain now st where p: "p = (now, st)" by (cases p)
  let ?c = "pump_keyframe_waits now st c"
  have pr: "\<forall>w \<in> set (keyframe_waits ?c).
      Suc k \<le> kw_attempts w \<and> kw_last_request_at w = now \<and> k < KEYFRAME_SUBSCRIBE_MAX_ATTEMPTS"
    by (rule pump_progress) (use Cons.prems(1,2) p in auto)
  show ?case
  proof (cases "ts = []")
    case True
    with Cons.prems(3) have "\<not> k < KEYFRAME_SUBSCRIBE_MAX_ATTEMPTS" by simp
    with pr have "keyframe_waits ?c = []" by (cases "keyframe_waits ?c") auto
    with True show ?thesis by (simp add: pump_run_def p)
  next
    case False
    have "keyframe_waits (pump_run ts ?c) = []"
      by (rule Cons.IH [of now _ "Suc k"]) (use Cons.prems pr p False in auto)
    then show ?thesis by (simp add: pump_run_def p)
  qed
qed simp


section \<open>Throttle towards the publisher\<close>

datatype kf_event = KfRelay instant keyframe_request mid | KfLoss instant mid "rid option" keyframe_kind

fun kf_time :: "kf_event \<Rightarrow> instant" where
  "kf_time (KfRelay now _ _) = now"
| "kf_time (KfLoss now _ _ _) = now"

fun kf_target :: "kf_event \<Rightarrow> mid" where
  "kf_target (KfRelay _ _ m) = m"
| "kf_target (KfLoss _ m _ _) = m"

fun kf_step :: "('r, 'p) rtc_api \<Rightarrow> kf_event \<Rightarrow> ('r, 'p) client \<Rightarrow> ('r, 'p) client" where
  "kf_step api (KfRelay now req m) c = handle_keyframe_request api now req m c"
| "kf_step api (KfLoss now m r k) c = request_keyframe_throttled api now m r k c"

text \<open>The times at which a sequence of requests reaches the transport for the track \<open>m\<close>.\<close>

fun kf_trace :: "('r, 'p) rtc_api \<Rightarrow> mid \<Rightarrow> kf_event list \<Rightarrow> ('r, 'p) client \<Rightarrow> instant list" where
  "kf_trace api m [] c = []"
| "kf_trace api m (e # es) c =
    (let c' = kf_step api e c in
     (if kf_target e = m \<and> rtc c' \<noteq> rtc c then [kf_time e] else []) @ kf_trace api m es c')"

definition last_request_of :: "mid \<Rightarrow> ('r, 'p) client \<Rightarrow> instant option" where
  "last_request_of m c = Option.bind (find (\<lambda>t. te_mid t = m) (tracks_in c)) last_keyframe_request"

lemma find_update_first_same:
  "(\<And>x. p x \<Longrightarrow> p (f x)) \<Longrightarrow> find p (update_first p f xs) = map_option f (find p xs)"
  by (induction xs) auto

lemma find_update_first_other:
  "(\<And>x. p x \<Longrightarrow> \<not> q x \<and> \<not> q (f x)) \<Longrightarrow> find q (update_first p f xs) = find q xs"
  by (induction xs) auto

lemma last_request_mark_same:
  "find (\<lambda>t. te_mid t = m) (tracks_in c) = Some e \<Longrightarrow> last_request_of m (mark_requested now m c) = Some now"
  by (simp add: last_request_of_def mark_requested_def find_update_first_same)

lemma last_request_mark_other: "m' \<noteq> m \<Longrightarrow> last_request_of m' (mark_requested now m c) = last_request_of m' c"
  by (simp add: last_request_of_def mark_requested_def find_update_first_other)

lemma not_recently: "\<not> recently now (Some s) \<Longrightarrow> s + KEYFRAME_REQUEST_MIN_GAP \<le> now"
  by (simp add: recently_def KEYFRAME_REQUEST_MIN_GAP_def secs_def)

lemma last_request_rtc [simp]: "last_request_of m (c\<lparr>rtc := r\<rparr>) = last_request_of m c"
  by (simp add: last_request_of_def)

lemma mark_requested_rtc: "mark_requested now m (c\<lparr>rtc := r\<rparr>) = (mark_requested now m c)\<lparr>rtc := r\<rparr>"
  by (simp add: mark_requested_def)

lemma mark_requested_keep: "mark_requested now m c = (mark_requested now m c)\<lparr>rtc := rtc c\<rparr>"
  by (simp add: mark_requested_def)

lemma kf_step_cases:
  obtains (skip) "kf_step api e c = c"
  | (pass) "\<not> recently (kf_time e) (last_request_of (kf_target e) c)"
      "last_request_of (kf_target e) (kf_step api e c) = Some (kf_time e)"
      "\<And>m. m \<noteq> kf_target e \<Longrightarrow> last_request_of m (kf_step api e c) = last_request_of m c"
proof (cases "find (\<lambda>t. te_mid t = kf_target e) (tracks_in c)")
  case None
  then have "kf_step api e c = c"
    by (cases e) (simp_all add: handle_keyframe_request_def request_keyframe_throttled_def)
  then show thesis by (rule skip)
next
  case (Some entry)
  then have l: "last_request_of (kf_target e) c = last_keyframe_request entry" by (simp add: last_request_of_def)
  let ?m = "mark_requested (kf_time e) (kf_target e)"
  have "kf_step api e c = c \<or> (\<not> recently (kf_time e) (last_keyframe_request entry) \<and> (\<exists>r. kf_step api e c = (?m c)\<lparr>rtc := r\<rparr>))"
    using Some
    by (cases e) (auto simp: handle_keyframe_request_def request_keyframe_throttled_def Let_def mark_requested_rtc
      intro: mark_requested_keep)
  then show thesis
  proof (elim disjE conjE exE)
    fix r assume "\<not> recently (kf_time e) (last_keyframe_request entry)" and k: "kf_step api e c = (?m c)\<lparr>rtc := r\<rparr>"
    then show thesis
      by (intro pass) (simp_all add: l last_request_mark_same [OF Some] last_request_mark_other)
  qed (rule skip)
qed

lemma kf_step_last:
  assumes "last_request_of m c = Some s"
  shows "\<exists>s'. last_request_of m (kf_step api e c) = Some s' \<and> s \<le> s' \<and>
    (kf_target e = m \<and> rtc (kf_step api e c) \<noteq> rtc c \<longrightarrow> s + KEYFRAME_REQUEST_MIN_GAP \<le> kf_time e)"
proof (cases rule: kf_step_cases [of api e c])
  case skip
  then show ?thesis using assms by simp
next
  case pass
  show ?thesis
  proof (cases "kf_target e = m")
    case True
    with pass(1) assms have "s + KEYFRAME_REQUEST_MIN_GAP \<le> kf_time e" by (simp add: not_recently)
    with True pass(2) show ?thesis by simp
  next
    case False
    with pass(3) [of m] assms show ?thesis by simp
  qed
qed

lemma kf_trace_after: "last_request_of m c = Some s \<Longrightarrow> t \<in> set (kf_trace api m es c) \<Longrightarrow> s + KEYFRAME_REQUEST_MIN_GAP \<le> t"
proof (induction es arbitrary: c s)
  case (Cons e es)
  from kf_step_last [OF Cons.prems(1), of api e] obtain s' where
    "last_request_of m (kf_step api e c) = Some s'" "s \<le> s'"
    "kf_target e = m \<and> rtc (kf_step api e c) \<noteq> rtc c \<longrightarrow> s + KEYFRAME_REQUEST_MIN_GAP \<le> kf_time e" by blast
  with Cons.IH [of "kf_step api e c" s'] Cons.prems(2) show ?case
    by (auto simp: Let_def split: if_splits)
qed simp

lemma kf_step_touched:
  assumes "kf_target e = m" and "rtc (kf_step api e c) \<noteq> rtc c"
  shows "last_request_of m (kf_step api e c) = Some (kf_time e)"
proof (cases rule: kf_step_cases [of api e c])
  case skip
  with assms(2) show ?thesis by simp
next
  case pass
  with assms(1) show ?thesis by simp
qed

text \<open>C16: Whatever keyframe requests reach a publisher (relayed from subscribers, sent on layer switches
  and subscriptions, or raised by packet loss), in any order and at any clock readings, the times at
  which the transport is asked for a keyframe on one incoming track are at least
  \<open>KEYFRAME_REQUEST_MIN_GAP\<close> apart, pairwise.\<close>

theorem publisher_keyframe_throttle: 
  "sorted_wrt (\<lambda>a b. a + KEYFRAME_REQUEST_MIN_GAP \<le> b) (kf_trace api m es c)"
proof (induction es arbitrary: c)
  case (Cons e es)
  show ?case
  proof (cases "kf_target e = m \<and> rtc (kf_step api e c) \<noteq> rtc c")
    case True
    then have l: "last_request_of m (kf_step api e c) = Some (kf_time e)" by (intro kf_step_touched) simp_all
    have "kf_time e + KEYFRAME_REQUEST_MIN_GAP \<le> t" if "t \<in> set (kf_trace api m es (kf_step api e c))" for t
      by (rule kf_trace_after [OF l that])
    with True Cons.IH [of "kf_step api e c"] show ?thesis by (auto simp: Let_def)
  next
    case False
    with Cons.IH [of "kf_step api e c"] show ?thesis by (auto simp: Let_def)
  qed
qed simp


section \<open>The subscribe loop\<close>

text \<open>C23: Starting a wait and then pumping the loop any number of times, at any clock readings and with
  publishers coming and going, queues at most \<open>KEYFRAME_SUBSCRIBE_MAX_ATTEMPTS\<close> requests for it on top of
  what the waits already pending may still emit.\<close>

theorem subscribe_requests_bounded:
  "\<exists>ps. pending_propagated (pump_run ts (start_keyframe_wait now og m c)) = pending_propagated c @ ps \<and>
    length ps \<le> KEYFRAME_SUBSCRIBE_MAX_ATTEMPTS + budget_left (keyframe_waits c)"
proof -
  let ?c = "start_keyframe_wait now og m c"
  have s: "\<exists>qs. pending_propagated ?c = pending_propagated c @ qs \<and>
      length qs + budget_left (keyframe_waits ?c) \<le> KEYFRAME_SUBSCRIBE_MAX_ATTEMPTS + budget_left (keyframe_waits c)"
    by (auto simp: start_keyframe_wait_def bump_def budget_left_def KEYFRAME_SUBSCRIBE_MAX_ATTEMPTS_def)
  with pump_run_budget [of ts ?c] show ?thesis by fastforce
qed

text \<open>C28: The subscribe loop ends: once it has been pumped five times, each at least
  \<open>KEYFRAME_REQUEST_MIN_GAP\<close> after the one before and the first that long after the last request,
  no wait is left, whether or not a keyframe ever arrived.\<close>

theorem subscribe_loop_ends:
  assumes "waits_ok c" and "\<forall>w \<in> set (keyframe_waits c). kw_last_request_at w \<le> t"
    and "spaced KEYFRAME_REQUEST_MIN_GAP t (map fst ts)" and "KEYFRAME_SUBSCRIBE_MAX_ATTEMPTS \<le> length ts"
  shows "keyframe_waits (pump_run ts c) = []"
proof (rule pump_run_progress [where k = 1])
  show "\<forall>w \<in> set (keyframe_waits c). 1 \<le> kw_attempts w \<and> kw_last_request_at w \<le> t"
    using assms(1,2) by (auto simp: waits_ok_def list_all_iff)
  show "ts \<noteq> []" using assms(4) by (auto simp: KEYFRAME_SUBSCRIBE_MAX_ATTEMPTS_def)
qed (use assms in auto)

definition demo_track :: track_in where
  "demo_track = \<lparr>ti_origin = 7, ti_mid = ''v'', ti_kind = Video, ti_external_peer_id = Some 70\<rparr>"

definition demo_store :: track_store where
  "demo_store = [3 \<mapsto> demo_track]"

definition demo_waiting :: "(nat, nat) client" where
  "demo_waiting = start_keyframe_wait 0 7 ''v''
    (demo_client\<lparr>tracks_out := [\<lparr>to_track_in = 3, to_state = Open ''m''\<rparr>]\<rparr>)"

theorem subscribe_loop_ends_witness:
  "length (keyframe_waits demo_waiting) = 1 \<and>
    keyframe_waits (pump_run (map (\<lambda>k. (secs k, demo_store)) [1, 2, 3, 4, 5]) demo_waiting) = []"
  using subscribe_loop_ends [of demo_waiting 0 "map (\<lambda>k. (secs k, demo_store)) [1, 2, 3, 4, 5]"]
  by (simp add: demo_waiting_def start_keyframe_wait_def bump_def demo_simps waits_ok_def wait_key_def
      KEYFRAME_SUBSCRIBE_MAX_ATTEMPTS_def KEYFRAME_REQUEST_MIN_GAP_def secs_def)

end
