(* ===== verification/Sfu_Fanout.thy ===== *)
theory Sfu_Fanout
  imports Sfu_Keyframe
begin

text \<open>
  The subscriber side of media forwarding, \<open>client/fanout.rs\<close>: the temporal-layer cap and its
  selection from the bandwidth estimate, the layer the pacer selects, and \<open>handle_media_data_out\<close>, which
  drops a packet above the cap, filters by simulcast layer and writes the rest to the subscriber.
\<close>

section \<open>Temporal cap\<close>

definition effective_temporal_cap :: "('r, 'p) client \<Rightarrow> nat" where
  "effective_temporal_cap c = min (max_vfm_temporal_layer c) (bwe_vfm_temporal_cap c)"

definition invalidate_dd_cache_on_cap_engage :: "nat \<Rightarrow> ('r, 'p) client \<Rightarrow> ('r, 'p) client" where
  "invalidate_dd_cache_on_cap_engage before c =
    (if before = 255 \<and> effective_temporal_cap c < 255 then c\<lparr>dd_cache := dd_clear (dd_cache c)\<rparr> else c)"

definition set_max_vfm_temporal_layer :: "nat \<Rightarrow> ('r, 'p) client \<Rightarrow> ('r, 'p) client" where
  "set_max_vfm_temporal_layer mx c =
    (let before = effective_temporal_cap c in
     invalidate_dd_cache_on_cap_engage before (c\<lparr>max_vfm_temporal_layer := mx\<rparr>))"

text \<open>The match of \<open>bwe_select_temporal_cap\<close>; \<open>-\<close> on naturals is \<open>saturating_sub\<close>.\<close>

definition bwe_next_cap :: "nat \<Rightarrow> nat \<Rightarrow> nat \<Rightarrow> nat option \<Rightarrow> nat" where
  "bwe_next_cap lo hi cap budget =
    (let hi_reenter = hi - (hi - lo) div 5 in
     case budget of
       None \<Rightarrow> 255
     | Some b \<Rightarrow>
         if b < lo then 0
         else if b \<ge> hi then 255
         else if cap = 0 then 0
         else if cap = 255 \<and> b \<ge> hi_reenter then 255
         else 1)"

definition bwe_select_temporal_cap :: "nat option \<Rightarrow> ('r, 'p) client \<Rightarrow> nat \<times> ('r, 'p) client" where
  "bwe_select_temporal_cap budget c =
    (let nxt = bwe_next_cap (bwe_cap_audio_only_bps c) (bwe_cap_low_min_bps c) (bwe_vfm_temporal_cap c) budget;
         before = effective_temporal_cap c in
     (nxt, invalidate_dd_cache_on_cap_engage before (c\<lparr>bwe_vfm_temporal_cap := nxt\<rparr>)))"

section \<open>Layer selection\<close>

definition layer_rank :: "rid \<Rightarrow> nat" where
  "layer_rank r = (if r = HIGH then 2 else if r = MEDIUM then 1 else 0)"

definition clamp_to_available :: "rid \<Rightarrow> rid list \<Rightarrow> rid" where
  "clamp_to_available target available =
    (case find (\<lambda>r. layer_rank r \<le> layer_rank target \<and> r \<in> set available) [HIGH, MEDIUM, LOW] of
       Some r \<Rightarrow> r
     | None \<Rightarrow> (case available of [] \<Rightarrow> LOW | r # _ \<Rightarrow> r))"

definition pacer_select_layer ::
  "('r, 'p) rtc_api \<Rightarrow> nat option \<Rightarrow> rid list \<Rightarrow> ('r, 'p) client \<Rightarrow> rid option \<times> ('r, 'p) client" where
  "pacer_select_layer api budget available c =
    (case budget of
       None \<Rightarrow> (Some (desired_layer c), c)
     | Some b \<Rightarrow>
         (case kit_pacer_update api (pacer c) b of (action, p) \<Rightarrow>
          let c1 = c\<lparr>pacer := p\<rparr> in
          case action of
            NoChange \<Rightarrow> (Some (desired_layer c1), c1)
          | ChangeLayer target \<Rightarrow>
              (let r = clamp_to_available target available;
                   c2 = (if r \<noteq> desired_layer c1 then set_desired_layer r c1 else c1) in
               (Some r, c2\<lparr>pending_tier_emit := Some VideoMax\<rparr>))
          | SuspendVideo \<Rightarrow> (None, c1\<lparr>pending_tier_emit := Some AudioNormal\<rparr>)
          | GoAudioOnly \<Rightarrow> (None, c1\<lparr>pending_tier_emit := Some AudioLow\<rparr>)
          | RestoreAudio \<Rightarrow> (Some (desired_layer c1), c1)
          | RestoreVideo \<Rightarrow>
              (Some LOW, set_desired_layer LOW (c1\<lparr>pending_tier_emit := Some VideoMax\<rparr>))
          | OtherAction \<Rightarrow> (Some (desired_layer c1), c1)))"

section \<open>Forwarding one packet\<close>

definition temporal_drop_label :: "nat \<Rightarrow> string" where
  "temporal_drop_label t =
    (if t = 0 then ''0'' else if t = 1 then ''1'' else if t = 2 then ''2'' else ''3plus'')"

text \<open>The temporal-layer block: whether the packet is dropped, or a panic of the descriptor parser.\<close>

definition dd_filter :: "client_id \<Rightarrow> media_data \<Rightarrow> ('r, 'p) client \<Rightarrow> (bool \<times> ('r, 'p) client) out" where
  "dd_filter og d c =
    (case md_dd d of
       None \<Rightarrow> Done (False, c)
     | Some bytes \<Rightarrow>
         if effective_temporal_cap c < 255 then
           (case parse_dependency_descriptor bytes (dd_get (og, md_mid d) (dd_cache c)) of
              Panic \<Rightarrow> Panic
            | Fail \<Rightarrow> Done (False, c)
            | Done parsed \<Rightarrow>
                (let c1 = (case dd_structure parsed of
                             None \<Rightarrow> c
                           | Some s \<Rightarrow> c\<lparr>dd_cache := dd_insert (og, md_mid d) s (dd_cache c)\<rparr>) in
                 case dd_temporal_id parsed of
                   None \<Rightarrow> Done (False, c1)
                 | Some t \<Rightarrow>
                     if t > effective_temporal_cap c1
                     then Done (True, bump (Inc ''sfu_dd_temporal_drops_total'' [temporal_drop_label t]) c1)
                     else Done (False, c1)))
         else Done (False, c))"

definition match_track :: "track_store \<Rightarrow> client_id \<Rightarrow> mid \<Rightarrow> track_out \<Rightarrow> bool" where
  "match_track st og m o1 =
    (case st (to_track_in o1) of None \<Rightarrow> False | Some i \<Rightarrow> ti_origin i = og \<and> ti_mid i = m)"

definition kind_label :: "media_kind \<Rightarrow> string" where
  "kind_label k = (case k of Audio \<Rightarrow> ''audio'' | Video \<Rightarrow> ''video'')"

definition decision :: "client_id \<Rightarrow> ('r, 'p) client \<Rightarrow> string \<Rightarrow> string \<Rightarrow> metric" where
  "decision og c kind action = Inc ''sfu_forward_decisions_total'' [show_nat og, client_label c, kind, action]"

text \<open>The write to the subscriber, once the outgoing mid is known.\<close>

definition write_media ::
  "('r, 'p) rtc_api \<Rightarrow> instant \<Rightarrow> client_id \<Rightarrow> media_data \<Rightarrow> string \<Rightarrow> mid \<Rightarrow> ('r, 'p) client \<Rightarrow> ('r, 'p) client" where
  "write_media api now og d kind m c =
    (if \<not> rtc_writer api (rtc c) m then bump (decision og c kind ''skipped_no_track'') c
     else
       (case rtc_match_params api (rtc c) m (md_params d) of
          None \<Rightarrow> bump (decision og c kind ''skipped_no_track'') c
        | Some pt \<Rightarrow>
            (case rtc_write api (rtc c) m pt d of
               (Some e, r) \<Rightarrow>
                 (let c1 = bump (Inc ''sfu_writer_write_errors_total''
                             [case e of WriteWithoutPoll \<Rightarrow> ''write_without_poll'' | OtherRtcError \<Rightarrow> ''other''])
                             (c\<lparr>rtc := r\<rparr>);
                      c2 = bump (decision og c1 kind ''write_err'') c1 in
                  c2\<lparr>rtc := rtc_disconnect api (rtc c2)\<rparr>)
             | (None, r) \<Rightarrow>
                 (let c1 = bump (decision og c kind ''forwarded'') (c\<lparr>rtc := r\<rparr>);
                      c2 = bump (Inc ''forwarded_packets_total'' [kind]) c1;
                      c3 = c2\<lparr>delivered_media := (delivered_media c2 + 1) mod 2 ^ 64\<rparr>;
                      c4 = bump (Inc ''sfu_wire_written_total'' [kind]) c3 in
                  observe_keyframe now og d c4))))"

definition forward_media ::
  "('r, 'p) rtc_api \<Rightarrow> instant \<Rightarrow> track_store \<Rightarrow> client_id \<Rightarrow> media_data \<Rightarrow> ('r, 'p) client \<Rightarrow> ('r, 'p) client" where
  "forward_media api now st og d c =
    (if \<not> layer_matches (desired_layer c) d then c
     else
       (let matched = find (match_track st og (md_mid d)) (tracks_out c);
            kind = (case Option.bind matched (\<lambda>o1. st (to_track_in o1)) of
                      None \<Rightarrow> ''other'' | Some t \<Rightarrow> kind_label (ti_kind t));
            c1 = (case md_rid d of
                    None \<Rightarrow> c | Some r \<Rightarrow> bump (Inc ''layer_selection_total'' [rid_label_for r]) c) in
        case Option.bind matched track_out_mid of
          None \<Rightarrow> bump (decision og c1 kind ''skipped_no_track'') c1
        | Some m \<Rightarrow>
            (let c2 = (if md_rid d \<noteq> None \<and> chosen_rid c1 \<noteq> md_rid d then c1\<lparr>chosen_rid := md_rid d\<rparr> else c1) in
             write_media api now og d kind m c2)))"

definition handle_media_data_out ::
  "('r, 'p) rtc_api \<Rightarrow> instant \<Rightarrow> track_store \<Rightarrow> client_id \<Rightarrow> media_data \<Rightarrow> ('r, 'p) client \<Rightarrow> ('r, 'p) client out" where
  "handle_media_data_out api now st og d c =
    (let c1 = bump (Inc ''sfu_dd_frames_total'' [if md_dd d \<noteq> None then ''true'' else ''false'']) c in
     case dd_filter og d c1 of
       Panic \<Rightarrow> Panic
     | Fail \<Rightarrow> Fail
     | Done (True, c2) \<Rightarrow> Done c2
     | Done (False, c2) \<Rightarrow> Done (forward_media api now st og d c2))"

definition format_active_speaker_payload :: "nat \<Rightarrow> string \<Rightarrow> string" where
  "format_active_speaker_payload pid confidence =
    ''{\"type\":\"active_speaker\",\"peerId\":'' @ show_nat pid @ '',\"confidence\":'' @ confidence @ ''}''"

definition to_bytes :: "string \<Rightarrow> payload" where
  "to_bytes s = map (\<lambda>ch. of_nat (of_char ch)) s"

definition handle_active_speaker_changed ::
  "('r, 'p) rtc_api \<Rightarrow> nat \<Rightarrow> string \<Rightarrow> ('r, 'p) client \<Rightarrow> ('r, 'p) client" where
  "handle_active_speaker_changed api pid confidence c =
    (if \<not> rtc_channel api (rtc c) (active_speaker_cid c) then c
     else c\<lparr>rtc := snd (rtc_channel_write api (rtc c) (active_speaker_cid c)
               (to_bytes (format_active_speaker_payload pid confidence)))\<rparr>)"


section \<open>Frame facts\<close>

lemma bump_simps [simp]:
  "metrics (bump m c) = metrics c @ [m]" "dd_cache (bump m c) = dd_cache c" "rtc (bump m c) = rtc c"
  "effective_temporal_cap (bump m c) = effective_temporal_cap c" "delivered_media (bump m c) = delivered_media c"
  "chosen_rid (bump m c) = chosen_rid c" "desired_layer (bump m c) = desired_layer c"
  "tracks_out (bump m c) = tracks_out c" "cl_id (bump m c) = cl_id c" "client_label (bump m c) = client_label c"
  "keyframe_waits (bump m c) = keyframe_waits c"
  by (simp_all add: bump_def effective_temporal_cap_def client_label_def)

lemma cap_update_simps [simp]:
  "effective_temporal_cap (c\<lparr>rtc := r\<rparr>) = effective_temporal_cap c"
  "effective_temporal_cap (c\<lparr>delivered_media := n\<rparr>) = effective_temporal_cap c"
  "effective_temporal_cap (c\<lparr>chosen_rid := ch\<rparr>) = effective_temporal_cap c"
  "effective_temporal_cap (c\<lparr>dd_cache := dc\<rparr>) = effective_temporal_cap c"
  by (simp_all add: effective_temporal_cap_def)

lemma observe_frame:
  "dd_cache (observe_keyframe now og d c) = dd_cache c"
  "effective_temporal_cap (observe_keyframe now og d c) = effective_temporal_cap c"
  "delivered_media (observe_keyframe now og d c) = delivered_media c"
  by (simp_all add: observe_keyframe_def terminate_waits_def Let_def effective_temporal_cap_def)

lemma write_media_frame:
  "dd_cache (write_media api now og d kind m c) = dd_cache c"
  "effective_temporal_cap (write_media api now og d kind m c) = effective_temporal_cap c"
  by (auto simp: write_media_def Let_def observe_frame split: option.splits prod.splits)

lemma forward_media_frame:
  "dd_cache (forward_media api now st og d c) = dd_cache c"
  "effective_temporal_cap (forward_media api now st og d c) = effective_temporal_cap c"
  by (simp_all add: forward_media_def Let_def write_media_frame split: option.splits)

section \<open>Accounting\<close>

text \<open>The forwarding decisions of a log, by their action label, and the increments of a counter.\<close>

definition decisions :: "metric list \<Rightarrow> string list" where
  "decisions ms = concat (map (\<lambda>m. case m of
     Inc n ls \<Rightarrow> if n = ''sfu_forward_decisions_total'' then [ls ! 3] else [] | _ \<Rightarrow> []) ms)"

definition counts :: "string \<Rightarrow> metric list \<Rightarrow> nat" where
  "counts n ms = length (filter (\<lambda>m. case m of Inc n' _ \<Rightarrow> n' = n | _ \<Rightarrow> False) ms)"

text \<open>What the transport is asked for one packet: \<open>None\<close> when nothing is written (no outgoing track for the
  source, no negotiated mid, no writer or no payload type), else the answer of the write.\<close>

definition wire_result ::
  "('r, 'p) rtc_api \<Rightarrow> track_store \<Rightarrow> client_id \<Rightarrow> media_data \<Rightarrow> ('r, 'p) client \<Rightarrow> (rtc_error option \<times> 'r) option" where
  "wire_result api st og d c =
    Option.bind (find (match_track st og (md_mid d)) (tracks_out c)) (\<lambda>t.
    Option.bind (track_out_mid t) (\<lambda>m.
    if rtc_writer api (rtc c) m
    then map_option (\<lambda>pt. rtc_write api (rtc c) m pt d) (rtc_match_params api (rtc c) m (md_params d))
    else None))"

text \<open>One forwarding attempt logs one decision, \<open>action\<close>, and \<open>n\<close> packets on each delivery counter.\<close>

definition accounted :: "string \<Rightarrow> nat \<Rightarrow> ('r, 'p) client \<Rightarrow> ('r, 'p) client \<Rightarrow> bool" where
  "accounted action n c c' \<longleftrightarrow>
    (\<exists>ms. metrics c' = metrics c @ ms \<and> decisions ms = [action] \<and>
      counts ''forwarded_packets_total'' ms = n \<and> counts ''sfu_wire_written_total'' ms = n)"

lemma log_append:
  "decisions (ms @ ms') = decisions ms @ decisions ms'" "counts n (ms @ ms') = counts n ms + counts n ms'"
  by (simp_all add: decisions_def counts_def)

lemmas account_simps = decisions_def counts_def decision_def

definition outcome_log :: "instant \<Rightarrow> string \<Rightarrow> bool \<Rightarrow> keyframe_wait \<Rightarrow> metric list" where
  "outcome_log now o1 b w = Inc ''sfu_keyframe_on_subscribe_outcome_total'' [o1] #
      (if b then [Observe ''sfu_keyframe_on_subscribe_time_to_first_seconds'' (now - kw_started_at w)] else [])"

lemma terminate_metrics:
  "\<exists>ws. metrics (terminate_waits now og m o1 b c) = metrics c @ concat (map (outcome_log now o1 b) ws)"
proof (cases "filter (\<lambda>w. wait_key w = (og, m)) (keyframe_waits c) = []")
  case True
  then show ?thesis by (intro exI [of _ "[]"]) (simp add: terminate_waits_def)
next
  case False
  then show ?thesis
    by (intro exI [of _ "rev (filter (\<lambda>w. wait_key w = (og, m)) (keyframe_waits c))"])
      (simp add: terminate_waits_def Let_def outcome_log_def [abs_def])
qed

lemma observe_metrics_log:
  "\<exists>o1 b ws. metrics (observe_keyframe now og d c) = metrics c @ concat (map (outcome_log now o1 b) ws)"
proof (cases "md_is_keyframe d")
  case True
  then show ?thesis using terminate_metrics [of now og "md_mid d" "''observed''" True c]
    by (simp only: observe_keyframe_def if_True) blast
next
  case nk: False
  show ?thesis
  proof (cases "md_codec d = Av1 \<or> md_codec d = Vp9")
    case True
    then show ?thesis using nk terminate_metrics [of now og "md_mid d" "''codec_unobservable''" False c]
      by (simp only: observe_keyframe_def if_True if_False) blast
  next
    case False
    then show ?thesis using nk by (intro exI [of _ "[]"] exI [of _ True]) (simp add: observe_keyframe_def)
  qed
qed

lemma observe_metrics:
  "\<exists>ms. metrics (observe_keyframe now og d c) = metrics c @ ms \<and> decisions ms = [] \<and>
    counts ''forwarded_packets_total'' ms = 0 \<and> counts ''sfu_wire_written_total'' ms = 0"
proof -
  have z: "decisions (concat (map (outcome_log now o1 b) ws)) = []"
    "counts ''forwarded_packets_total'' (concat (map (outcome_log now o1 b) ws)) = 0"
    "counts ''sfu_wire_written_total'' (concat (map (outcome_log now o1 b) ws)) = 0" for o1 b ws
    by (induction ws) (auto simp: outcome_log_def account_simps)
  from observe_metrics_log obtain o1 b ws where
    "metrics (observe_keyframe now og d c) = metrics c @ concat (map (outcome_log now o1 b) ws)" by blast
  then show ?thesis by (intro exI conjI) (assumption, simp_all add: z)
qed

lemma observe_rtc [simp]: "rtc (observe_keyframe now og d c) = rtc c"
  by (simp add: observe_keyframe_def terminate_waits_def Let_def)

text \<open>The three ends of a write.\<close>

lemma write_media_skipped:
  assumes "\<not> rtc_writer api (rtc c) m \<or> rtc_match_params api (rtc c) m (md_params d) = None"
  shows "write_media api now og d kind m c = bump (decision og c kind ''skipped_no_track'') c"
  using assms by (auto simp: write_media_def)

lemma accounted_skipped: "accounted ''skipped_no_track'' 0 c (bump (decision og c kind ''skipped_no_track'') c)"
  by (simp add: accounted_def account_simps)

lemma write_media_failed:
  assumes "rtc_writer api (rtc c) m" "rtc_match_params api (rtc c) m (md_params d) = Some pt"
    "rtc_write api (rtc c) m pt d = (Some e, r)"
  shows "accounted ''write_err'' 0 c (write_media api now og d kind m c) \<and>
    delivered_media (write_media api now og d kind m c) = delivered_media c \<and>
    rtc (write_media api now og d kind m c) = rtc_disconnect api r"
  using assms by (simp add: write_media_def accounted_def account_simps Let_def bump_def)

lemma write_media_forwarded:
  assumes "rtc_writer api (rtc c) m" "rtc_match_params api (rtc c) m (md_params d) = Some pt"
    "rtc_write api (rtc c) m pt d = (None, r)"
  shows "accounted ''forwarded'' 1 c (write_media api now og d kind m c) \<and>
    delivered_media (write_media api now og d kind m c) = (delivered_media c + 1) mod 2 ^ 64 \<and>
    rtc (write_media api now og d kind m c) = r"
proof -
  let ?c = "bump (Inc ''sfu_wire_written_total'' [kind]) ((bump (Inc ''forwarded_packets_total'' [kind])
      (bump (decision og c kind ''forwarded'') (c\<lparr>rtc := r\<rparr>)))\<lparr>delivered_media := (delivered_media c + 1) mod 2 ^ 64\<rparr>)"
  let ?l = "[decision og c kind ''forwarded'', Inc ''forwarded_packets_total'' [kind], Inc ''sfu_wire_written_total'' [kind]]"
  have eq: "write_media api now og d kind m c = observe_keyframe now og d ?c"
    using assms by (simp add: write_media_def Let_def bump_def)
  from observe_metrics [of now og d ?c] obtain ms where
    ms: "metrics (observe_keyframe now og d ?c) = metrics ?c @ ms" "decisions ms = []"
      "counts ''forwarded_packets_total'' ms = 0" "counts ''sfu_wire_written_total'' ms = 0"
    by blast
  have "metrics (write_media api now og d kind m c) = metrics c @ (?l @ ms)"
    unfolding eq ms(1) by (simp add: bump_def)
  moreover have "decisions (?l @ ms) = [''forwarded'']" "counts ''forwarded_packets_total'' (?l @ ms) = 1"
    "counts ''sfu_wire_written_total'' (?l @ ms) = 1"
    unfolding log_append ms(2-4) by (simp_all add: account_simps)
  ultimately have "accounted ''forwarded'' 1 c (write_media api now og d kind m c)" unfolding accounted_def by blast
  then show ?thesis by (simp add: eq observe_frame)
qed

text \<open>Before the write, the layer metric is logged and the chosen layer recorded; neither is a decision.\<close>

definition select_log :: "media_data \<Rightarrow> ('r, 'p) client \<Rightarrow> ('r, 'p) client" where
  "select_log d c = (case md_rid d of None \<Rightarrow> c | Some r \<Rightarrow> bump (Inc ''layer_selection_total'' [rid_label_for r]) c)"

lemma select_log_simps [simp]:
  "rtc (select_log d c) = rtc c" "tracks_out (select_log d c) = tracks_out c"
  "delivered_media (select_log d c) = delivered_media c"
  by (simp_all add: select_log_def split: option.split)

lemma accounted_after_select:
  assumes "metrics c1 = metrics (select_log d c)" and "accounted action n c1 c'"
  shows "accounted action n c c'"
proof -
  obtain ms where ms: "metrics c' = metrics c1 @ ms" "decisions ms = [action]"
    "counts ''forwarded_packets_total'' ms = n" "counts ''sfu_wire_written_total'' ms = n"
    using assms(2) unfolding accounted_def by blast
  obtain lay where lay: "metrics c1 = metrics c @ lay" "decisions lay = []"
    "counts ''forwarded_packets_total'' lay = 0" "counts ''sfu_wire_written_total'' lay = 0"
    using assms(1) by (cases "md_rid d") (simp_all add: select_log_def account_simps)
  have "metrics c' = metrics c @ (lay @ ms)" using ms(1) lay(1) by simp
  moreover have "decisions (lay @ ms) = [action]" "counts ''forwarded_packets_total'' (lay @ ms) = n"
    "counts ''sfu_wire_written_total'' (lay @ ms) = n" using ms(2-4) lay(2-4) by (simp_all add: log_append)
  ultimately show ?thesis unfolding accounted_def by blast
qed

lemma forward_media_cases:
  assumes "layer_matches (desired_layer c) d"
  obtains kind where "Option.bind (find (match_track st og (md_mid d)) (tracks_out c)) track_out_mid = None"
      and "forward_media api now st og d c = bump (decision og (select_log d c) kind ''skipped_no_track'') (select_log d c)"
  | kind m c2 where "Option.bind (find (match_track st og (md_mid d)) (tracks_out c)) track_out_mid = Some m"
      and "forward_media api now st og d c = write_media api now og d kind m c2"
      and "metrics c2 = metrics (select_log d c)" and "rtc c2 = rtc c" and "delivered_media c2 = delivered_media c"
proof (cases "Option.bind (find (match_track st og (md_mid d)) (tracks_out c)) track_out_mid")
  case None
  show ?thesis by (rule that(1) [OF None]) (use assms None in \<open>simp add: forward_media_def Let_def select_log_def\<close>)
next
  case (Some m)
  let ?c1 = "select_log d c"
  let ?c2 = "if md_rid d \<noteq> None \<and> chosen_rid ?c1 \<noteq> md_rid d then ?c1\<lparr>chosen_rid := md_rid d\<rparr> else ?c1"
  let ?kind = "case Option.bind (find (match_track st og (md_mid d)) (tracks_out c)) (\<lambda>o1. st (to_track_in o1)) of
      None \<Rightarrow> ''other'' | Some t \<Rightarrow> kind_label (ti_kind t)"
  have "forward_media api now st og d c = write_media api now og d ?kind m ?c2"
    using assms Some by (simp only: forward_media_def Let_def select_log_def not_True_eq_False if_False option.case)
  then show ?thesis by (rule that(2) [OF Some]) simp_all
qed

text \<open>C30: Every packet that passes the layer filter is accounted for exactly once, and the account is the
  transport's answer. A packet the transport was not asked to write (no open outgoing track, no writer,
  no payload type) logs the one decision \<open>skipped_no_track\<close>; a refused write logs the one decision
  \<open>write_err\<close> and disconnects the subscriber; an accepted write logs the one decision \<open>forwarded\<close>, and only
  then do both delivery counters and \<open>delivered_media\<close> advance, by one. A packet of another layer changes
  nothing.\<close>

theorem forwarding_accounted_once:
  "let c' = forward_media api now st og d c in
   if \<not> layer_matches (desired_layer c) d then c' = c
   else (case wire_result api st og d c of
       None \<Rightarrow> accounted ''skipped_no_track'' 0 c c' \<and> delivered_media c' = delivered_media c \<and> rtc c' = rtc c
     | Some (Some e, r) \<Rightarrow>
         accounted ''write_err'' 0 c c' \<and> delivered_media c' = delivered_media c \<and> rtc c' = rtc_disconnect api r
     | Some (None, r) \<Rightarrow>
         accounted ''forwarded'' 1 c c' \<and> delivered_media c' = (delivered_media c + 1) mod 2 ^ 64 \<and> rtc c' = r)"
proof (cases "layer_matches (desired_layer c) d")
  case False
  then show ?thesis by (simp add: forward_media_def)
next
  case True
  then show ?thesis
  proof (cases rule: forward_media_cases [where api = api and now = now and st = st and og = og])
    case (1 kind)
    from 1(1) have "wire_result api st og d c = None"
      by (cases "find (match_track st og (md_mid d)) (tracks_out c)") (simp_all add: wire_result_def)
    with True 1(2) show ?thesis
      by (simp add: accounted_after_select [OF refl accounted_skipped])
  next
    case (2 kind m c2)
    let ?pt = "rtc_match_params api (rtc c) m (md_params d)"
    have w: "wire_result api st og d c =
      (if rtc_writer api (rtc c) m then map_option (\<lambda>pt. rtc_write api (rtc c) m pt d) ?pt else None)"
      using 2(1) by (cases "find (match_track st og (md_mid d)) (tracks_out c)") (simp_all add: wire_result_def)
    show ?thesis
    proof (cases "wire_result api st og d c")
      case None
      then have "\<not> rtc_writer api (rtc c2) m \<or> rtc_match_params api (rtc c2) m (md_params d) = None"
        using w 2(4) by (auto split: if_splits)
      from write_media_skipped [OF this, of now og kind] 2 True None show ?thesis
        by (simp add: accounted_after_select [OF 2(3) accounted_skipped])
    next
      case (Some er)
      then obtain pt where wr: "rtc_writer api (rtc c2) m" "rtc_match_params api (rtc c2) m (md_params d) = Some pt"
        "rtc_write api (rtc c2) m pt d = er" using w 2(4) by (auto split: if_splits)
      show ?thesis
      proof (cases "fst er")
        case (Some e)
        with wr(3) have "rtc_write api (rtc c2) m pt d = (Some e, snd er)" by (cases er) simp
        from write_media_failed [OF wr(1,2) this, of now og kind] 2(2,5) True \<open>wire_result api st og d c = Some er\<close> Some
        show ?thesis by (cases er) (auto intro: accounted_after_select [OF 2(3)])
      next
        case None
        with wr(3) have "rtc_write api (rtc c2) m pt d = (None, snd er)" by (cases er) simp
        from write_media_forwarded [OF wr(1,2) this, of now og kind] 2(2,5) True \<open>wire_result api st og d c = Some er\<close> None
        show ?thesis by (cases er) (auto intro: accounted_after_select [OF 2(3)])
      qed
    qed
  qed
qed


definition demo_packet :: media_data where
  "demo_packet = \<lparr>md_mid = ''v'', md_rid = Some LOW, md_params = 96, md_codec = Other_Codec,
    md_dd = Some [0xC1, 0, 7], md_is_keyframe = True, md_contiguous = True, md_data = [], md_audio_level = None, md_video_time = Some 900\<rparr>"

lemma demo_wire:
  "layer_matches (desired_layer demo_waiting) demo_packet"
  "\<exists>r. wire_result demo_api demo_store 7 demo_packet demo_waiting = Some (None, r)"
  "delivered_media demo_waiting = 0"
  by (simp_all add: wire_result_def match_track_def demo_waiting_def start_keyframe_wait_def bump_def
      demo_packet_def demo_store_def demo_track_def layer_matches_def track_out_mid_def demo_simps)

theorem forwarding_accounted_once_witness:
  "accounted ''forwarded'' 1 demo_waiting (forward_media demo_api 5 demo_store 7 demo_packet demo_waiting) \<and>
   delivered_media (forward_media demo_api 5 demo_store 7 demo_packet demo_waiting) = 1"
  using forwarding_accounted_once [of demo_api 5 demo_store 7 demo_packet demo_waiting] demo_wire
  by (auto simp: Let_def)

section \<open>Choice of layer\<close>

text \<open>The layer a pacer target is clamped to is one the publisher sends, and it is the highest of
  the standard layers the publisher sends at or below the target whenever there is one.\<close>

theorem clamp_to_available_best:
  assumes "available \<noteq> []"
  shows "clamp_to_available target available \<in> set available \<and>
    (\<forall>r \<in> set available. r \<in> {LOW, MEDIUM, HIGH} \<and> layer_rank r \<le> layer_rank target \<longrightarrow>
      layer_rank r \<le> layer_rank (clamp_to_available target available) \<and>
      layer_rank (clamp_to_available target available) \<le> layer_rank target)"
  using assms
  by (cases available)
    (auto simp: clamp_to_available_def layer_rank_def LOW_def MEDIUM_def HIGH_def split: if_splits)

theorem clamp_to_available_best_witness:
  "clamp_to_available HIGH [LOW, MEDIUM] = MEDIUM \<and> MEDIUM \<in> set [LOW, MEDIUM]"
  using clamp_to_available_best [of "[LOW, MEDIUM]" HIGH]
  by (simp add: clamp_to_available_def layer_rank_def)

text \<open>With nothing at or below the target, the first layer in iteration order is taken, which need not be
  the lowest one the publisher sends.\<close>

lemma clamp_takes_first_not_lowest: "clamp_to_available LOW [HIGH, MEDIUM] = HIGH"
  by (simp add: clamp_to_available_def layer_rank_def)

section \<open>Hysteresis of the temporal cap\<close>

lemma bwe_next_cap_range: "bwe_next_cap lo hi cap b \<in> {0, 1, 255}"
  by (simp add: bwe_next_cap_def Let_def split: option.splits)

lemma bwe_next_cap_band:
  "hi - (hi - lo) div 5 \<le> b \<Longrightarrow> b < hi \<Longrightarrow> cap \<in> {0, 1, 255} \<Longrightarrow> bwe_next_cap lo hi cap (Some b) = cap"
  by (auto simp: bwe_next_cap_def Let_def)

lemma engage_same: "invalidate_dd_cache_on_cap_engage (effective_temporal_cap c) c = c"
  unfolding invalidate_dd_cache_on_cap_engage_def by (rule if_not_P) simp

lemma select_same_cap:
  assumes "bwe_next_cap (bwe_cap_audio_only_bps c) (bwe_cap_low_min_bps c) (bwe_vfm_temporal_cap c) b = bwe_vfm_temporal_cap c"
  shows "snd (bwe_select_temporal_cap b c) = c"
  by (simp add: bwe_select_temporal_cap_def assms engage_same)

text \<open>C38: A budget that hovers in the re-enter band, from \<open>hi - (hi - lo) / 5\<close> up to but excluding \<open>hi\<close>,
  never moves the temporal cap of a subscriber, however long it hovers and whatever the rails are:
  the client, its structure cache included, is unchanged by any sequence of such estimates.\<close>

theorem temporal_cap_holds_in_band:
  assumes "bwe_vfm_temporal_cap c \<in> {0, 1, 255}"
    and "\<forall>b \<in> set bs. bwe_cap_low_min_bps c - (bwe_cap_low_min_bps c - bwe_cap_audio_only_bps c) div 5 \<le> b \<and>
      b < bwe_cap_low_min_bps c"
  shows "fold (\<lambda>b c. snd (bwe_select_temporal_cap (Some b) c)) bs c = c"
  using assms(2)
proof (induction bs)
  case (Cons b bs)
  then have "snd (bwe_select_temporal_cap (Some b) c) = c"
    by (intro select_same_cap bwe_next_cap_band) (use assms(1) in auto)
  with Cons show ?case by simp
qed simp

theorem temporal_cap_holds_in_band_witness:
  "fold (\<lambda>b c. snd (bwe_select_temporal_cap (Some b) c)) [140000, 149999, 145000] demo_client = demo_client"
  using temporal_cap_holds_in_band [of demo_client "[140000, 149999, 145000]"]
  by (simp add: demo_simps)

end
