(* ===== verification/Sfu_Temporal.thy ===== *)
theory Sfu_Temporal
  imports Sfu_Fanout
begin

text \<open>
  Temporal-layer drops over the life of a subscriber.  A history is a sequence of cap changes by the
  client, bandwidth estimates and media packets; while no cap is in force the forwarding path does not
  parse descriptors, so the structure cache may fall behind, and it is emptied when a cap engages.
  The theorem here is the purpose of that rule: whatever the history, no descriptor makes the SFU
  panic, and a packet is only ever dropped on the strength of the structure its stream announced last.
\<close>

section \<open>Histories\<close>

text \<open>A cap requested by the client is the number it sent, cast to \<open>u8\<close> as in \<open>client/dc.rs\<close>.\<close>

datatype sub_event =
    SetCap nat
  | Estimate "nat option"
  | Packet instant track_store client_id media_data

fun sub_step :: "('r, 'p) rtc_api \<Rightarrow> sub_event \<Rightarrow> ('r, 'p) client \<Rightarrow> ('r, 'p) client out" where
  "sub_step api (SetCap mx) c = Done (set_max_vfm_temporal_layer (mx mod 256) c)"
| "sub_step api (Estimate b) c = Done (snd (bwe_select_temporal_cap b c))"
| "sub_step api (Packet now st og d) c = handle_media_data_out api now st og d c"

fun sub_run :: "('r, 'p) rtc_api \<Rightarrow> sub_event list \<Rightarrow> ('r, 'p) client \<Rightarrow> ('r, 'p) client out" where
  "sub_run api [] c = Done c"
| "sub_run api (e # es) c =
    (case sub_step api e c of Panic \<Rightarrow> Panic | Fail \<Rightarrow> Fail | Done c' \<Rightarrow> sub_run api es c')"

text \<open>The structure a packet announces, and the one each stream announced last in a history.\<close>

definition announced :: "media_data \<Rightarrow> template_dependency_structure option" where
  "announced d =
    (case md_dd d of
       None \<Rightarrow> None
     | Some bytes \<Rightarrow> (case parse_dependency_descriptor bytes None of Done p \<Rightarrow> dd_structure p | _ \<Rightarrow> None))"

fun announce ::
  "sub_event \<Rightarrow> (stream_key \<Rightarrow> template_dependency_structure option) \<Rightarrow> stream_key \<Rightarrow> template_dependency_structure option" where
  "announce (Packet _ _ og d) f =
    (case announced d of None \<Rightarrow> f | Some s \<Rightarrow> f((og, md_mid d) \<mapsto> s))"
| "announce _ f = f"

definition latest :: "sub_event list \<Rightarrow> stream_key \<Rightarrow> template_dependency_structure option" where
  "latest es = fold announce es (\<lambda>_. None)"

section \<open>Invariant\<close>

definition sub_inv ::
  "(stream_key \<Rightarrow> template_dependency_structure option) \<Rightarrow> ('r, 'p) client \<Rightarrow> bool" where
  "sub_inv f c \<longleftrightarrow> max_vfm_temporal_layer c \<le> 255 \<and> bwe_vfm_temporal_cap c \<le> 255 \<and> dd_inv (dd_cache c) \<and>
    (\<forall>k s. dd_get k (dd_cache c) = Some s \<longrightarrow> wf_structure s) \<and>
    (effective_temporal_cap c < 255 \<longrightarrow> (\<forall>k s. dd_get k (dd_cache c) = Some s \<longrightarrow> f k = Some s))"

lemma sub_inv_new: "sub_inv f (new_client api wc cfg i r)"
  by (simp add: sub_inv_def new_client_def effective_temporal_cap_def split_def)
    (simp add: dd_get_def dd_new_def)

lemma sub_inv_cap: "sub_inv f c \<Longrightarrow> effective_temporal_cap c \<le> 255"
  by (simp add: sub_inv_def effective_temporal_cap_def min_le_iff_disj)

lemma sub_inv_recap:
  assumes inv: "sub_inv f c" and same: "dd_cache c' = dd_cache c"
    and u8: "max_vfm_temporal_layer c' \<le> 255" "bwe_vfm_temporal_cap c' \<le> 255"
  shows "sub_inv f (invalidate_dd_cache_on_cap_engage (effective_temporal_cap c) c')"
proof (cases "effective_temporal_cap c = 255 \<and> effective_temporal_cap c' < 255")
  case True
  then show ?thesis using u8
    by (simp add: invalidate_dd_cache_on_cap_engage_def sub_inv_def dcache.get_wipe)
next
  case False
  with sub_inv_cap [OF inv] have "effective_temporal_cap c' < 255 \<Longrightarrow> effective_temporal_cap c < 255" by linarith
  moreover have "invalidate_dd_cache_on_cap_engage (effective_temporal_cap c) c' = c'"
    unfolding invalidate_dd_cache_on_cap_engage_def using False by (rule if_not_P)
  ultimately show ?thesis using inv same u8 by (simp add: sub_inv_def)
qed

text \<open>A cached structure does not change what a packet announces.\<close>

lemma parse_announced:
  assumes "md_dd d = Some bytes" and "parse_dependency_descriptor bytes prior = Done p"
  shows "announced d = dd_structure p"
proof (cases "dd_structure p")
  case (Some s)
  then have "parse_dependency_descriptor bytes None = Done p" using parse_own_structure [OF assms(2)] by simp
  then show ?thesis by (simp add: announced_def assms(1))
next
  case None
  have "announced d = None"
  proof (rule ccontr)
    assume "announced d \<noteq> None"
    then obtain q s where q: "parse_dependency_descriptor bytes None = Done q" "dd_structure q = Some s"
      using assms(1) by (auto simp: announced_def split: out.splits)
    from parse_own_structure [OF q] have "p = q" using assms(2) by simp
    with q(2) None show False by simp
  qed
  with None show ?thesis by simp
qed

lemma parse_failed_announced:
  assumes "md_dd d = Some bytes" and "parse_dependency_descriptor bytes prior = Fail"
  shows "announced d = None"
proof (rule ccontr)
  assume "announced d \<noteq> None"
  then obtain q s where q: "parse_dependency_descriptor bytes None = Done q" "dd_structure q = Some s"
    using assms(1) by (auto simp: announced_def split: out.splits)
  from parse_own_structure [OF q, of prior] assms(2) show False by simp
qed

lemma sub_inv_bump: "sub_inv f (bump m c) = sub_inv f c"
  by (simp add: sub_inv_def bump_def effective_temporal_cap_def)

text \<open>The descriptor block keeps the invariant, for the announcements extended by this packet.\<close>

lemma dd_filter_inv:
  assumes inv: "sub_inv f c"
  shows "\<exists>b c'. dd_filter og d c = Done (b, c') \<and> sub_inv (announce (Packet now st og d) f) c' \<and>
    effective_temporal_cap c' = effective_temporal_cap c"
proof (cases "md_dd d")
  case None
  then show ?thesis using inv by (intro exI [of _ False] exI [of _ c]) (simp add: dd_filter_def announced_def)
next
  case (Some bytes)
  let ?k = "(og, md_mid d)" and ?prior = "dd_get (og, md_mid d) (dd_cache c)"
  show ?thesis
  proof (cases "effective_temporal_cap c < 255")
    case False
    with Some inv show ?thesis
      by (intro exI [of _ False] exI [of _ c]) (simp add: dd_filter_def sub_inv_def)
  next
    case capped: True
    have di: "dd_inv (dd_cache c)" and wf: "\<And>k s. dd_get k (dd_cache c) = Some s \<Longrightarrow> wf_structure s"
      and old: "\<And>k s. dd_get k (dd_cache c) = Some s \<Longrightarrow> f k = Some s"
      using inv capped by (auto simp: sub_inv_def)
    have safe: "safe (dd_ok ?prior) (parse_dependency_descriptor bytes ?prior)"
      by (rule safe_descriptor) (rule wf)
    show ?thesis
    proof (cases "parse_dependency_descriptor bytes ?prior")
      case Panic
      with safe show ?thesis by (simp add: safe_def)
    next
      case Fail
      then show ?thesis using Some capped inv parse_failed_announced [OF Some Fail]
        by (intro exI [of _ False] exI [of _ c]) (simp add: dd_filter_def)
    next
      case (Done p)
      have an: "announced d = dd_structure p" by (rule parse_announced [OF Some Done])
      have wfp: "dd_structure p = Some s \<Longrightarrow> wf_structure s" for s
        using safe Done by (simp add: safe_def dd_ok_def)
      define c1 where "c1 = (case dd_structure p of None \<Rightarrow> c | Some s \<Rightarrow> c\<lparr>dd_cache := dd_insert ?k s (dd_cache c)\<rparr>)"
      have inv1: "sub_inv (announce (Packet now st og d) f) c1"
      proof (cases "dd_structure p")
        case None
        then show ?thesis using inv an by (simp add: c1_def)
      next
        case s: (Some s)
        have g: "dd_get k (dd_insert ?k s (dd_cache c)) = Some s' \<Longrightarrow>
            wf_structure s' \<and> (f(?k \<mapsto> s)) k = Some s'" for k s'
          using dcache.get_ins [OF di, of k ?k s s'] wf [of k s'] old [of k s'] wfp [OF s] by auto
        then show ?thesis using s an dd_inv_insert [OF di] inv
          by (simp add: c1_def sub_inv_def)
      qed
      have cap1: "effective_temporal_cap c1 = effective_temporal_cap c" by (simp add: c1_def split: option.splits)
      have eq: "dd_filter og d c = (case dd_temporal_id p of None \<Rightarrow> Done (False, c1)
          | Some t \<Rightarrow> if t > effective_temporal_cap c1
              then Done (True, bump (Inc ''sfu_dd_temporal_drops_total'' [temporal_drop_label t]) c1) else Done (False, c1))"
        unfolding dd_filter_def c1_def Let_def by (simp add: Some capped Done)
      show ?thesis
      proof (cases "dd_temporal_id p")
        case None
        then show ?thesis using inv1 cap1 by (intro exI [of _ False] exI [of _ c1]) (simp add: eq)
      next
        case (Some t)
        then show ?thesis using inv1 cap1
          by (cases "t > effective_temporal_cap c1") (auto simp: eq sub_inv_bump)
      qed
    qed
  qed
qed

section \<open>Every step keeps it\<close>

lemma sub_inv_frame:
  "sub_inv f c \<Longrightarrow> dd_cache c' = dd_cache c \<Longrightarrow> max_vfm_temporal_layer c' = max_vfm_temporal_layer c \<Longrightarrow>
    bwe_vfm_temporal_cap c' = bwe_vfm_temporal_cap c \<Longrightarrow> sub_inv f c'"
  by (simp add: sub_inv_def effective_temporal_cap_def)

lemma bump_caps [simp]:
  "max_vfm_temporal_layer (bump m c) = max_vfm_temporal_layer c" "bwe_vfm_temporal_cap (bump m c) = bwe_vfm_temporal_cap c"
  by (simp_all add: bump_def)

lemma observe_caps:
  "max_vfm_temporal_layer (observe_keyframe now og d c) = max_vfm_temporal_layer c"
  "bwe_vfm_temporal_cap (observe_keyframe now og d c) = bwe_vfm_temporal_cap c"
  by (simp_all add: observe_keyframe_def terminate_waits_def Let_def)

lemma write_media_caps:
  "max_vfm_temporal_layer (write_media api now og d k m c) = max_vfm_temporal_layer c"
  "bwe_vfm_temporal_cap (write_media api now og d k m c) = bwe_vfm_temporal_cap c"
  by (auto simp: write_media_def Let_def observe_caps split: option.splits prod.splits)

lemma forward_media_caps:
  "max_vfm_temporal_layer (forward_media api now st og d c) = max_vfm_temporal_layer c"
  "bwe_vfm_temporal_cap (forward_media api now st og d c) = bwe_vfm_temporal_cap c"
  by (simp_all add: forward_media_def Let_def write_media_caps split: option.splits)

lemma sub_step_inv:
  assumes inv: "sub_inv f c"
  shows "\<exists>c'. sub_step api e c = Done c' \<and> sub_inv (announce e f) c'"
proof (cases e)
  case (SetCap mx)
  have "mx mod 256 \<le> 255" using mod_less_divisor [of 256 mx] by linarith
  then have "sub_inv f (set_max_vfm_temporal_layer (mx mod 256) c)"
    unfolding set_max_vfm_temporal_layer_def Let_def
    by (intro sub_inv_recap [OF inv]) (use inv in \<open>simp_all add: sub_inv_def\<close>)
  then show ?thesis by (simp add: SetCap)
next
  case (Estimate b)
  have "bwe_next_cap lo hi cap b \<le> 255" for lo hi cap using bwe_next_cap_range [of lo hi cap b] by auto
  then have "sub_inv f (snd (bwe_select_temporal_cap b c))"
    unfolding bwe_select_temporal_cap_def Let_def snd_conv
    by (intro sub_inv_recap [OF inv]) (use inv in \<open>simp_all add: sub_inv_def\<close>)
  then show ?thesis by (simp add: Estimate)
next
  case (Packet now st og d)
  define c1 where "c1 = bump (Inc ''sfu_dd_frames_total'' [if md_dd d \<noteq> None then ''true'' else ''false'']) c"
  have "sub_inv f c1" using inv by (simp add: c1_def sub_inv_bump)
  from dd_filter_inv [OF this, of og d now st] obtain b c2 where
    f: "dd_filter og d c1 = Done (b, c2)" "sub_inv (announce (Packet now st og d) f) c2" by blast
  have h: "handle_media_data_out api now st og d c = (if b then Done c2 else Done (forward_media api now st og d c2))"
    using f(1) by (cases b) (simp_all add: handle_media_data_out_def c1_def Let_def)
  have "sub_inv (announce (Packet now st og d) f) (forward_media api now st og d c2)"
    by (rule sub_inv_frame [OF f(2)]) (simp_all add: forward_media_frame forward_media_caps)
  then show ?thesis using f(2) by (cases b) (simp_all add: h Packet)
qed

lemma sub_run_inv:
  "sub_inv f c \<Longrightarrow> \<exists>c'. sub_run api es c = Done c' \<and> sub_inv (fold announce es f) c'"
proof (induction es arbitrary: f c)
  case (Cons e es)
  from sub_step_inv [OF Cons.prems, of api e] obtain c' where
    "sub_step api e c = Done c'" "sub_inv (announce e f) c'" by blast
  with Cons.IH [OF this(2)] show ?case by simp
qed simp

section \<open>Property\<close>

lemma resolved_by:
  assumes "parse_dependency_descriptor bytes prior = Done p" and "dd_temporal_id p = Some t"
  shows "\<exists>s. (case dd_structure p of Some s \<Rightarrow> Some s | None \<Rightarrow> prior) = Some s \<and>
    t = tpl_temporal_id (templates s ! ((frame_dependency_template_id p + 64 - template_id_offset s) mod 64))"
proof -
  have l: "\<not> length bytes < 3" using assms(1) by (auto simp: parse_dependency_descriptor_def)
  note P = assms(1) [unfolded parse_dependency_descriptor_def if_not_P [OF l] obind_Done]
  from P obtain tid e r5 sof eof num where
    k: "(case e of (structure, dtis_flag, fdiffs_flag, chains_flag) \<Rightarrow> \<lambda>r.
       let resolve = (case structure of Some s \<Rightarrow> Some s | None \<Rightarrow> prior) in
       case resolve_layer resolve tid of
         Panic \<Rightarrow> Panic
       | Fail \<Rightarrow> Fail
       | Done (t, s) \<Rightarrow>
           obind (read_overrides resolve dtis_flag fdiffs_flag chains_flag r) (\<lambda>_ r.
             Done \<lparr>start_of_frame = sof, end_of_frame = eof, frame_dependency_template_id = tid,
                   frame_number = num, dd_temporal_id = t, dd_spatial_id = s,
                   dd_structure = structure\<rparr>)) r5 = Done p"
    by blast
  obtain s' x y z where e: "e = (s', x, y, z)" by (cases e)
  let ?res = "case s' of Some s \<Rightarrow> Some s | None \<Rightarrow> prior"
  from k e obtain sp where r: "resolve_layer ?res tid = Done (Some t, sp)"
    and p: "dd_structure p = s'" "frame_dependency_template_id p = tid"
    using assms(2) by (auto simp: Let_def obind_Done split: out.splits prod.splits)
  from r show ?thesis by (auto simp: resolve_layer_def p Let_def split: option.splits if_splits)
qed

lemma dd_filter_dropped:
  assumes "dd_filter og d c = Done (True, c')"
  obtains bytes p t where "md_dd d = Some bytes" "effective_temporal_cap c < 255"
    "parse_dependency_descriptor bytes (dd_get (og, md_mid d) (dd_cache c)) = Done p"
    "dd_temporal_id p = Some t" "effective_temporal_cap c < t"
proof (cases "md_dd d")
  case None
  with assms show thesis by (simp add: dd_filter_def)
next
  case (Some bytes)
  have cap: "effective_temporal_cap c < 255" using assms Some by (simp add: dd_filter_def split: if_splits)
  show thesis
  proof (cases "parse_dependency_descriptor bytes (dd_get (og, md_mid d) (dd_cache c))")
    case (Done p)
    obtain t where "dd_temporal_id p = Some t" "effective_temporal_cap c < t"
      using assms Some cap Done
      by (cases "dd_temporal_id p"; cases "dd_structure p") (simp_all add: dd_filter_def Let_def split: if_splits)
    with Some cap Done show thesis by (rule that)
  qed (use assms Some cap in \<open>simp_all add: dd_filter_def\<close>)
qed

text \<open>C3: From a new client, after any history of cap changes, estimates and packets, the SFU has not
  panicked; and if it then drops a packet for its temporal layer, a structure is known for the stream,
  the one this packet announces or else the one the stream announced last in the whole history
  (the windows in which no cap was in force included), and the packet's template in it lies above the
  cap in force.\<close>

theorem temporal_drop_uses_latest_structure:
  "\<exists>c. sub_run api es (new_client api wc cfg i r) = Done c \<and>
    (\<forall>og d c'. dd_filter og d c = Done (True, c') \<longrightarrow>
      (\<exists>bytes p s t. md_dd d = Some bytes \<and> parse_dependency_descriptor bytes (latest es (og, md_mid d)) = Done p \<and>
        (case announced d of Some s' \<Rightarrow> Some s' | None \<Rightarrow> latest es (og, md_mid d)) = Some s \<and>
        t = tpl_temporal_id (templates s ! ((frame_dependency_template_id p + 64 - template_id_offset s) mod 64)) \<and>
        effective_temporal_cap c < t))"
proof -
  from sub_run_inv [OF sub_inv_new, of api es] obtain c where
    run: "sub_run api es (new_client api wc cfg i r) = Done c" and inv: "sub_inv (latest es) c"
    unfolding latest_def by blast
  have "\<exists>bytes p s t. md_dd d = Some bytes \<and> parse_dependency_descriptor bytes (latest es (og, md_mid d)) = Done p \<and>
        (case announced d of Some s' \<Rightarrow> Some s' | None \<Rightarrow> latest es (og, md_mid d)) = Some s \<and>
        t = tpl_temporal_id (templates s ! ((frame_dependency_template_id p + 64 - template_id_offset s) mod 64)) \<and>
        effective_temporal_cap c < t"
    if drop: "dd_filter og d c = Done (True, c')" for og d c'
  proof -
    let ?prior = "dd_get (og, md_mid d) (dd_cache c)"
    from drop obtain bytes p t where
      b: "md_dd d = Some bytes" "effective_temporal_cap c < 255" "parse_dependency_descriptor bytes ?prior = Done p"
        "dd_temporal_id p = Some t" "effective_temporal_cap c < t"
      by (rule dd_filter_dropped)
    from resolved_by [OF b(3,4)] obtain s where
      s: "(case dd_structure p of Some s \<Rightarrow> Some s | None \<Rightarrow> ?prior) = Some s"
        "t = tpl_temporal_id (templates s ! ((frame_dependency_template_id p + 64 - template_id_offset s) mod 64))"
      by blast
    have an: "announced d = dd_structure p" by (rule parse_announced [OF b(1,3)])
    have own: "?prior = latest es (og, md_mid d)" if "dd_structure p = None"
      using that s(1) inv b(2) by (simp add: sub_inv_def)
    have "parse_dependency_descriptor bytes (latest es (og, md_mid d)) = Done p"
      using own b(3) parse_own_structure [OF b(3)] by (cases "dd_structure p") simp_all
    moreover have "(case announced d of Some s' \<Rightarrow> Some s' | None \<Rightarrow> latest es (og, md_mid d)) = Some s"
      using s(1) own by (cases "dd_structure p") (simp_all add: an)
    ultimately show ?thesis using b(1,5) s(2) by blast
  qed
  with run show ?thesis by blast
qed


section \<open>A concrete history\<close>

text \<open>A keyframe that announces two temporal layers, and a later frame of the upper one.\<close>

definition demo_key_bytes :: "byte list" where
  "demo_key_bytes = [0xC0, 0, 1, 0x80, 0x01, 0x7A, 0xA0]"

definition demo_announced :: template_dependency_structure where
  "demo_announced = \<lparr>template_id_offset = 0, template_count = 2, dt_cnt = 2, chain_cnt = 0,
    max_temporal_id = 1, max_spatial_id = 0,
    templates = [\<lparr>tpl_temporal_id = 0, tpl_spatial_id = 0, tpl_dtis = [2, 2], tpl_fdiffs = [], tpl_chain_fdiffs = []\<rparr>,
                 \<lparr>tpl_temporal_id = 1, tpl_spatial_id = 0, tpl_dtis = [2, 2], tpl_fdiffs = [], tpl_chain_fdiffs = []\<rparr>]\<rparr>"

definition demo_key_packet :: media_data where
  "demo_key_packet = demo_packet\<lparr>md_dd := Some demo_key_bytes\<rparr>"

definition demo_history :: "sub_event list" where
  "demo_history = [SetCap 0, Packet 5 demo_store 7 demo_key_packet]"

lemma demo_key_bits:
  "bits_of demo_key_bytes = map (\<lambda>n. n = (1 :: nat))
    [1,1,0,0,0,0,0,0, 0,0,0,0,0,0,0,0, 0,0,0,0,0,0,0,1, 1,0,0,0,0,0,0,0, 0,0,0,0,0,0,0,1,
     0,1,1,1,1,0,1,0, 1,0,1,0,0,0,0,0]"
  by (simp add: demo_key_bytes_def bits_exec)

lemma demo_read_bits:
  "read_bits n \<lparr>rd_bytes = demo_key_bytes, bit_pos = p\<rparr> =
    (if n > 32 \<or> 56 - p < n then Fail
     else Done (bits_val (take n (drop p (bits_of demo_key_bytes))), \<lparr>rd_bytes = demo_key_bytes, bit_pos = p + n\<rparr>))"
proof -
  have "length demo_key_bytes = 7" by (simp add: demo_key_bytes_def)
  then show ?thesis by (simp add: read_bits_eq remaining_def total_bits_def rest_def)
qed

lemma read_many_2:
  "read_many p 2 r = (case p r of Panic \<Rightarrow> Panic | Fail \<Rightarrow> Fail | Done (x, r1) \<Rightarrow>
    (case p r1 of Panic \<Rightarrow> Panic | Fail \<Rightarrow> Fail | Done (y, r2) \<Rightarrow> Done ([x, y], r2)))"
  by (simp add: numeral_2_eq_2 split: out.split prod.split)

lemmas key_exec = demo_read_bits demo_key_bits bits_val_def read_bool_def obind_def

lemma demo_layers:
  "parse_template_layers \<lparr>rd_bytes = demo_key_bytes, bit_pos = 40\<rparr> =
    Done (([(0, 0), (0, 1)], 1, 0), \<lparr>rd_bytes = demo_key_bytes, bit_pos = 44\<rparr>)"
  unfolding parse_template_layers_def
  by (subst layers_loop.simps, simp add: key_exec checked_add_u8_def)
    (subst layers_loop.simps, simp add: key_exec checked_add_u8_def)

lemma demo_blocks:
  "read_blocks 0 2 ([(0, 0), (0, 1)], 1, 0) \<lparr>rd_bytes = demo_key_bytes, bit_pos = 44\<rparr> =
    Done (demo_announced, \<lparr>rd_bytes = demo_key_bytes, bit_pos = 56\<rparr>)"
  by (simp add: read_blocks_def read_many_2 key_exec parse_template_fdiffs_def read_ns_def bit_width.simps
      read_chains_def read_resolutions_def demo_announced_def)

lemma demo_structure_parse:
  "parse_template_dependency_structure \<lparr>rd_bytes = demo_key_bytes, bit_pos = 29\<rparr> =
    Done (demo_announced, \<lparr>rd_bytes = demo_key_bytes, bit_pos = 56\<rparr>)"
  by (simp add: parse_template_dependency_structure_def key_exec checked_add_u8_def demo_layers demo_blocks [simplified]
      flip: numeral_2_eq_2)

lemma demo_key_parse:
  "parse_dependency_descriptor demo_key_bytes prior =
    Done \<lparr>start_of_frame = True, end_of_frame = True, frame_dependency_template_id = 0, frame_number = 1,
      dd_temporal_id = Some 0, dd_spatial_id = Some 0, dd_structure = Some demo_announced\<rparr>"
proof -
  have l: "length demo_key_bytes = 7" by (simp add: demo_key_bytes_def)
  have "read_extended prior \<lparr>rd_bytes = demo_key_bytes, bit_pos = 24\<rparr> =
      Done ((Some demo_announced, False, False, False), \<lparr>rd_bytes = demo_key_bytes, bit_pos = 56\<rparr>)"
    by (simp add: read_extended_def key_exec demo_structure_parse) (simp add: demo_announced_def)
  then show ?thesis
    by (simp add: parse_dependency_descriptor_def l new_reader_def key_exec resolve_layer_def read_overrides_def Let_def)
      (simp add: demo_announced_def)
qed


lemma demo_run:
  "sub_run demo_api demo_history demo_client = Done (bump (decision 7 demo_client ''other'' ''skipped_no_track'')
    (bump (Inc ''layer_selection_total'' [''q''])
      (bump (Inc ''sfu_dd_frames_total'' [''true''])
        (demo_client\<lparr>max_vfm_temporal_layer := 0, dd_cache := dd_insert (7, ''v'') demo_announced (dd_clear dd_new)\<rparr>))))"
  by (simp add: demo_history_def set_max_vfm_temporal_layer_def invalidate_dd_cache_on_cap_engage_def
      handle_media_data_out_def dd_filter_def demo_key_packet_def demo_packet_def demo_key_parse
      effective_temporal_cap_def forward_media_def layer_matches_def bump_def decision_def client_label_def
      rid_label_for_def demo_simps)

lemma demo_announced_latest: "latest demo_history (7, ''v'') = Some demo_announced"
  by (simp add: latest_def demo_history_def announced_def demo_key_packet_def demo_packet_def demo_key_parse)

lemma demo_upper_parse:
  "parse_dependency_descriptor [0xC1, 0, 7] (Some demo_announced) =
    Done \<lparr>start_of_frame = True, end_of_frame = True, frame_dependency_template_id = 1, frame_number = 7,
      dd_temporal_id = Some 1, dd_spatial_id = Some 0, dd_structure = None\<rparr>"
  by (simp add: dd_exec bits_exec demo_announced_def)

theorem temporal_drop_uses_latest_structure_witness:
  "\<exists>c c'. sub_run demo_api demo_history demo_client = Done c \<and> dd_filter 7 demo_packet c = Done (True, c') \<and>
    latest demo_history (7, ''v'') = Some demo_announced \<and>
    effective_temporal_cap c < tpl_temporal_id (templates demo_announced ! 1)"
proof -
  obtain c where c: "sub_run demo_api demo_history demo_client = Done c"
    and sound: "\<And>og d c'. dd_filter og d c = Done (True, c') \<Longrightarrow>
      (\<exists>bytes p s t. md_dd d = Some bytes \<and> parse_dependency_descriptor bytes (latest demo_history (og, md_mid d)) = Done p \<and>
        (case announced d of Some s' \<Rightarrow> Some s' | None \<Rightarrow> latest demo_history (og, md_mid d)) = Some s \<and>
        t = tpl_temporal_id (templates s ! ((frame_dependency_template_id p + 64 - template_id_offset s) mod 64)) \<and>
        effective_temporal_cap c < t)"
    using temporal_drop_uses_latest_structure [of demo_api demo_history "\<lambda>_. 0"
        "oxpulse_partner_edge_pacer_config demo_config False" 1 0]
    unfolding demo_client_def [symmetric] by blast
  have "dd_cache c = dd_insert (7, ''v'') demo_announced (dd_clear dd_new)" "effective_temporal_cap c = 0"
    using c by (auto simp: demo_run effective_temporal_cap_def)
  then obtain c' where drop: "dd_filter 7 demo_packet c = Done (True, c')"
    by (simp add: dd_filter_def demo_packet_def dcache.get_ins_same demo_upper_parse Let_def)
  have "announced demo_packet = None"
    by (simp add: announced_def demo_packet_def dd_exec bits_exec)
  then show ?thesis using sound [OF drop] c drop
    by (auto simp: demo_announced_latest demo_packet_def demo_upper_parse) (simp add: demo_announced_def)
qed

end
