(* ===== verification/Sfu_Renego.thy ===== *)
theory Sfu_Renego
  imports Sfu_Temporal
begin

text \<open>
  SDP renegotiation of outgoing tracks, \<open>client/renegotiation.rs\<close>: one offer in flight at a time, further
  tracks queued, answers accepted, refused or timed out.  A track is \<open>Negotiating\<close> from its offer until
  an answer makes it \<open>Open\<close>.
\<close>

section \<open>Operations\<close>

definition peer_stream_id :: "nat \<Rightarrow> string" where
  "peer_stream_id n = ''peer-'' @ show_nat n"

definition build_tracks_map_update_frame :: "mid \<Rightarrow> nat \<Rightarrow> media_kind \<Rightarrow> ws_frame" where
  "build_tracks_map_update_frame m pid kind = TracksMapUpdate m pid (kind_label kind) (peer_stream_id pid)"

definition answers :: "string \<Rightarrow> metric" where
  "answers outcome = Inc ''sfu_renegotiation_answers_total'' [outcome]"

text \<open>The state after the offer was built: the new track, the pending offer and its time.\<close>

definition offer_made ::
  "instant \<Rightarrow> track_ref \<Rightarrow> track_in \<Rightarrow> mid \<Rightarrow> nat \<Rightarrow> ('r, 'p) client \<Rightarrow> ('r, 'p) client" where
  "offer_made now ref t m pending c =
    (bump (Inc ''sfu_renegotiation_offers_sent_total'' [kind_label (ti_kind t)])
      (bump (Inc ''sfu_track_out_state_transitions_total'' [''to_open'', ''negotiating''])
        (c\<lparr>tracks_out := tracks_out c @ [\<lparr>to_track_in = ref, to_state = Negotiating m\<rparr>]\<rparr>)))
      \<lparr>pending_offer := Some pending, pending_offer_at := Some now\<rparr>"

definition send_offer ::
  "track_ref \<Rightarrow> track_in \<Rightarrow> mid \<Rightarrow> string \<Rightarrow> ('r, 'p) client \<Rightarrow> ('r, 'p) client" where
  "send_offer ref t m sdp c =
    (case ws_msg_tx c of
       None \<Rightarrow> c
     | Some tx \<Rightarrow>
         (case try_send (OfferRenegotiate sdp m) tx of
            (Some _, _) \<Rightarrow>
              bump (Inc ''sfu_renegotiation_offers_dropped_total'' [kind_label (ti_kind t)])
                (c\<lparr>pending_offer := None, pending_offer_at := None, tracks_out := butlast (tracks_out c),
                   renegotiation_queue := ref # renegotiation_queue c\<rparr>)
          | (None, tx1) \<Rightarrow>
              (let c1 = c\<lparr>ws_msg_tx := Some tx1\<rparr> in
               case ti_external_peer_id t of
                 None \<Rightarrow> c1
               | Some pid \<Rightarrow>
                   (case try_send (build_tracks_map_update_frame m pid (ti_kind t)) tx1 of
                      (None, tx2) \<Rightarrow> c1\<lparr>ws_msg_tx := Some tx2\<rparr>
                    | (Some Full, _) \<Rightarrow>
                        bump (Inc ''sfu_renegotiation_tracks_map_update_dropped_total'' [''ws_tx_full'']) c1
                    | (Some Closed, _) \<Rightarrow>
                        bump (Inc ''sfu_renegotiation_tracks_map_update_dropped_total'' [''channel_closed'']) c1))))"

definition start_renegotiation ::
  "('r, 'p) rtc_api \<Rightarrow> instant \<Rightarrow> track_store \<Rightarrow> track_ref \<Rightarrow> ('r, 'p) client \<Rightarrow> ('r, 'p) client" where
  "start_renegotiation api now st ref c =
    (case st ref of
       None \<Rightarrow> c
     | Some t \<Rightarrow>
         (case rtc_add_media api (rtc c) (ti_kind t) (peer_stream_id (ti_origin t)) of
            (m, None, r) \<Rightarrow> c\<lparr>rtc := r\<rparr>
          | (m, Some (sdp, pending), r) \<Rightarrow>
              send_offer ref t m sdp (offer_made now ref t m pending (c\<lparr>rtc := r\<rparr>))))"

definition handle_track_open ::
  "('r, 'p) rtc_api \<Rightarrow> instant \<Rightarrow> track_store \<Rightarrow> track_ref \<Rightarrow> ('r, 'p) client \<Rightarrow> ('r, 'p) client" where
  "handle_track_open api now st ref c =
    (if ws_msg_tx c = None then c\<lparr>tracks_out := tracks_out c @ [\<lparr>to_track_in = ref, to_state = ToOpen\<rparr>]\<rparr>
     else if pending_offer c \<noteq> None then c\<lparr>renegotiation_queue := renegotiation_queue c @ [ref]\<rparr>
     else start_renegotiation api now st ref c)"

definition open_track :: "track_out \<Rightarrow> track_out" where
  "open_track o1 = (case to_state o1 of Negotiating m \<Rightarrow> o1\<lparr>to_state := Open m\<rparr> | _ \<Rightarrow> o1)"

definition flip_negotiating_to_open_all :: "('r, 'p) client \<Rightarrow> bool \<times> ('r, 'p) client" where
  "flip_negotiating_to_open_all c =
    (let n = length (filter is_negotiating (tracks_out c)) in
     (n > 0, c\<lparr>tracks_out := map open_track (tracks_out c),
               metrics := metrics c @
                 replicate n (Inc ''sfu_track_out_state_transitions_total'' [''negotiating'', ''open''])\<rparr>))"

definition handle_zero_transition_after_accept :: "('r, 'p) client \<Rightarrow> ('r, 'p) client" where
  "handle_zero_transition_after_accept c =
    (bump (answers ''state_mismatch'') c)\<lparr>pending_offer := None, pending_offer_at := None\<rparr>"

text \<open>\<open>renegotiation_queue.pop_front()\<close> and a new offer for the track found.\<close>

definition offer_next ::
  "('r, 'p) rtc_api \<Rightarrow> instant \<Rightarrow> track_store \<Rightarrow> ('r, 'p) client \<Rightarrow> ('r, 'p) client" where
  "offer_next api now st c =
    (case renegotiation_queue c of
       [] \<Rightarrow> c
     | ref # refs \<Rightarrow> start_renegotiation api now st ref (c\<lparr>renegotiation_queue := refs\<rparr>))"

definition drop_negotiating :: "('r, 'p) client \<Rightarrow> ('r, 'p) client" where
  "drop_negotiating c = c\<lparr>tracks_out := filter (\<lambda>o1. \<not> is_negotiating o1) (tracks_out c)\<rparr>"

definition accept_renegotiation_answer ::
  "('r, 'p) rtc_api \<Rightarrow> instant \<Rightarrow> track_store \<Rightarrow> string \<Rightarrow> ('r, 'p) client \<Rightarrow> ('r, 'p) client" where
  "accept_renegotiation_answer api now st sdp c =
    (let c0 = c\<lparr>pending_offer_at := None\<rparr> in
     case pending_offer c0 of
       None \<Rightarrow> c0
     | Some pending \<Rightarrow>
         (let c1 = c0\<lparr>pending_offer := None\<rparr> in
          if \<not> rtc_answer_parses api sdp then bump (answers ''err'') c1
          else
            (case rtc_accept_answer api (rtc c1) pending sdp of (ok, r) \<Rightarrow>
             (let c2 = c1\<lparr>rtc := r\<rparr> in
              if \<not> ok then offer_next api now st (drop_negotiating (bump (answers ''err'') c2))
              else
                (case flip_negotiating_to_open_all c2 of (transitioned, c3) \<Rightarrow>
                 if \<not> transitioned then handle_zero_transition_after_accept c3
                 else offer_next api now st
                   (start_keyframe_waits_for_open_video_tracks now st (bump (answers ''ok'') c3)))))))"

definition drain_timeout ::
  "('r, 'p) rtc_api \<Rightarrow> instant \<Rightarrow> track_store \<Rightarrow> ('r, 'p) client \<Rightarrow> ('r, 'p) client" where
  "drain_timeout api now st c =
    (let c1 = bump (answers ''timeout'') (drop_negotiating (c\<lparr>pending_offer := None, pending_offer_at := None\<rparr>)) in
     fold (start_renegotiation api now st) (renegotiation_queue c1) (c1\<lparr>renegotiation_queue := []\<rparr>))"

definition drain_closed :: "('r, 'p) client \<Rightarrow> ('r, 'p) client" where
  "drain_closed c =
    (let c1 = c\<lparr>ws_ctrl_rx := None\<rparr> in
     if pending_offer_at c1 = None then c1
     else (bump (answers ''ws_closed'') (drop_negotiating (c1\<lparr>pending_offer := None, pending_offer_at := None\<rparr>)))
            \<lparr>renegotiation_queue := []\<rparr>)"

fun handle_ctrl ::
  "('r, 'p) rtc_api \<Rightarrow> instant \<Rightarrow> track_store \<Rightarrow> ws_client_ctrl \<Rightarrow> ('r, 'p) client \<Rightarrow> ('r, 'p) client" where
  "handle_ctrl api now st (AnswerRenegotiate sdp m) c = accept_renegotiation_answer api now st sdp c"

definition drain_ws_ctrl ::
  "('r, 'p) rtc_api \<Rightarrow> instant \<Rightarrow> track_store \<Rightarrow> ('r, 'p) client \<Rightarrow> ('r, 'p) client" where
  "drain_ws_ctrl api now st c =
    (if (case pending_offer_at c of None \<Rightarrow> False | Some sent_at \<Rightarrow> now - sent_at > secs 10)
     then drain_timeout api now st c
     else
       (case ws_ctrl_rx c of
          None \<Rightarrow> c
        | Some rx \<Rightarrow>
            (let c1 = (if wr_disconnected rx then drain_closed c
                       else c\<lparr>ws_ctrl_rx := Some (rx\<lparr>wr_queue := []\<rparr>)\<rparr>) in
             fold (handle_ctrl api now st) (wr_queue rx) c1)))"


section \<open>One offer in flight\<close>

definition negs :: "('r, 'p) client \<Rightarrow> nat" where
  "negs c = length (filter is_negotiating (tracks_out c))"

definition offer_sync :: "('r, 'p) client \<Rightarrow> bool" where
  "offer_sync c \<longleftrightarrow> (pending_offer c = None \<longleftrightarrow> pending_offer_at c = None)"

definition renego_inv :: "('r, 'p) client \<Rightarrow> bool" where
  "renego_inv c \<longleftrightarrow> offer_sync c \<and> negs c = (if pending_offer c = None then 0 else 1)"

definition idle :: "('r, 'p) client \<Rightarrow> bool" where
  "idle c \<longleftrightarrow> pending_offer c = None \<and> pending_offer_at c = None \<and> negs c = 0"

text \<open>The part of the state the offers live in.\<close>

definition offer_view :: "('r, 'p) client \<Rightarrow> track_out list \<times> nat option \<times> instant option" where
  "offer_view c = (tracks_out c, pending_offer c, pending_offer_at c)"

lemma offer_viewD:
  assumes "offer_view c' = offer_view c"
  shows "renego_inv c' = renego_inv c" "idle c' = idle c" "negs c' = negs c" "offer_sync c' = offer_sync c"
  using assms by (simp_all add: offer_view_def renego_inv_def idle_def negs_def offer_sync_def)

lemma idle_inv: "idle c \<Longrightarrow> renego_inv c"
  by (simp add: idle_def renego_inv_def offer_sync_def)

lemma inv_idle: "renego_inv c \<Longrightarrow> pending_offer c = None \<Longrightarrow> idle c"
  by (simp add: idle_def renego_inv_def offer_sync_def)

lemma offer_made_view:
  "offer_view (offer_made now ref t m pending c) =
    (tracks_out c @ [\<lparr>to_track_in = ref, to_state = Negotiating m\<rparr>], Some pending, Some now)"
  by (simp add: offer_made_def offer_view_def bump_def)

lemma send_offer_view:
  "offer_view (send_offer ref t m sdp c) = offer_view c \<or>
    offer_view (send_offer ref t m sdp c) = (butlast (tracks_out c), None, None)"
  by (auto simp: send_offer_def offer_view_def bump_def Let_def split: option.splits prod.splits send_error.splits)

lemma start_view:
  "offer_view (start_renegotiation api now st ref c) = offer_view c \<or>
   (\<exists>m pending. offer_view (start_renegotiation api now st ref c) =
      (tracks_out c @ [\<lparr>to_track_in = ref, to_state = Negotiating m\<rparr>], Some pending, Some now)) \<or>
   offer_view (start_renegotiation api now st ref c) = (tracks_out c, None, None)"
proof (cases "st ref")
  case None
  then show ?thesis by (simp add: start_renegotiation_def)
next
  case (Some t)
  obtain m ap r where a: "rtc_add_media api (rtc c) (ti_kind t) (peer_stream_id (ti_origin t)) = (m, ap, r)"
    by (cases "rtc_add_media api (rtc c) (ti_kind t) (peer_stream_id (ti_origin t))")
  show ?thesis
  proof (cases ap)
    case None
    then show ?thesis by (simp add: start_renegotiation_def Some a offer_view_def)
  next
    case ap: (Some op)
    obtain sdp pending where op: "op = (sdp, pending)" by (cases op)
    let ?c = "offer_made now ref t m pending (c\<lparr>rtc := r\<rparr>)"
    have "start_renegotiation api now st ref c = send_offer ref t m sdp ?c"
      by (simp add: start_renegotiation_def Some a ap op)
    moreover have "tracks_out ?c = tracks_out c @ [\<lparr>to_track_in = ref, to_state = Negotiating m\<rparr>]"
      by (simp add: offer_made_def bump_def)
    ultimately show ?thesis
      using send_offer_view [of ref t m sdp ?c] offer_made_view [of now ref t m pending "c\<lparr>rtc := r\<rparr>"] by auto
  qed
qed

lemma start_inv: "idle c \<Longrightarrow> renego_inv (start_renegotiation api now st ref c)"
  using start_view [of api now st ref c]
  by (auto simp: offer_view_def idle_def renego_inv_def offer_sync_def negs_def is_negotiating_def)

lemma start_sync: "offer_sync c \<Longrightarrow> offer_sync (start_renegotiation api now st ref c)"
  using start_view [of api now st ref c] by (auto simp: offer_view_def offer_sync_def)

lemma handle_track_open_inv: "renego_inv c \<Longrightarrow> renego_inv (handle_track_open api now st ref c)"
  by (auto simp: handle_track_open_def start_inv inv_idle)
    (auto simp: renego_inv_def negs_def offer_sync_def is_negotiating_def)

lemma queue_view [simp]: "offer_view (c\<lparr>renegotiation_queue := q\<rparr>) = offer_view c"
  by (simp add: offer_view_def)

lemma offer_next_inv: "idle c \<Longrightarrow> renego_inv (offer_next api now st c)"
proof (cases "renegotiation_queue c")
  case Nil
  then show "idle c \<Longrightarrow> ?thesis" by (simp add: offer_next_def idle_inv)
next
  case (Cons ref refs)
  assume "idle c"
  then have "idle (c\<lparr>renegotiation_queue := refs\<rparr>)" using offer_viewD(2) [OF queue_view] by blast
  with Cons show ?thesis by (simp add: offer_next_def start_inv)
qed

lemma waits_view: "offer_view (start_keyframe_waits_for_open_video_tracks now st c) = offer_view c"
proof -
  have "offer_view (fold (\<lambda>(og, m). start_keyframe_wait now og m) ks c) = offer_view c" for ks c
    by (induction ks arbitrary: c) (auto simp: start_keyframe_wait_def bump_def offer_view_def Let_def)
  then show ?thesis by (simp add: start_keyframe_waits_for_open_video_tracks_def)
qed

lemma negs_open: "filter is_negotiating (map open_track os) = []"
  by (induction os) (auto simp: open_track_def is_negotiating_def split: track_out_state.splits)

lemma accept_inv:
  assumes inv: "renego_inv c" and parses: "rtc_answer_parses api sdp"
  shows "renego_inv (accept_renegotiation_answer api now st sdp c)"
proof (cases "pending_offer c")
  case None
  then show ?thesis using inv by (simp add: accept_renegotiation_answer_def renego_inv_def offer_sync_def negs_def)
next
  case (Some pending)
  let ?c1 = "c\<lparr>pending_offer_at := None, pending_offer := None\<rparr>"
  obtain ok r where a: "rtc_accept_answer api (rtc c) pending sdp = (ok, r)"
    by (cases "rtc_accept_answer api (rtc c) pending sdp")
  show ?thesis
  proof (cases ok)
    case False
    let ?d = "drop_negotiating (bump (answers ''err'') (?c1\<lparr>rtc := r\<rparr>))"
    have "idle ?d" by (simp add: idle_def drop_negotiating_def bump_def negs_def filter_filter)
    then show ?thesis using Some parses a False
      by (simp add: accept_renegotiation_answer_def offer_next_inv)
  next
    case True
    define c3 where "c3 = snd (flip_negotiating_to_open_all (?c1\<lparr>rtc := r\<rparr>))"
    have n: "fst (flip_negotiating_to_open_all (?c1\<lparr>rtc := r\<rparr>))"
      using inv Some by (simp add: flip_negotiating_to_open_all_def renego_inv_def negs_def Let_def)
    have "idle c3" by (simp add: c3_def flip_negotiating_to_open_all_def idle_def negs_def negs_open Let_def)
    then have "idle (start_keyframe_waits_for_open_video_tracks now st (bump (answers ''ok'') c3))"
      using offer_viewD(2) [OF waits_view, of now st "bump (answers ''ok'') c3"]
      by (simp add: idle_def bump_def negs_def)
    then have "renego_inv (offer_next api now st (start_keyframe_waits_for_open_video_tracks now st (bump (answers ''ok'') c3)))"
      by (rule offer_next_inv)
    then show ?thesis using Some parses a True n
      by (simp add: accept_renegotiation_answer_def split_def c3_def)
  qed
qed

lemma drop_idle: "idle (drop_negotiating (c\<lparr>pending_offer := None, pending_offer_at := None\<rparr>))"
  by (simp add: idle_def drop_negotiating_def negs_def filter_filter)

lemma idle_bump: "idle (bump m c) = idle c"
  by (simp add: idle_def bump_def negs_def)

lemma drain_timeout_inv:
  assumes "length (renegotiation_queue c) \<le> 1"
  shows "renego_inv (drain_timeout api now st c)"
proof -
  let ?d = "bump (answers ''timeout'') (drop_negotiating (c\<lparr>pending_offer := None, pending_offer_at := None\<rparr>))"
  have q: "renegotiation_queue ?d = renegotiation_queue c" by (simp add: bump_def drop_negotiating_def)
  have i: "idle (?d\<lparr>renegotiation_queue := []\<rparr>)"
    using drop_idle [of c] by (simp add: idle_bump offer_viewD(2) [OF queue_view])
  have "drain_timeout api now st c = fold (start_renegotiation api now st) (renegotiation_queue c) (?d\<lparr>renegotiation_queue := []\<rparr>)"
    by (simp add: drain_timeout_def Let_def q)
  then show ?thesis using assms i
    by (cases "renegotiation_queue c") (simp_all add: idle_inv start_inv)
qed

lemma drain_closed_inv: "renego_inv c \<Longrightarrow> renego_inv (drain_closed c)"
proof (cases "pending_offer_at c = None")
  case True
  then show "renego_inv c \<Longrightarrow> ?thesis" by (simp add: drain_closed_def renego_inv_def offer_sync_def negs_def)
next
  case False
  have "idle (drain_closed c)"
    using False by (auto simp: drain_closed_def Let_def idle_def drop_negotiating_def bump_def negs_def filter_filter)
  then show ?thesis by (rule idle_inv)
qed

definition timed_out :: "instant \<Rightarrow> ('r, 'p) client \<Rightarrow> bool" where
  "timed_out now c = (case pending_offer_at c of None \<Rightarrow> False | Some sent_at \<Rightarrow> now - sent_at > secs 10)"

definition ctrl_answers :: "('r, 'p) client \<Rightarrow> string list" where
  "ctrl_answers c = (case ws_ctrl_rx c of None \<Rightarrow> [] | Some rx \<Rightarrow> map (\<lambda>a. case a of AnswerRenegotiate sdp _ \<Rightarrow> sdp) (wr_queue rx))"

lemma handle_ctrls_inv:
  "renego_inv c \<Longrightarrow> (\<And>a. a \<in> set as \<Longrightarrow> rtc_answer_parses api (case a of AnswerRenegotiate sdp _ \<Rightarrow> sdp)) \<Longrightarrow>
    renego_inv (fold (handle_ctrl api now st) as c)"
proof (induction as arbitrary: c)
  case (Cons a as)
  obtain sdp m where a: "a = AnswerRenegotiate sdp m" by (cases a)
  have "rtc_answer_parses api sdp" using Cons.prems(2) [of a] by (simp add: a)
  then have "renego_inv (handle_ctrl api now st a c)" using Cons.prems(1) by (simp add: a accept_inv)
  then show ?case using Cons.IH Cons.prems(2) by simp
qed simp

lemma drain_ws_ctrl_inv:
  assumes inv: "renego_inv c" and parse: "\<And>sdp. sdp \<in> set (ctrl_answers c) \<Longrightarrow> rtc_answer_parses api sdp"
    and late: "timed_out now c \<Longrightarrow> length (renegotiation_queue c) \<le> 1"
  shows "renego_inv (drain_ws_ctrl api now st c)"
proof (cases "timed_out now c")
  case True
  then show ?thesis using late by (simp add: drain_ws_ctrl_def timed_out_def drain_timeout_inv)
next
  case False
  show ?thesis
  proof (cases "ws_ctrl_rx c")
    case None
    then show ?thesis using False inv by (simp add: drain_ws_ctrl_def timed_out_def)
  next
    case (Some rx)
    let ?c1 = "if wr_disconnected rx then drain_closed c else c\<lparr>ws_ctrl_rx := Some (rx\<lparr>wr_queue := []\<rparr>)\<rparr>"
    have "renego_inv ?c1" using inv by (simp add: drain_closed_inv) (simp add: renego_inv_def offer_sync_def negs_def)
    moreover have "rtc_answer_parses api (case a of AnswerRenegotiate sdp _ \<Rightarrow> sdp)" if "a \<in> set (wr_queue rx)" for a
      by (rule parse) (use that in \<open>simp add: ctrl_answers_def Some\<close>)
    ultimately have "renego_inv (fold (handle_ctrl api now st) (wr_queue rx) ?c1)" by (rule handle_ctrls_inv)
    then show ?thesis using False Some by (simp add: drain_ws_ctrl_def timed_out_def Let_def)
  qed
qed


section \<open>A client's life\<close>

text \<open>
  The states a client can reach: tracks opened by publishers, the browser's side of the channels
  changing freely (attached, read, filled, closed), control messages drained, keyframe waits pumped,
  caps and estimates, media forwarded.  Draining is restricted to the cases in which the source keeps
  one offer in flight: answers that parse, and a timeout with at most one track queued.
\<close>

inductive client_reach :: "('r, 'p) rtc_api \<Rightarrow> ('r, 'p) client \<Rightarrow> bool" for api where
  init: "client_reach api (new_client api wc cfg i r)"
| browser: "client_reach api c \<Longrightarrow> client_reach api (c\<lparr>ws_msg_tx := tx, ws_ctrl_rx := rx\<rparr>)"
| track: "client_reach api c \<Longrightarrow> client_reach api (handle_track_open api now st ref c)"
| ctrl: "client_reach api c \<Longrightarrow> (\<And>sdp. sdp \<in> set (ctrl_answers c) \<Longrightarrow> rtc_answer_parses api sdp) \<Longrightarrow>
    (timed_out now c \<Longrightarrow> length (renegotiation_queue c) \<le> 1) \<Longrightarrow> client_reach api (drain_ws_ctrl api now st c)"
| pump: "client_reach api c \<Longrightarrow> client_reach api (pump_keyframe_waits now st c)"
| event: "client_reach api c \<Longrightarrow> sub_step api e c = Done c' \<Longrightarrow> client_reach api c'"

lemma observe_view: "offer_view (observe_keyframe now og d c) = offer_view c"
  by (simp add: observe_keyframe_def terminate_waits_def Let_def offer_view_def)

lemma view_updates [simp]:
  "offer_view (bump m c) = offer_view c" "offer_view (c\<lparr>rtc := r\<rparr>) = offer_view c"
  "offer_view (c\<lparr>delivered_media := n\<rparr>) = offer_view c" "offer_view (c\<lparr>chosen_rid := ch\<rparr>) = offer_view c"
  "offer_view (c\<lparr>dd_cache := dc\<rparr>) = offer_view c" "offer_view (c\<lparr>max_vfm_temporal_layer := mx\<rparr>) = offer_view c"
  "offer_view (c\<lparr>bwe_vfm_temporal_cap := mx\<rparr>) = offer_view c"
  by (simp_all add: offer_view_def bump_def)

lemma waits_updates [simp]:
  "waits_ok (bump m c) = waits_ok c" "waits_ok (c\<lparr>rtc := r\<rparr>) = waits_ok c"
  "waits_ok (c\<lparr>delivered_media := n\<rparr>) = waits_ok c" "waits_ok (c\<lparr>chosen_rid := ch\<rparr>) = waits_ok c"
  "waits_ok (c\<lparr>dd_cache := dc\<rparr>) = waits_ok c" "waits_ok (c\<lparr>max_vfm_temporal_layer := mx\<rparr>) = waits_ok c"
  "waits_ok (c\<lparr>bwe_vfm_temporal_cap := mx\<rparr>) = waits_ok c"
  by (simp_all add: waits_ok_def bump_def)

lemma forward_view: "offer_view (forward_media api now st og d c) = offer_view c"
proof -
  have "offer_view (write_media api now og d k m c) = offer_view c" for k m c
    by (auto simp: write_media_def Let_def observe_view split: option.splits prod.splits)
  then show ?thesis by (simp add: forward_media_def Let_def split: option.splits)
qed

lemma forward_waits: "waits_ok c \<Longrightarrow> waits_ok (forward_media api now st og d c)"
proof -
  have "waits_ok (write_media api now og d k m c)" if "waits_ok c" for k m c
    using that by (auto simp: write_media_def Let_def waits_ok_observe split: option.splits prod.splits)
  then show "waits_ok c \<Longrightarrow> ?thesis" by (simp add: forward_media_def Let_def split: option.splits)
qed

lemma dd_filter_view:
  assumes "dd_filter og d c = Done (b, c')"
  shows "offer_view c' = offer_view c \<and> keyframe_waits c' = keyframe_waits c"
  using assms
  by (auto simp: dd_filter_def Let_def bump_def offer_view_def split: option.splits if_splits out.splits)

lemma sub_step_keeps:
  assumes "sub_step api e c = Done c'"
  shows "offer_view c' = offer_view c \<and> (waits_ok c \<longrightarrow> waits_ok c')"
proof (cases e)
  case (SetCap mx)
  then show ?thesis using assms
    by (auto simp: set_max_vfm_temporal_layer_def Let_def invalidate_dd_cache_on_cap_engage_def)
next
  case (Estimate b)
  then show ?thesis using assms
    by (auto simp: bwe_select_temporal_cap_def Let_def invalidate_dd_cache_on_cap_engage_def)
next
  case (Packet now st og d)
  let ?c1 = "bump (Inc ''sfu_dd_frames_total'' [if md_dd d \<noteq> None then ''true'' else ''false'']) c"
  have h: "handle_media_data_out api now st og d c = Done c'" using assms Packet by simp
  obtain b c2 where f: "dd_filter og d ?c1 = Done (b, c2)"
    using h by (cases "dd_filter og d ?c1") (auto simp: handle_media_data_out_def Let_def)
  have c': "c' = (if b then c2 else forward_media api now st og d c2)"
    using h f by (cases b) (simp_all add: handle_media_data_out_def Let_def)
  have v: "offer_view c2 = offer_view c" "keyframe_waits c2 = keyframe_waits c"
    using dd_filter_view [OF f] by (simp_all)
  then have "waits_ok c \<Longrightarrow> waits_ok c2" by (simp add: waits_ok_def)
  then show ?thesis using v(1) by (simp add: c' forward_view forward_waits)
qed

lemma pump_scan_view: "pump_scan now st ws c = (kept, removed, c') \<Longrightarrow> offer_view c' = offer_view c"
proof (induction ws arbitrary: c kept removed c')
  case (Cons w ws)
  have q: "offer_view (queue_retry w c) = offer_view c" by (simp add: queue_retry_def) (simp add: offer_view_def)
  from Cons.prems show ?case by (cases rule: pump_scan_Cons_cases) (use Cons.IH q in auto)
qed simp

lemma pump_view: "offer_view (pump_keyframe_waits now st c) = offer_view c"
proof -
  obtain kept removed c' where s: "pump_scan now st (keyframe_waits c) c = (kept, removed, c')"
    by (cases "pump_scan now st (keyframe_waits c) c")
  have "offer_view c' = offer_view c" by (rule pump_scan_view [OF s])
  then show ?thesis by (simp add: pump_keyframe_waits_def s offer_view_def)
qed


lemma start_waits: "keyframe_waits (start_renegotiation api now st ref c) = keyframe_waits c"
  by (auto simp: start_renegotiation_def send_offer_def offer_made_def bump_def Let_def
      split: option.splits prod.splits send_error.splits)

lemma start_waits_ok: "waits_ok (start_renegotiation api now st ref c) = waits_ok c"
  by (simp add: waits_ok_def start_waits)

lemma starts_waits_ok: "waits_ok (fold (start_renegotiation api now st) refs c) = waits_ok c"
  by (induction refs arbitrary: c) (simp_all add: start_waits_ok)

lemma waits_plain [simp]:
  "waits_ok (c\<lparr>renegotiation_queue := q\<rparr>) = waits_ok c" "waits_ok (drop_negotiating c) = waits_ok c"
  "waits_ok (c\<lparr>pending_offer := po\<rparr>) = waits_ok c" "waits_ok (c\<lparr>pending_offer_at := pa\<rparr>) = waits_ok c"
  "waits_ok (c\<lparr>ws_ctrl_rx := rx\<rparr>) = waits_ok c" "waits_ok (c\<lparr>tracks_out := os\<rparr>) = waits_ok c"
  "waits_ok (c\<lparr>metrics := ms\<rparr>) = waits_ok c" "waits_ok (c\<lparr>ws_msg_tx := tx\<rparr>) = waits_ok c"
  by (simp_all add: waits_ok_def drop_negotiating_def)

lemma offer_next_waits: "waits_ok (offer_next api now st c) = waits_ok c"
  by (simp add: offer_next_def start_waits_ok split: list.splits)

lemma accept_waits: "waits_ok c \<Longrightarrow> waits_ok (accept_renegotiation_answer api now st sdp c)"
  by (simp add: accept_renegotiation_answer_def Let_def flip_negotiating_to_open_all_def offer_next_waits
      handle_zero_transition_after_accept_def waits_ok_start_all split: option.splits prod.splits)

lemma handle_ctrls_waits: "waits_ok c \<Longrightarrow> waits_ok (fold (handle_ctrl api now st) as c)"
proof (induction as arbitrary: c)
  case (Cons a as)
  then show ?case by (cases a) (simp add: accept_waits)
qed simp

lemma drain_waits: "waits_ok c \<Longrightarrow> waits_ok (drain_ws_ctrl api now st c)"
  by (simp add: drain_ws_ctrl_def drain_timeout_def drain_closed_def Let_def starts_waits_ok handle_ctrls_waits
      split: option.splits)

lemma track_open_waits: "waits_ok (handle_track_open api now st ref c) = waits_ok c"
  by (simp add: handle_track_open_def start_waits_ok)

text \<open>C9: In every state a client reaches in any order of tracks, answers, drains, pumps and frames, as long
  as the answers it drains parse and no offer times out with more than one track queued, at most one
  track is being negotiated, exactly when an offer is pending, the time of the offer is set exactly
  when there is one, and there is at most one keyframe wait per publisher track, with an attempt
  count between one and the budget.\<close>

theorem client_reach_invariant:
  assumes "client_reach api c"
  shows "renego_inv c \<and> waits_ok c"
  using assms
proof induction
  case (init wc cfg i r)
  show ?case
    by (simp add: new_client_def renego_inv_def offer_sync_def negs_def waits_ok_def split_def)
next
  case (browser c tx rx)
  then show ?case by (simp add: renego_inv_def offer_sync_def negs_def)
next
  case (track c now st ref)
  then show ?case by (simp add: handle_track_open_inv track_open_waits)
next
  case (ctrl c now st)
  then show ?case by (simp add: drain_ws_ctrl_inv drain_waits)
next
  case (pump c now st)
  then show ?case using offer_viewD(1) [OF pump_view] waits_ok_pump by blast
next
  case (event c e c')
  then show ?case using sub_step_keeps offer_viewD(1) by blast
qed

definition demo_chan :: ws_chan where
  "demo_chan = \<lparr>wc_capacity = 16, wc_queue = [], wc_closed = False\<rparr>"

definition demo_tracks :: track_store where
  "demo_tracks = [3 \<mapsto> demo_track, 4 \<mapsto> demo_track\<lparr>ti_mid := ''w''\<rparr>, 5 \<mapsto> demo_track\<lparr>ti_mid := ''x''\<rparr>]"

definition demo_browser :: "(nat, nat) client" where
  "demo_browser = demo_client\<lparr>ws_msg_tx := Some demo_chan, ws_ctrl_rx := Some \<lparr>wr_queue = [], wr_disconnected = False\<rparr>\<rparr>"

definition demo_offered :: "(nat, nat) client" where
  "demo_offered = fold (handle_track_open demo_api 0 demo_tracks) [3, 4, 5] demo_browser"

lemmas renego_exec = demo_offered_def demo_browser_def handle_track_open_def start_renegotiation_def send_offer_def
  offer_made_def try_send_def build_tracks_map_update_frame_def demo_tracks_def demo_track_def demo_chan_def bump_def

theorem client_reach_invariant_witness:
  "negs demo_offered = 1 \<and> length (renegotiation_queue demo_offered) = 2 \<and> renego_inv demo_offered \<and> waits_ok demo_offered"
proof -
  have "client_reach demo_api demo_client" unfolding demo_client_def by (rule init)
  then have "client_reach demo_api demo_browser" unfolding demo_browser_def by (rule browser)
  then have "client_reach demo_api demo_offered" unfolding demo_offered_def by (simp add: track)
  from client_reach_invariant [OF this] show ?thesis
    by (simp add: negs_def is_negotiating_def renego_exec demo_simps)
qed

section \<open>Progress\<close>

text \<open>The offer for a track can be made in a state: its publisher is still there, the transport builds the
  offer, and the browser's channel is open with room for the frame.\<close>

definition can_offer :: "('r, 'p) rtc_api \<Rightarrow> track_store \<Rightarrow> track_ref \<Rightarrow> ('r, 'p) client \<Rightarrow> bool" where
  "can_offer api st ref c =
    (case st ref of
       None \<Rightarrow> False
     | Some t \<Rightarrow>
         fst (snd (rtc_add_media api (rtc c) (ti_kind t) (peer_stream_id (ti_origin t)))) \<noteq> None \<and>
         (case ws_msg_tx c of None \<Rightarrow> False | Some tx \<Rightarrow> \<not> wc_closed tx \<and> length (wc_queue tx) < wc_capacity tx))"

lemma start_offers:
  assumes "can_offer api st ref c"
  shows "\<exists>m. tracks_out (start_renegotiation api now st ref c) =
      tracks_out c @ [\<lparr>to_track_in = ref, to_state = Negotiating m\<rparr>] \<and>
    pending_offer (start_renegotiation api now st ref c) \<noteq> None \<and>
    renegotiation_queue (start_renegotiation api now st ref c) = renegotiation_queue c"
proof -
  obtain t m sdp pending r tx where t: "st ref = Some t"
    "rtc_add_media api (rtc c) (ti_kind t) (peer_stream_id (ti_origin t)) = (m, Some (sdp, pending), r)"
    and tx: "ws_msg_tx c = Some tx" "\<not> wc_closed tx" "length (wc_queue tx) < wc_capacity tx"
    using assms by (auto simp: can_offer_def split: option.splits) (metis prod.collapse)
  let ?f = "OfferRenegotiate sdp m" and ?c = "offer_made now ref t m pending (c\<lparr>rtc := r\<rparr>)"
  have s1: "try_send ?f tx = (None, tx\<lparr>wc_queue := wc_queue tx @ [?f]\<rparr>)" using tx by (simp add: try_send_def)
  have e: "start_renegotiation api now st ref c = send_offer ref t m sdp ?c"
    by (simp add: start_renegotiation_def t)
  have "ws_msg_tx ?c = Some tx" "tracks_out ?c = tracks_out c @ [\<lparr>to_track_in = ref, to_state = Negotiating m\<rparr>]"
    "pending_offer ?c = Some pending" "renegotiation_queue ?c = renegotiation_queue c"
    using tx(1) by (simp_all add: offer_made_def bump_def)
  then show ?thesis unfolding e
    by (simp add: send_offer_def s1 Let_def bump_def split: option.split prod.split send_error.split)
qed

lemma waits_frame:
  "tracks_out (start_keyframe_waits_for_open_video_tracks now st c) = tracks_out c \<and>
   renegotiation_queue (start_keyframe_waits_for_open_video_tracks now st c) = renegotiation_queue c \<and>
   ws_msg_tx (start_keyframe_waits_for_open_video_tracks now st c) = ws_msg_tx c \<and>
   rtc (start_keyframe_waits_for_open_video_tracks now st c) = rtc c"
proof -
  have "tracks_out (fold (\<lambda>(og, m). start_keyframe_wait now og m) ks c) = tracks_out c \<and>
      renegotiation_queue (fold (\<lambda>(og, m). start_keyframe_wait now og m) ks c) = renegotiation_queue c \<and>
      ws_msg_tx (fold (\<lambda>(og, m). start_keyframe_wait now og m) ks c) = ws_msg_tx c \<and>
      rtc (fold (\<lambda>(og, m). start_keyframe_wait now og m) ks c) = rtc c" for ks c
    by (induction ks arbitrary: c) (auto simp: start_keyframe_wait_def bump_def Let_def)
  then show ?thesis by (simp add: start_keyframe_waits_for_open_video_tracks_def)
qed

text \<open>The state just before the next offer, after an accepted answer.\<close>

lemma accept_accepted:
  assumes p: "rtc_answer_parses api sdp" and inv: "renego_inv c" and po: "pending_offer c = Some pending"
    and a: "rtc_accept_answer api (rtc c) pending sdp = (True, r)"
  obtains c' where "accept_renegotiation_answer api now st sdp c = offer_next api now st c'"
    "tracks_out c' = map open_track (tracks_out c)" "renegotiation_queue c' = renegotiation_queue c"
    "ws_msg_tx c' = ws_msg_tx c" "rtc c' = r" "idle c'"
proof -
  let ?c1 = "c\<lparr>pending_offer_at := None, pending_offer := None, rtc := r\<rparr>"
  define c3 where "c3 = snd (flip_negotiating_to_open_all ?c1)"
  define c' where "c' = start_keyframe_waits_for_open_video_tracks now st (bump (answers ''ok'') c3)"
  have n: "fst (flip_negotiating_to_open_all ?c1)"
    using inv po by (simp add: flip_negotiating_to_open_all_def renego_inv_def negs_def Let_def)
  have e: "accept_renegotiation_answer api now st sdp c = offer_next api now st c'"
    using n by (simp add: accept_renegotiation_answer_def po p a split_def c3_def c'_def)
  have c3: "tracks_out c3 = map open_track (tracks_out c)" "renegotiation_queue c3 = renegotiation_queue c"
    "ws_msg_tx c3 = ws_msg_tx c" "rtc c3 = r" "pending_offer c3 = None" "pending_offer_at c3 = None"
    by (simp_all add: c3_def flip_negotiating_to_open_all_def Let_def)
  have v: "offer_view c' = (map open_track (tracks_out c), None, None)"
    by (simp add: c'_def waits_view) (simp add: offer_view_def c3)
  show thesis
  proof (rule that [OF e])
    show "tracks_out c' = map open_track (tracks_out c)" using v by (simp add: offer_view_def)
    show "renegotiation_queue c' = renegotiation_queue c" "ws_msg_tx c' = ws_msg_tx c" "rtc c' = r"
      by (simp_all add: c'_def waits_frame) (simp_all add: bump_def c3)
    show "idle c'" using v by (simp add: idle_def offer_view_def negs_def negs_open)
  qed
qed

lemma open_track_simps [simp]: "to_track_in (open_track o1) = to_track_in o1" "open_track (open_track o1) = open_track o1"
  by (simp_all add: open_track_def split: track_out_state.splits)

lemma map_open_track_ref: "map (to_track_in \<circ> open_track) os = map to_track_in os"
  by (induction os) simp_all

definition is_open :: "track_out \<Rightarrow> bool" where
  "is_open o1 = (case to_state o1 of Open _ \<Rightarrow> True | _ \<Rightarrow> False)"

text \<open>Answers only take tracks off the queue.\<close>

lemma start_queue:
  "set (renegotiation_queue (start_renegotiation api now st ref c)) \<subseteq> insert ref (set (renegotiation_queue c))"
  by (auto simp: start_renegotiation_def send_offer_def offer_made_def bump_def Let_def
      split: option.splits prod.splits send_error.splits)

lemma offer_next_queue: "set (renegotiation_queue (offer_next api now st c)) \<subseteq> set (renegotiation_queue c)"
proof (cases "renegotiation_queue c")
  case (Cons ref refs)
  then show ?thesis
    using start_queue [of api now st ref "c\<lparr>renegotiation_queue := refs\<rparr>"] by (simp add: offer_next_def)
qed (simp add: offer_next_def)

lemma accept_queue:
  "set (renegotiation_queue (accept_renegotiation_answer api now st sdp c)) \<subseteq> set (renegotiation_queue c)"
proof -
  have q: "renegotiation_queue (bump m d) = renegotiation_queue d"
    "renegotiation_queue (drop_negotiating d) = renegotiation_queue d"
    "renegotiation_queue (snd (flip_negotiating_to_open_all d)) = renegotiation_queue d" for m and d :: "('a, 'b) client"
    by (simp_all add: bump_def drop_negotiating_def flip_negotiating_to_open_all_def Let_def)
  have n: "set (renegotiation_queue (offer_next api now st d)) \<subseteq> set (renegotiation_queue c)"
    if "renegotiation_queue d = renegotiation_queue c" for d using offer_next_queue [of api now st d] that by simp
  show ?thesis
    by (auto simp: accept_renegotiation_answer_def Let_def q handle_zero_transition_after_accept_def waits_frame split_def
        split: option.split dest!: subsetD [OF n, rotated])
qed

text \<open>One answer of the browser arrives: by then the transport's state and the channel to the browser are
  whatever the traffic in between made them.\<close>

record 'r answer_round =
  ar_now :: instant
  ar_tracks :: track_store
  ar_sdp :: string
  ar_rtc :: 'r
  ar_chan :: ws_chan

definition at_answer :: "'r answer_round \<Rightarrow> ('r, 'p) client \<Rightarrow> ('r, 'p) client" where
  "at_answer a c = c\<lparr>rtc := ar_rtc a, ws_msg_tx := Some (ar_chan a)\<rparr>"

definition run_round :: "('r, 'p) rtc_api \<Rightarrow> 'r answer_round \<Rightarrow> ('r, 'p) client \<Rightarrow> ('r, 'p) client" where
  "run_round api a c = accept_renegotiation_answer api (ar_now a) (ar_tracks a) (ar_sdp a) (at_answer a c)"

text \<open>The answer parses and the transport accepts it for the pending offer; and the offer for the track
  that is next in the queue, if there is one, can be made in the state the transport is in then.\<close>

definition round_ok :: "('r, 'p) rtc_api \<Rightarrow> 'r answer_round \<Rightarrow> ('r, 'p) client \<Rightarrow> bool" where
  "round_ok api a c \<longleftrightarrow>
    rtc_answer_parses api (ar_sdp a) \<and>
    (case pending_offer c of
       None \<Rightarrow> True
     | Some pending \<Rightarrow>
         (case rtc_accept_answer api (ar_rtc a) pending (ar_sdp a) of (ok, r) \<Rightarrow>
            ok \<and> (case renegotiation_queue c of
                    [] \<Rightarrow> True
                  | ref # _ \<Rightarrow> can_offer api (ar_tracks a) ref ((at_answer a c)\<lparr>rtc := r\<rparr>))))"

fun rounds_ok :: "('r, 'p) rtc_api \<Rightarrow> 'r answer_round list \<Rightarrow> ('r, 'p) client \<Rightarrow> bool" where
  "rounds_ok api [] c = True"
| "rounds_ok api (a # as) c = (round_ok api a c \<and> rounds_ok api as (run_round api a c))"

lemma at_answer_simps [simp]:
  "tracks_out (at_answer a c) = tracks_out c" "renegotiation_queue (at_answer a c) = renegotiation_queue c"
  "pending_offer (at_answer a c) = pending_offer c" "rtc (at_answer a c) = ar_rtc a"
  "ws_msg_tx (at_answer a c) = Some (ar_chan a)" "renego_inv (at_answer a c) = renego_inv c"
  by (simp_all add: at_answer_def renego_inv_def offer_sync_def negs_def)

lemma can_offer_cong:
  "rtc c = rtc c' \<Longrightarrow> ws_msg_tx c = ws_msg_tx c' \<Longrightarrow> can_offer api st ref c = can_offer api st ref c'"
  by (cases "st ref") (simp_all add: can_offer_def)

lemma round_opens:
  assumes ok: "round_ok api a c" and inv: "renego_inv c" and po: "pending_offer c \<noteq> None"
  obtains c' where "run_round api a c = offer_next api (ar_now a) (ar_tracks a) c'"
    "tracks_out c' = map open_track (tracks_out c)" "renegotiation_queue c' = renegotiation_queue c" "idle c'"
    "\<And>ref refs. renegotiation_queue c = ref # refs \<Longrightarrow> can_offer api (ar_tracks a) ref c'"
proof -
  obtain pending r where po: "pending_offer c = Some pending"
    and a: "rtc_accept_answer api (ar_rtc a) pending (ar_sdp a) = (True, r)" and p: "rtc_answer_parses api (ar_sdp a)"
    and next_ok: "\<And>ref refs. renegotiation_queue c = ref # refs \<Longrightarrow>
      can_offer api (ar_tracks a) ref ((at_answer a c)\<lparr>rtc := r\<rparr>)"
    using ok po by (cases "renegotiation_queue c") (auto simp: round_ok_def)
  have at: "renego_inv (at_answer a c)" "pending_offer (at_answer a c) = Some pending"
    "rtc_accept_answer api (rtc (at_answer a c)) pending (ar_sdp a) = (True, r)"
    using inv po a by simp_all
  obtain c' where c': "run_round api a c = offer_next api (ar_now a) (ar_tracks a) c'"
    "tracks_out c' = map open_track (tracks_out c)" "renegotiation_queue c' = renegotiation_queue c"
    "ws_msg_tx c' = Some (ar_chan a)" "rtc c' = r" "idle c'"
    using accept_accepted [OF p at, of "ar_now a" "ar_tracks a"] by (auto simp: run_round_def)
  have "can_offer api (ar_tracks a) ref c' = can_offer api (ar_tracks a) ref ((at_answer a c)\<lparr>rtc := r\<rparr>)" for ref
    by (rule can_offer_cong) (simp_all add: c'(4,5))
  then show thesis using that [OF c'(1,2,3,6)] next_ok by blast
qed

lemma rounds_open_queue:
  "renego_inv c \<Longrightarrow> pending_offer c \<noteq> None \<Longrightarrow> length as = Suc (length (renegotiation_queue c)) \<Longrightarrow> rounds_ok api as c \<Longrightarrow>
    \<exists>new. tracks_out (fold (run_round api) as c) = map open_track (tracks_out c) @ new \<and>
      map to_track_in new = renegotiation_queue c \<and> list_all is_open new \<and>
      renegotiation_queue (fold (run_round api) as c) = [] \<and> idle (fold (run_round api) as c)"
proof (induction "renegotiation_queue c" arbitrary: as c)
  case Nil
  then obtain a where as: "as = [a]" by (cases as) auto
  from Nil obtain c' where "run_round api a c = offer_next api (ar_now a) (ar_tracks a) c'"
    "tracks_out c' = map open_track (tracks_out c)" "renegotiation_queue c' = renegotiation_queue c" "idle c'"
    by (auto simp: as elim: round_opens)
  then show ?case using Nil.hyps by (simp add: as offer_next_def)
next
  case (Cons ref refs)
  then obtain a as' where as: "as = a # as'" "length as' = Suc (length refs)"
    by (cases as) (auto simp flip: Cons.hyps(2))
  note q = Cons.hyps(2) [symmetric]
  have ok: "round_ok api a c" "rounds_ok api as' (run_round api a c)" using Cons.prems(4) by (simp_all add: as)
  obtain c' where c': "run_round api a c = offer_next api (ar_now a) (ar_tracks a) c'"
    "tracks_out c' = map open_track (tracks_out c)" "renegotiation_queue c' = renegotiation_queue c" "idle c'"
    "can_offer api (ar_tracks a) ref c'"
    by (rule round_opens [OF ok(1) Cons.prems(1,2)]) (use q in blast)
  let ?c0 = "c'\<lparr>renegotiation_queue := refs\<rparr>"
  have e: "run_round api a c = start_renegotiation api (ar_now a) (ar_tracks a) ref ?c0"
    using c'(1,3) q by (simp add: offer_next_def)
  have "can_offer api (ar_tracks a) ref ?c0" using c'(5) can_offer_cong [of ?c0 c'] by simp
  from start_offers [OF this, of "ar_now a"] obtain m where
    m: "tracks_out (run_round api a c) = map open_track (tracks_out c) @ [\<lparr>to_track_in = ref, to_state = Negotiating m\<rparr>]"
      "pending_offer (run_round api a c) \<noteq> None" "renegotiation_queue (run_round api a c) = refs"
    unfolding e by (auto simp: c'(2))
  have "renego_inv (run_round api a c)"
    unfolding run_round_def using ok(1) Cons.prems(1) by (intro accept_inv) (simp_all add: round_ok_def)
  from Cons.hyps(1) [OF m(3) [symmetric] this m(2) _ ok(2)] obtain new where
    new: "tracks_out (fold (run_round api) as' (run_round api a c)) = map open_track (tracks_out (run_round api a c)) @ new"
      "map to_track_in new = refs" "list_all is_open new"
      "renegotiation_queue (fold (run_round api) as' (run_round api a c)) = []"
      "idle (fold (run_round api) as' (run_round api a c))"
    using as(2) m(3) by auto
  have o1: "is_open \<lparr>to_track_in = ref, to_state = Open m\<rparr>" by (simp add: is_open_def)
  show ?case
    by (rule exI [of _ "open_track \<lparr>to_track_in = ref, to_state = Negotiating m\<rparr> # new"])
      (use new m(1) in \<open>simp add: as q comp_def open_track_def [of "\<lparr>to_track_in = ref, to_state = Negotiating m\<rparr>"] o1\<close>)
qed

text \<open>C14: A client with an offer in flight and any number of tracks queued opens all of them, in the order
  in which they were queued, once the offer in flight and then the offer of each queued track has been
  answered: after these answers nothing is queued and no offer is pending. Between the answers the
  transport and the browser's channel may change in any way. The conditions on the run: each answer
  parses and the transport accepts it, and when it arrives the publisher of the track that is next in
  the queue is still there, the transport builds the offer, and the browser's channel is open with
  room for one frame.\<close>

theorem renegotiation_opens_queue:
  assumes "renego_inv c" and "pending_offer c \<noteq> None" and "length as = Suc (length (renegotiation_queue c))"
    and "rounds_ok api as c"
  shows "\<exists>c' new. fold (run_round api) as c = c' \<and>
    tracks_out c' = map open_track (tracks_out c) @ new \<and> map to_track_in new = renegotiation_queue c \<and>
    list_all is_open new \<and> renegotiation_queue c' = [] \<and> pending_offer c' = None \<and> negs c' = 0"
  using rounds_open_queue [OF assms] by (auto simp: idle_def)

definition demo_round :: "nat answer_round" where
  "demo_round = \<lparr>ar_now = 1, ar_tracks = demo_tracks, ar_sdp = ''v=0'', ar_rtc = 9, ar_chan = demo_chan\<rparr>"

theorem renegotiation_opens_queue_witness:
  "renegotiation_queue demo_offered = [4, 5] \<and>
    (\<exists>c'. fold (run_round demo_api) [demo_round, demo_round, demo_round] demo_offered = c' \<and>
      map to_track_in (tracks_out c') = [3, 4, 5] \<and> list_all is_open (tracks_out c'))"
proof -
  have q: "renegotiation_queue demo_offered = [4, 5]" "pending_offer demo_offered \<noteq> None" "negs demo_offered = 1"
    "map to_track_in (tracks_out demo_offered) = [3]" "list_all is_open (map open_track (tracks_out demo_offered))"
    "pending_offer_at demo_offered \<noteq> None"
    by (simp_all add: negs_def is_negotiating_def open_track_def is_open_def renego_exec demo_simps)
  have "renego_inv demo_offered" using q by (auto simp: renego_inv_def offer_sync_def)
  moreover have ok: "round_ok demo_api demo_round c" if "set (renegotiation_queue c) \<subseteq> {4, 5}" for c
    using that by (auto simp: round_ok_def demo_round_def can_offer_def demo_api_def demo_tracks_def demo_chan_def
        split: option.splits list.splits)
  have keep: "set (renegotiation_queue (run_round demo_api demo_round c)) \<subseteq> {4, 5}"
    if "set (renegotiation_queue c) \<subseteq> {4, 5}" for c
    using accept_queue [of demo_api 1 demo_tracks "''v=0''" "at_answer demo_round c"] that
    by (simp add: run_round_def demo_round_def)
  have "rounds_ok demo_api [demo_round, demo_round, demo_round] demo_offered"
    using q(1) by (simp add: ok keep)
  ultimately obtain c' new where
    c: "fold (run_round demo_api) [demo_round, demo_round, demo_round] demo_offered = c'"
      "tracks_out c' = map open_track (tracks_out demo_offered) @ new" "map to_track_in new = [4, 5]" "list_all is_open new"
    using renegotiation_opens_queue [of demo_offered "[demo_round, demo_round, demo_round]" demo_api] q(1,2) by auto
  have "map to_track_in (tracks_out c') = [3, 4, 5]" "list_all is_open (tracks_out c')"
    using c(2-4) q(4,5) by (simp_all add: map_open_track_ref)
  then show ?thesis using c(1) q(1) by (intro conjI exI [of _ c'])
qed

section \<open>Where the pipeline stops\<close>

text \<open>C33: An answer that does not parse strands the offer it answers: the pending offer is gone, but the
  track stays \<open>Negotiating\<close> and the queue is not advanced; and from then on no draining of the control
  channel, however late, changes the client until another message or track arrives.\<close>

theorem unparsable_answer_strands_offer:
  assumes "\<not> rtc_answer_parses api sdp" and "pending_offer c \<noteq> None"
    and "ws_ctrl_rx c = Some \<lparr>wr_queue = [], wr_disconnected = False\<rparr>"
  shows "tracks_out (accept_renegotiation_answer api now st sdp c) = tracks_out c \<and>
    renegotiation_queue (accept_renegotiation_answer api now st sdp c) = renegotiation_queue c \<and>
    pending_offer (accept_renegotiation_answer api now st sdp c) = None \<and>
    drain_ws_ctrl api later st' (accept_renegotiation_answer api now st sdp c) =
      accept_renegotiation_answer api now st sdp c"
  using assms by (auto simp: accept_renegotiation_answer_def drain_ws_ctrl_def bump_def)

theorem unparsable_answer_strands_offer_witness:
  "negs (accept_renegotiation_answer demo_api 1 demo_tracks [] demo_offered) = 1 \<and>
    drain_ws_ctrl demo_api (secs 3600) demo_tracks (accept_renegotiation_answer demo_api 1 demo_tracks [] demo_offered) =
      accept_renegotiation_answer demo_api 1 demo_tracks [] demo_offered"
proof -
  have p: "\<not> rtc_answer_parses demo_api []" by (simp add: demo_api_def)
  have o1: "pending_offer demo_offered \<noteq> None" "negs demo_offered = 1"
    "ws_ctrl_rx demo_offered = Some \<lparr>wr_queue = [], wr_disconnected = False\<rparr>"
    by (simp_all add: negs_def is_negotiating_def renego_exec demo_simps)
  from unparsable_answer_strands_offer [OF p o1(1,3), of 1 demo_tracks "secs 3600" demo_tracks] o1(2)
  show ?thesis by (simp add: negs_def)
qed

text \<open>The state in which a timed-out client starts on its queue, and that each of the offers can be made
  in the state the ones before it leave.\<close>

definition after_timeout :: "('r, 'p) client \<Rightarrow> ('r, 'p) client" where
  "after_timeout c =
    (bump (answers ''timeout'') (drop_negotiating (c\<lparr>pending_offer := None, pending_offer_at := None\<rparr>)))
      \<lparr>renegotiation_queue := []\<rparr>"

fun can_offer_all :: "('r, 'p) rtc_api \<Rightarrow> instant \<Rightarrow> track_store \<Rightarrow> track_ref list \<Rightarrow> ('r, 'p) client \<Rightarrow> bool" where
  "can_offer_all api now st [] c = True"
| "can_offer_all api now st (ref # refs) c =
    (can_offer api st ref c \<and> can_offer_all api now st refs (start_renegotiation api now st ref c))"

lemma drain_timed_out:
  "timed_out now c \<Longrightarrow>
    drain_ws_ctrl api now st c = fold (start_renegotiation api now st) (renegotiation_queue c) (after_timeout c)"
  by (simp add: drain_ws_ctrl_def timed_out_def drain_timeout_def Let_def after_timeout_def)
     (simp add: bump_def drop_negotiating_def)

lemma starts_offer_all:
  "can_offer_all api now st refs c \<Longrightarrow>
    \<exists>new. tracks_out (fold (start_renegotiation api now st) refs c) = tracks_out c @ new \<and>
      map to_track_in new = refs \<and> list_all is_negotiating new \<and>
      renegotiation_queue (fold (start_renegotiation api now st) refs c) = renegotiation_queue c"
proof (induction refs arbitrary: c)
  case (Cons ref refs)
  let ?d = "start_renegotiation api now st ref c"
  from Cons.prems start_offers [of api st ref c now] obtain m where
    m: "tracks_out ?d = tracks_out c @ [\<lparr>to_track_in = ref, to_state = Negotiating m\<rparr>]"
      "renegotiation_queue ?d = renegotiation_queue c" by auto
  from Cons.IH [of ?d] Cons.prems obtain new where
    "tracks_out (fold (start_renegotiation api now st) refs ?d) = tracks_out ?d @ new" "map to_track_in new = refs"
    "list_all is_negotiating new"
    "renegotiation_queue (fold (start_renegotiation api now st) refs ?d) = renegotiation_queue ?d" by auto
  moreover have "is_negotiating \<lparr>to_track_in = ref, to_state = Negotiating m\<rparr>" by (simp add: is_negotiating_def)
  ultimately show ?case using m
    by (intro exI [of _ "\<lparr>to_track_in = ref, to_state = Negotiating m\<rparr> # new"]) simp
qed simp

text \<open>C35: When an offer times out with several tracks queued, the client starts an offer for every queued
  track in the same pass: all are \<open>Negotiating\<close> together although only one offer can be pending. The
  condition is that every one of these offers can be made in the state the ones before it leave: the
  publisher is still there, the transport builds the offer, and the browser's channel is open with
  room for the frame.\<close>

theorem timeout_offers_all_queued:
  assumes "timed_out now c" and "can_offer_all api now st (renegotiation_queue c) (after_timeout c)"
  shows "map to_track_in (filter is_negotiating (tracks_out (drain_ws_ctrl api now st c))) = renegotiation_queue c \<and>
    negs (drain_ws_ctrl api now st c) = length (renegotiation_queue c) \<and>
    renegotiation_queue (drain_ws_ctrl api now st c) = []"
proof -
  let ?e = "after_timeout c"
  from starts_offer_all [OF assms(2)] obtain new where
    new: "tracks_out (drain_ws_ctrl api now st c) = tracks_out ?e @ new" "map to_track_in new = renegotiation_queue c"
    "list_all is_negotiating new" "renegotiation_queue (drain_ws_ctrl api now st c) = renegotiation_queue ?e"
    unfolding drain_timed_out [OF assms(1)] by blast
  have "filter is_negotiating (tracks_out ?e) = []" "renegotiation_queue ?e = []"
    by (simp_all add: after_timeout_def bump_def drop_negotiating_def filter_filter)
  moreover have "filter is_negotiating new = new" using new(3) by (simp add: filter_True list_all_iff)
  moreover have "length new = length (renegotiation_queue c)" using arg_cong [OF new(2), of length] by simp
  ultimately show ?thesis using new by (simp add: negs_def)
qed

theorem timeout_offers_all_queued_witness:
  "negs (drain_ws_ctrl demo_api (secs 11) demo_tracks demo_offered) = 2"
proof -
  have q: "renegotiation_queue demo_offered = [4, 5]" "timed_out (secs 11) demo_offered"
    by (simp_all add: timed_out_def secs_def renego_exec demo_simps)
  have "can_offer_all demo_api (secs 11) demo_tracks [4, 5] (after_timeout demo_offered)"
    by (simp add: can_offer_def after_timeout_def drop_negotiating_def is_negotiating_def renego_exec demo_simps)
  then show ?thesis
    using timeout_offers_all_queued [OF q(2), of demo_api demo_tracks] by (simp add: q(1))
qed

end
