(* ===== verification/Sfu_Auth.thy ===== *)
theory Sfu_Auth
  imports Prelude_Text "HOL-Library.Word"
begin

text \<open>
  Who may talk to the SFU: room tokens (\<open>room_auth.rs\<close>), relay grants (\<open>relay/mod.rs\<close>,
  \<open>relay/activation.rs\<close>), the upstream allow-list (\<open>relay/allowlist.rs\<close>) and the \<open>/relay/connect\<close>
  handler with its replay cache (\<open>relay/handler.rs\<close>), and the token check of the browser endpoint
  (\<open>client_ws/handler.rs\<close>).

  The JWT library and the URI parser are third-party code: \<open>jwt_lib\<close> holds the library's \<open>decode\<close> for
  the two claim types, and a URI is what the parser reads of it.  What the development relies on of
  \<open>decode\<close> is \<open>jwt_checks_exp\<close>: with expiry validation on and no leeway, claims are returned only up
  to and including the second of their expiry; and, for the replay theorem only,
  \<open>jwt_accepts_through_exp\<close>: up to that second they are returned whenever they were returned before.
\<close>

unbundle bit_operations_syntax

section \<open>The JWT library\<close>

datatype jwt_alg = HS256 | EdDSA

datatype jwt_error_kind =
    ExpiredSignature
  | InvalidSignatureKind
  | InvalidAlgorithmName
  | InvalidAlgorithm
  | InvalidKeyFormat
  | OtherKind

datatype decoding_key = HmacSecret string | EdKey string

record validation =
  va_alg :: jwt_alg
  va_validate_exp :: bool
  va_leeway :: nat
  va_aud :: "string option"
  va_iss :: "string list option"
  va_required :: "string list"

record room_claims =
  rc_sub :: nat
  rc_room :: string
  rc_iat :: nat
  rc_exp :: nat

record relay_jwt =
  rj_room_id :: string
  rj_upstream_url :: string
  rj_upstream_room_token :: string
  rj_iat :: nat
  rj_exp :: nat
  rj_jti :: string
  rj_upstream_candidates :: "string list"

record jwt_lib =
  jl_ed_pem_ok :: "string \<Rightarrow> bool"
  jl_decode_room :: "nat \<Rightarrow> decoding_key \<Rightarrow> validation \<Rightarrow> string \<Rightarrow> jwt_error_kind + room_claims"
  jl_decode_relay :: "nat \<Rightarrow> decoding_key \<Rightarrow> validation \<Rightarrow> string \<Rightarrow> jwt_error_kind + relay_jwt"

text \<open>\<open>Validation::new\<close>: expiry checked with a leeway of a minute, the expiry claim required.\<close>

definition new_validation :: "jwt_alg \<Rightarrow> validation" where
  "new_validation alg = \<lparr>va_alg = alg, va_validate_exp = True, va_leeway = 60, va_aud = None, va_iss = None,
    va_required = [''exp'']\<rparr>"

section \<open>Room tokens\<close>

definition DEFAULT_ROOM_TOKEN_AUDIENCE :: string where
  "DEFAULT_ROOM_TOKEN_AUDIENCE = ''oxpulse-sfu''"

record room_token_policy =
  po_issuers :: "string list"
  po_audience :: string
  po_require_binding :: bool

datatype policy_error = EmptyAudience | BindingWithoutIssuer | UnrecognisedFlag string

definition new_policy :: "string list \<Rightarrow> string \<Rightarrow> bool \<Rightarrow> policy_error + room_token_policy" where
  "new_policy issuers audience require_binding =
    (if audience = [] then Inl EmptyAudience
     else if require_binding \<and> issuers = [] then Inl BindingWithoutIssuer
     else Inr \<lparr>po_issuers = issuers, po_audience = audience, po_require_binding = require_binding\<rparr>)"

definition transitional :: room_token_policy where
  "transitional = \<lparr>po_issuers = [], po_audience = DEFAULT_ROOM_TOKEN_AUDIENCE, po_require_binding = False\<rparr>"

definition to_lower :: "char \<Rightarrow> char" where
  "to_lower c = (if 65 \<le> (of_char c :: nat) \<and> of_char c \<le> (90 :: nat) then char_of (of_char c + 32 :: nat) else c)"

definition policy_from_lookup :: "(string \<Rightarrow> string option) \<Rightarrow> policy_error + room_token_policy" where
  "policy_from_lookup get =
    (let issuers = filter (\<lambda>s. s \<noteq> []) (map trim (split_on CHR '',''
           (case get ''SFU_ROOM_TOKEN_ISSUERS'' of None \<Rightarrow> [] | Some v \<Rightarrow> v)));
         audience = (case get ''SFU_ROOM_TOKEN_AUDIENCE'' of
           None \<Rightarrow> DEFAULT_ROOM_TOKEN_AUDIENCE | Some v \<Rightarrow> if v = [] then DEFAULT_ROOM_TOKEN_AUDIENCE else v);
         flag = map to_lower (trim (case get ''SFU_REQUIRE_TOKEN_BINDING'' of None \<Rightarrow> [] | Some v \<Rightarrow> v)) in
     if flag = [] \<or> flag = ''0'' \<or> flag = ''false'' then new_policy issuers audience False
     else if flag = ''1'' \<or> flag = ''true'' then new_policy issuers audience True
     else Inl (UnrecognisedFlag flag))"

definition policy_validation :: "room_token_policy \<Rightarrow> jwt_alg \<Rightarrow> validation" where
  "policy_validation p alg =
    (new_validation alg)\<lparr>va_validate_exp := True, va_leeway := 0, va_aud := Some (po_audience p),
       va_iss := (if po_issuers p \<noteq> [] then Some (po_issuers p) else None),
       va_required := (if po_require_binding p then [''exp'', ''iss'', ''aud''] else [''exp''])\<rparr>"

text \<open>The process-wide policy: set once, \<open>transitional\<close> when nothing was set before it is first read.\<close>

definition init_policy :: "room_token_policy \<Rightarrow> room_token_policy option \<Rightarrow> string + room_token_policy option" where
  "init_policy p cell = (case cell of None \<Rightarrow> Inr (Some p) | Some _ \<Rightarrow> Inl ''room token policy already initialised'')"

definition effective_policy :: "room_token_policy option \<Rightarrow> room_token_policy \<times> room_token_policy option" where
  "effective_policy cell = (case cell of None \<Rightarrow> (transitional, Some transitional) | Some p \<Rightarrow> (p, cell))"

datatype room_auth_error =
    InvalidSignature
  | Expired
  | Malformed
  | RoomMismatch string string

definition map_jwt_error :: "jwt_error_kind \<Rightarrow> room_auth_error" where
  "map_jwt_error e =
    (case e of
       ExpiredSignature \<Rightarrow> Expired
     | InvalidSignatureKind \<Rightarrow> InvalidSignature
     | InvalidAlgorithmName \<Rightarrow> InvalidSignature
     | InvalidAlgorithm \<Rightarrow> InvalidSignature
     | _ \<Rightarrow> Malformed)"

definition decode_and_match ::
  "jwt_lib \<Rightarrow> nat \<Rightarrow> string \<Rightarrow> string \<Rightarrow> decoding_key \<Rightarrow> validation \<Rightarrow> room_auth_error + room_claims" where
  "decode_and_match lib now token room_id key v =
    (case jl_decode_room lib now key v token of
       Inl e \<Rightarrow> Inl (map_jwt_error e)
     | Inr claims \<Rightarrow>
         if rc_room claims \<noteq> room_id then Inl (RoomMismatch (rc_room claims) room_id) else Inr claims)"

definition verify_room_token ::
  "jwt_lib \<Rightarrow> nat \<Rightarrow> room_token_policy \<Rightarrow> string \<Rightarrow> string \<Rightarrow> string \<Rightarrow> room_auth_error + room_claims" where
  "verify_room_token lib now p token room_id secret =
    decode_and_match lib now token room_id (HmacSecret secret) (policy_validation p HS256)"

definition verify_room_token_ed25519 ::
  "jwt_lib \<Rightarrow> nat \<Rightarrow> room_token_policy \<Rightarrow> string \<Rightarrow> string \<Rightarrow> string \<Rightarrow> room_auth_error + room_claims" where
  "verify_room_token_ed25519 lib now p token room_id pem =
    (if \<not> jl_ed_pem_ok lib pem then Inl Malformed
     else decode_and_match lib now token room_id (EdKey pem) (policy_validation p EdDSA))"

section \<open>The browser endpoint\<close>

record client_ws_state =
  cw_secret :: string
  cw_signing_pubkey :: "string option"
  cw_hs256_fallback_enabled :: bool

text \<open>The verdict and the algorithm that is counted.\<close>

definition verify_token ::
  "jwt_lib \<Rightarrow> nat \<Rightarrow> room_token_policy \<Rightarrow> string \<Rightarrow> string \<Rightarrow> client_ws_state
    \<Rightarrow> room_auth_error + (room_claims \<times> string)" where
  "verify_token lib now p token room_id st =
    (let hs = (case verify_room_token lib now p token room_id (cw_secret st) of
                 Inl e \<Rightarrow> Inl e | Inr claims \<Rightarrow> Inr (claims, ''hs256'')) in
     case cw_signing_pubkey st of
       None \<Rightarrow> hs
     | Some pubkey \<Rightarrow>
         (case verify_room_token_ed25519 lib now p token room_id pubkey of
            Inr c \<Rightarrow> Inr (c, ''eddsa'')
          | Inl InvalidSignature \<Rightarrow> if \<not> cw_hs256_fallback_enabled st then Inl InvalidSignature else hs
          | Inl e \<Rightarrow> Inl e))"

definition bearer_part :: "string \<Rightarrow> string option" where
  "bearer_part trimmed =
    (case strip_prefix ''bearer.'' trimmed of
       Some (x # xs) \<Rightarrow> Some (x # xs)
     | _ \<Rightarrow>
         (case strip_prefix ''Bearer '' trimmed of
            Some (x # xs) \<Rightarrow> Some (x # xs)
          | _ \<Rightarrow> None))"

text \<open>The header value when it is present and readable as text.\<close>

definition extract_bearer_from_subprotocols :: "string option \<Rightarrow> string option" where
  "extract_bearer_from_subprotocols header =
    (case header of
       None \<Rightarrow> None
     | Some raw \<Rightarrow>
         (case filter (\<lambda>t. bearer_part t \<noteq> None) (map trim (split_on CHR '','' raw)) of
            [] \<Rightarrow> None
          | t # _ \<Rightarrow> bearer_part t))"

datatype upgrade_outcome = Unauthorized string | CloseRoomMismatch | ServiceUnavailable | RunSession string nat

definition client_ws_upgrade ::
  "jwt_lib \<Rightarrow> nat \<Rightarrow> room_token_policy \<Rightarrow> client_ws_state \<Rightarrow> int \<Rightarrow> nat \<Rightarrow> string \<Rightarrow> string option \<Rightarrow> upgrade_outcome" where
  "client_ws_upgrade lib now p st active_sessions max_participants room_id header =
    (case extract_bearer_from_subprotocols header of
       None \<Rightarrow> Unauthorized ''missing_token''
     | Some token \<Rightarrow>
         (case verify_token lib now p token room_id st of
            Inl (RoomMismatch _ _) \<Rightarrow> CloseRoomMismatch
          | Inl Expired \<Rightarrow> Unauthorized ''expired_token''
          | Inl InvalidSignature \<Rightarrow> Unauthorized ''invalid_token''
          | Inl Malformed \<Rightarrow> Unauthorized ''invalid_token''
          | Inr (claims, _) \<Rightarrow>
              if active_sessions \<ge> int max_participants then ServiceUnavailable
              else RunSession room_id (rc_sub claims)))"

section \<open>Relay grants\<close>

datatype relay_jwt_error = RMalformed | RInvalidSignature | RExpired | AlgorithmMismatch

definition relay_validation :: "jwt_alg \<Rightarrow> validation" where
  "relay_validation alg = (new_validation alg)\<lparr>va_validate_exp := True, va_leeway := 0, va_required := []\<rparr>"

text \<open>\<open>claims.iat > now + 30\<close>: the sum is computed in 64 bits.\<close>

definition iat_ahead :: "nat \<Rightarrow> relay_jwt \<Rightarrow> bool" where
  "iat_ahead now claims = (rj_iat claims > (now + 30) mod 2 ^ 64)"

definition relay_verify :: "jwt_lib \<Rightarrow> nat \<Rightarrow> string \<Rightarrow> string \<Rightarrow> relay_jwt_error + relay_jwt" where
  "relay_verify lib now token secret =
    (case jl_decode_relay lib now (HmacSecret secret) (relay_validation HS256) token of
       Inl ExpiredSignature \<Rightarrow> Inl RExpired
     | Inl InvalidSignatureKind \<Rightarrow> Inl RInvalidSignature
     | Inl InvalidAlgorithmName \<Rightarrow> Inl RInvalidSignature
     | Inl InvalidKeyFormat \<Rightarrow> Inl RInvalidSignature
     | Inl _ \<Rightarrow> Inl RMalformed
     | Inr claims \<Rightarrow> if iat_ahead now claims then Inl RMalformed else Inr claims)"

definition relay_verify_ed25519 :: "jwt_lib \<Rightarrow> nat \<Rightarrow> string \<Rightarrow> string \<Rightarrow> relay_jwt_error + relay_jwt" where
  "relay_verify_ed25519 lib now token pem =
    (if \<not> jl_ed_pem_ok lib pem then Inl RMalformed
     else
       (case jl_decode_relay lib now (EdKey pem) (relay_validation EdDSA) token of
          Inl ExpiredSignature \<Rightarrow> Inl RExpired
        | Inl InvalidSignatureKind \<Rightarrow> Inl RInvalidSignature
        | Inl InvalidAlgorithm \<Rightarrow> Inl AlgorithmMismatch
        | Inl _ \<Rightarrow> Inl RMalformed
        | Inr claims \<Rightarrow> if iat_ahead now claims then Inl RMalformed else Inr claims))"

definition verify_relay_jwt ::
  "jwt_lib \<Rightarrow> nat \<Rightarrow> string \<Rightarrow> string \<Rightarrow> string option \<Rightarrow> bool \<Rightarrow> relay_jwt_error + (relay_jwt \<times> string)" where
  "verify_relay_jwt lib now token secret signing_public_key hs256_fallback_enabled =
    (let hs = (case relay_verify lib now token secret of Inl e \<Rightarrow> Inl e | Inr j \<Rightarrow> Inr (j, ''hs256'')) in
     case signing_public_key of
       None \<Rightarrow> hs
     | Some pubkey \<Rightarrow>
         (case relay_verify_ed25519 lib now token pubkey of
            Inr j \<Rightarrow> Inr (j, ''eddsa'')
          | Inl RInvalidSignature \<Rightarrow> if hs256_fallback_enabled then hs else Inl RInvalidSignature
          | Inl AlgorithmMismatch \<Rightarrow> if hs256_fallback_enabled then hs else Inl RInvalidSignature
          | Inl e \<Rightarrow> Inl e))"

section \<open>Activation\<close>

record relay_activation =
  ra_enabled :: bool
  ra_secret :: string
  ra_hs256_fallback_effective :: bool
  ra_auth_mode :: "string option"

datatype activation_error = PlaceholderSecret | SecretTooShort nat

definition has_hs256_secret :: "string option \<Rightarrow> activation_error + bool" where
  "has_hs256_secret relay_jwt_secret =
    (case relay_jwt_secret of
       None \<Rightarrow> Inr False
     | Some s \<Rightarrow>
         if s = ''change-me-in-production'' then Inl PlaceholderSecret
         else if length s < 32 then Inl (SecretTooShort (length s))
         else Inr True)"

definition compute_relay_activation ::
  "string option \<Rightarrow> string option \<Rightarrow> bool \<Rightarrow> activation_error + relay_activation" where
  "compute_relay_activation relay_jwt_secret signing_public_key hs256_fallback_config =
    (case has_hs256_secret relay_jwt_secret of
       Inl e \<Rightarrow> Inl e
     | Inr hs \<Rightarrow>
         (let ed = signing_public_key \<noteq> None in
          Inr \<lparr>ra_enabled = (hs \<or> ed),
               ra_secret = (case relay_jwt_secret of Some s \<Rightarrow> if hs then s else [] | None \<Rightarrow> []),
               ra_hs256_fallback_effective = (hs \<and> hs256_fallback_config),
               ra_auth_mode = (if ed then (if hs then Some ''both'' else Some ''eddsa'')
                               else if hs then Some ''hs256'' else None)\<rparr>))"

section \<open>The upstream allow-list\<close>

type_synonym ipv4 = "32 word"

definition ipv4_new :: "nat \<Rightarrow> nat \<Rightarrow> nat \<Rightarrow> nat \<Rightarrow> ipv4" where
  "ipv4_new a b c d = word_of_nat (((a * 256 + b) * 256 + c) * 256 + d)"

text \<open>An octet of \<open>Ipv4Addr::from_str\<close>: one to three digits, no leading zero, at most 255.\<close>

definition parse_octet :: "string \<Rightarrow> nat option" where
  "parse_octet s =
    (if s = [] \<or> \<not> list_all is_digit s \<or> length s > 3 \<or> (length s > 1 \<and> hd s = CHR ''0'') then None
     else if digits_val s > 255 then None else Some (digits_val s))"

definition parse_ipv4 :: "string \<Rightarrow> (nat \<times> nat \<times> nat \<times> nat) option" where
  "parse_ipv4 s =
    (case split_on CHR ''.'' s of
       [a, b, c, d] \<Rightarrow>
         (case (parse_octet a, parse_octet b, parse_octet c, parse_octet d) of
            (Some w, Some x, Some y, Some z) \<Rightarrow> Some (w, x, y, z)
          | _ \<Rightarrow> None)
     | _ \<Rightarrow> None)"

definition MESH_V4 :: "ipv4 \<times> nat" where
  "MESH_V4 = (ipv4_new 10 9 0 0, 24)"

definition PUBLIC_WSS_ALLOWED :: "string list" where
  "PUBLIC_WSS_ALLOWED = [''.oxpulse.chat'', ''localhost'', ''127.0.0.1'']"

definition in_mesh :: "string \<Rightarrow> bool" where
  "in_mesh host =
    (case parse_ipv4 host of
       Some (a, b, c, d) \<Rightarrow>
         (let bits = snd MESH_V4;
              mask = (if bits = 0 then 0 else push_bit (32 - bits) (NOT 0) :: ipv4) in
          ipv4_new a b c d AND mask = fst MESH_V4 AND mask)
     | None \<Rightarrow> False)"

definition wss_host_allowed :: "string \<Rightarrow> string \<Rightarrow> bool" where
  "wss_host_allowed host p =
    (case strip_prefix ''.'' p of
       Some sfx \<Rightarrow> host = sfx \<or> (length host > length p \<and> suffix p host)
     | None \<Rightarrow> host = p)"

text \<open>What the URI parser reads of a URL: nothing when it does not parse, else its scheme and host.\<close>

type_synonym uri_parser = "string \<Rightarrow> (string option \<times> string option) option"

definition is_allowed_upstream :: "uri_parser \<Rightarrow> string \<Rightarrow> bool" where
  "is_allowed_upstream uri url =
    (case uri url of
       Some (Some scheme, Some host) \<Rightarrow>
         if host = [] then False
         else if scheme = ''wss'' then list_ex (wss_host_allowed host) PUBLIC_WSS_ALLOWED
         else if scheme = ''ws'' then in_mesh host
         else False
     | _ \<Rightarrow> False)"

section \<open>The relay API\<close>

definition MAX_RELAY_CANDIDATES :: nat where
  "MAX_RELAY_CANDIDATES = 8"

text \<open>\<open>filter\<close> over a set of the URLs seen: the first occurrence stays.\<close>

fun first_seen :: "string list \<Rightarrow> string list \<Rightarrow> string list" where
  "first_seen seen [] = []"
| "first_seen seen (u # us) = (if u \<in> set seen then first_seen seen us else u # first_seen (u # seen) us)"

definition select_candidates :: "uri_parser \<Rightarrow> relay_jwt \<Rightarrow> string list" where
  "select_candidates uri jwt =
    (let raw = (if rj_upstream_candidates jwt = [] then [rj_upstream_url jwt] else rj_upstream_candidates jwt) in
     take MAX_RELAY_CANDIDATES (first_seen [] (filter (is_allowed_upstream uri) raw)))"

record relay_task =
  rt_room_id :: string
  rt_upstream_url :: string
  rt_upstream_room_token :: string
  rt_upstream_candidates :: "string list"

type_synonym seen_jtis = "string \<Rightarrow> nat option"

record relay_api_state =
  rs_secret :: string
  rs_signing_public_key :: "string option"
  rs_seen :: seen_jtis
  rs_hs256_fallback_enabled :: bool
  rs_tasks :: "relay_task list"
  rs_verified :: "string list"

datatype status = OK | BAD_REQUEST | UNAUTHORIZED | CONFLICT

definition retain_unexpired :: "nat \<Rightarrow> seen_jtis \<Rightarrow> seen_jtis" where
  "retain_unexpired now seen = (\<lambda>jti. case seen jti of Some exp \<Rightarrow> if exp > now then Some exp else None | None \<Rightarrow> None)"

text \<open>\<open>chars().take(n)\<close>: a character starts at every byte that is not a continuation byte.\<close>

fun take_chars :: "nat \<Rightarrow> string \<Rightarrow> string" where
  "take_chars n [] = []"
| "take_chars n (c # cs) =
    (if 128 \<le> (of_char c :: nat) \<and> of_char c < (192 :: nat) then c # take_chars n cs
     else case n of 0 \<Rightarrow> [] | Suc k \<Rightarrow> c # take_chars k cs)"

text \<open>
  \<open>relay_connect\<close>: the status, the relay id and the new state.  The clock is read twice, for the
  verification (there for the expiry and the issue time) and for the replay cache.  \<open>open\<close> says whether the task channel still has its receiver.
\<close>

definition relay_connect ::
  "jwt_lib \<Rightarrow> uri_parser \<Rightarrow> nat \<Rightarrow> nat \<Rightarrow> bool \<Rightarrow> string \<Rightarrow> relay_api_state
    \<Rightarrow> status \<times> string option \<times> relay_api_state" where
  "relay_connect lib uri now1 now2 open token st =
    (case verify_relay_jwt lib now1 token (rs_secret st) (rs_signing_public_key st) (rs_hs256_fallback_enabled st) of
       Inl RInvalidSignature \<Rightarrow> (UNAUTHORIZED, None, st)
     | Inl _ \<Rightarrow> (BAD_REQUEST, None, st)
     | Inr (jwt, algorithm) \<Rightarrow>
         (let st1 = st\<lparr>rs_verified := rs_verified st @ [algorithm]\<rparr>;
              allowed = select_candidates uri jwt in
          case allowed of
            [] \<Rightarrow> (BAD_REQUEST, None, st1)
          | first # _ \<Rightarrow>
              (let seen = retain_unexpired now2 (rs_seen st1) in
               if seen (rj_jti jwt) \<noteq> None then (CONFLICT, None, st1\<lparr>rs_seen := seen\<rparr>)
               else
                 (let st2 = st1\<lparr>rs_seen := seen(rj_jti jwt \<mapsto> rj_exp jwt)\<rparr>;
                      task = \<lparr>rt_room_id = rj_room_id jwt, rt_upstream_url = first,
                              rt_upstream_room_token = rj_upstream_room_token jwt, rt_upstream_candidates = allowed\<rparr> in
                  if \<not> open then (BAD_REQUEST, None, st2)
                  else (OK, Some (''relay-'' @ take_chars 8 (rj_room_id jwt)), st2\<lparr>rs_tasks := rs_tasks st2 @ [task]\<rparr>)))))"


section \<open>One policy for two credentials\<close>

text \<open>
  The contract the three verifiers share during the move from HS256 to EdDSA: the EdDSA verdict is
  final when it accepts, the HS256 verifier is asked only after an error that means "not signed with
  EdDSA" and only while the fallback is enabled, and every other error rejects.
\<close>

locale dual_credential =
  fixes ed :: "'t \<Rightarrow> 'e + 'c" and hs :: "'t \<Rightarrow> 'e + 'c" and retry :: "'e \<Rightarrow> bool"
    and enabled :: bool and verify :: "'t \<Rightarrow> 'e + 'c"
  assumes ed_first: "ed t = Inr c \<Longrightarrow> verify t = Inr c"
    and retried: "ed t = Inl e \<Longrightarrow> retry e \<Longrightarrow> enabled \<Longrightarrow> verify t = hs t"
    and definitive: "ed t = Inl e \<Longrightarrow> \<not> (retry e \<and> enabled) \<Longrightarrow> \<not> is_ok (verify t)"
begin

lemma accepted_iff:
  "verify t = Inr c \<longleftrightarrow> ed t = Inr c \<or> (enabled \<and> hs t = Inr c \<and> (\<exists>e. ed t = Inl e \<and> retry e))"
proof (cases "ed t")
  case (Inl e)
  then show ?thesis using retried [OF Inl] definitive [OF Inl] by (cases "retry e \<and> enabled") (auto simp: is_ok_iff)
next
  case (Inr d)
  then show ?thesis using ed_first [OF Inr] by auto
qed

lemma kill_switch: "\<not> enabled \<Longrightarrow> verify t = Inr c \<longleftrightarrow> ed t = Inr c"
  by (simp add: accepted_iff)

end

definition tag_alg :: "string \<Rightarrow> 'e + 'c \<Rightarrow> 'e + ('c \<times> string)" where
  "tag_alg alg r = (case r of Inl e \<Rightarrow> Inl e | Inr c \<Rightarrow> Inr (c, alg))"

lemma tag_alg_Inr [simp]: "tag_alg alg r = Inr (c, a) \<longleftrightarrow> r = Inr c \<and> a = alg"
  by (auto simp: tag_alg_def split: sum.splits)

interpretation ws: dual_credential
  "\<lambda>token. tag_alg ''eddsa'' (verify_room_token_ed25519 lib now p token room_id pubkey)"
  "\<lambda>token. tag_alg ''hs256'' (verify_room_token lib now p token room_id secret)"
  "\<lambda>e. e = InvalidSignature" fallback
  "\<lambda>token. verify_token lib now p token room_id
     \<lparr>cw_secret = secret, cw_signing_pubkey = Some pubkey, cw_hs256_fallback_enabled = fallback\<rparr>"
  for lib now p room_id pubkey secret fallback
  by unfold_locales
    (auto simp: verify_token_def tag_alg_def Let_def is_ok_def split: sum.splits room_auth_error.splits)

interpretation grant: dual_credential
  "\<lambda>token. tag_alg ''eddsa'' (relay_verify_ed25519 lib now token pubkey)"
  "\<lambda>token. tag_alg ''hs256'' (relay_verify lib now token secret)"
  "\<lambda>e. e = RInvalidSignature \<or> e = AlgorithmMismatch" fallback
  "\<lambda>token. verify_relay_jwt lib now token secret (Some pubkey) fallback"
  for lib now pubkey secret fallback
  by unfold_locales
    (auto simp: verify_relay_jwt_def tag_alg_def Let_def is_ok_def split: sum.splits relay_jwt_error.splits)

section \<open>Accepted grants\<close>

lemma relay_verify_Inr:
  "relay_verify lib now token secret = Inr j \<longleftrightarrow>
    jl_decode_relay lib now (HmacSecret secret) (relay_validation HS256) token = Inr j \<and> \<not> iat_ahead now j"
  by (auto simp: relay_verify_def split: sum.splits jwt_error_kind.splits)

lemma relay_verify_ed25519_Inr:
  "relay_verify_ed25519 lib now token pem = Inr j \<longleftrightarrow>
    jl_ed_pem_ok lib pem \<and> jl_decode_relay lib now (EdKey pem) (relay_validation EdDSA) token = Inr j \<and> \<not> iat_ahead now j"
  by (auto simp: relay_verify_ed25519_def split: sum.splits jwt_error_kind.splits)

definition strong_secret :: "string \<Rightarrow> bool" where
  "strong_secret s \<longleftrightarrow> length s \<ge> 32 \<and> s \<noteq> ''change-me-in-production''"

lemma activation_Inr:
  "compute_relay_activation sec pk cfg = Inr a \<longleftrightarrow>
    (case sec of None \<Rightarrow> True | Some s \<Rightarrow> strong_secret s) \<and>
    a = \<lparr>ra_enabled = (sec \<noteq> None \<or> pk \<noteq> None), ra_secret = (case sec of None \<Rightarrow> [] | Some s \<Rightarrow> s),
         ra_hs256_fallback_effective = (sec \<noteq> None \<and> cfg),
         ra_auth_mode = (if pk \<noteq> None then (if sec \<noteq> None then Some ''both'' else Some ''eddsa'')
                         else if sec \<noteq> None then Some ''hs256'' else None)\<rparr>"
  by (auto simp: compute_relay_activation_def has_hs256_secret_def strong_secret_def split: option.splits if_splits)

lemma verify_relay_jwt_Inr:
  "verify_relay_jwt lib now token secret pk fallback = Inr (j, alg) \<longleftrightarrow>
    (alg = ''eddsa'' \<and> (\<exists>pem. pk = Some pem \<and> relay_verify_ed25519 lib now token pem = Inr j)) \<or>
    (alg = ''hs256'' \<and> relay_verify lib now token secret = Inr j \<and>
      (case pk of None \<Rightarrow> True
       | Some pem \<Rightarrow> fallback \<and> relay_verify_ed25519 lib now token pem \<in> {Inl RInvalidSignature, Inl AlgorithmMismatch}))"
proof (cases pk)
  case None
  then show ?thesis by (auto simp: verify_relay_jwt_def split: sum.splits)
next
  case (Some pem)
  then show ?thesis using grant.accepted_iff [of lib now token secret pem fallback "(j, alg)"]
    by (auto simp: tag_alg_def split: sum.splits)
qed

section \<open>What the allow-list allows\<close>

lemma digit_char_of_digit: "is_digit c \<Longrightarrow> digit_char (of_char c - 48) = c"
  by (simp add: digit_char_def is_digit_def)

lemma digit_val_less: "is_digit c \<Longrightarrow> of_char c - 48 < (10 :: nat)"
  unfolding is_digit_def by linarith

lemma digit_char_zero [simp]: "digit_char 0 = CHR ''0''"
  unfolding digit_char_def by code_simp

lemma show_nat_small [simp]: "n < 10 \<Longrightarrow> show_nat n = [digit_char n]"
  by (subst show_nat.simps) simp

lemma show_nat_big: "n \<ge> 10 \<Longrightarrow> show_nat n = show_nat (n div 10) @ [digit_char (n mod 10)]"
  by (subst show_nat.simps) simp

lemma digits_val_snoc: "digits_val (s @ [c]) = digits_val s * 10 + (of_char c - 48)"
  by (simp add: digits_val_def)

lemma digits_val_single [simp]: "digits_val [c] = of_char c - 48"
  by (simp add: digits_val_def)

lemma digits_val_pos:
  "list_all is_digit s \<Longrightarrow> s \<noteq> [] \<Longrightarrow> hd s \<noteq> CHR ''0'' \<Longrightarrow> digits_val s > 0"
proof (induction s rule: rev_induct)
  case (snoc c s)
  show ?case
  proof (cases "s = []")
    case True
    have "digit_char (of_char c - 48) = c" using snoc.prems by (simp add: digit_char_of_digit)
    then have "of_char c - 48 \<noteq> (0 :: nat)" using snoc.prems(3) True by (metis digit_char_zero append_Nil list.sel(1))
    then show ?thesis using True by simp
  next
    case False
    then show ?thesis using snoc by (simp add: digits_val_snoc)
  qed
qed simp

lemma show_nat_digits_val:
  "list_all is_digit s \<Longrightarrow> s \<noteq> [] \<Longrightarrow> length s = 1 \<or> hd s \<noteq> CHR ''0'' \<Longrightarrow> show_nat (digits_val s) = s"
proof (induction s rule: rev_induct)
  case (snoc c s)
  have d: "digit_char (of_char c - 48) = c" "of_char c - 48 < (10 :: nat)"
    using snoc.prems by (simp_all add: digit_char_of_digit digit_val_less)
  show ?case
  proof (cases "s = []")
    case True
    then show ?thesis using d by simp
  next
    case False
    then have h: "hd s \<noteq> CHR ''0''" using snoc.prems by auto
    then have "digits_val s > 0" using False snoc.prems by (simp add: digits_val_pos)
    moreover have "show_nat (digits_val s) = s" using snoc.IH snoc.prems(1) False h by simp
    ultimately show ?thesis using d show_nat_big [of "digits_val s * 10 + (of_char c - 48)"] by (simp add: digits_val_snoc)
  qed
qed simp

lemma digit_char_inj: "d < 10 \<Longrightarrow> digit_char d = CHR ''0'' \<Longrightarrow> d = 0"
  using of_char_digit_char [of d] of_char_digit_char [of 0] by simp

lemma show_nat_no_zero: "n > 0 \<Longrightarrow> hd (show_nat n) \<noteq> CHR ''0''"
proof (induction n rule: less_induct)
  case (less n)
  show ?case
  proof (cases "n < 10")
    case True
    then show ?thesis using digit_char_inj [of n] less.prems by auto
  next
    case False
    then show ?thesis using less.IH [of "n div 10"] by (simp add: show_nat_big)
  qed
qed

lemma length_show_nat:
  assumes "n < 1000"
  shows "length (show_nat n) \<le> 3"
proof -
  have "length (show_nat k) \<le> 2" if "k < 100" for k
    using that by (cases "k < 10") (simp_all add: show_nat_big)
  from this [of "n div 10"] show ?thesis using assms by (cases "n < 10") (simp_all add: show_nat_big)
qed

lemma parse_octet_Some: "parse_octet s = Some v \<longleftrightarrow> v \<le> 255 \<and> s = show_nat v"
proof
  assume "parse_octet s = Some v"
  then show "v \<le> 255 \<and> s = show_nat v"
    using show_nat_digits_val [of s] by (cases s) (auto simp: parse_octet_def split: if_splits)
next
  assume v: "v \<le> 255 \<and> s = show_nat v"
  then have "length s \<le> 3" using length_show_nat [of v] by simp
  moreover have "length s > 1 \<Longrightarrow> hd s \<noteq> CHR ''0''" using v show_nat_no_zero [of v] by (cases "v = 0") auto
  ultimately show "parse_octet s = Some v" using v by (auto simp: parse_octet_def)
qed

lemma mask_eq:
  "(x :: ipv4) AND NOT (mask 8) = y AND NOT (mask 8) \<longleftrightarrow> unat x div 256 = unat y div 256"
proof -
  have m: "bit (z AND NOT (mask 8)) n \<longleftrightarrow> bit z n \<and> 8 \<le> n" for z :: ipv4 and n
    by (auto simp: bit_simps possible_bit_word dest: bit_imp_le_length)
  have "x AND NOT (mask 8) = y AND NOT (mask 8) \<longleftrightarrow> drop_bit 8 x = drop_bit 8 y"
  proof
    assume e: "x AND NOT (mask 8) = y AND NOT (mask 8)"
    have "bit x (8 + n) = bit y (8 + n)" for n using arg_cong [OF e, of "\<lambda>w. bit w (8 + n)"] by (simp add: m)
    then show "drop_bit 8 x = drop_bit 8 y" by (intro bit_word_eqI) (simp add: bit_drop_bit_eq)
  next
    assume e: "drop_bit 8 x = drop_bit 8 y"
    have "bit x n = bit y n" if "8 \<le> n" for n
      using arg_cong [OF e, of "\<lambda>w. bit w (n - 8)"] that by (simp add: bit_drop_bit_eq)
    then show "x AND NOT (mask 8) = y AND NOT (mask 8)" by (intro bit_word_eqI) (auto simp: m)
  qed
  also have "\<dots> \<longleftrightarrow> unat (drop_bit 8 x) = unat (drop_bit 8 y)" by (rule word_eq_iff_unsigned)
  also have "\<dots> \<longleftrightarrow> unat x div 256 = unat y div 256" unfolding unat_drop_bit_eq by (simp add: drop_bit_eq_div)
  finally show ?thesis .
qed

lemma unat_ipv4_new:
  "a \<le> 255 \<Longrightarrow> b \<le> 255 \<Longrightarrow> c \<le> 255 \<Longrightarrow> d \<le> 255 \<Longrightarrow> unat (ipv4_new a b c d) = ((a * 256 + b) * 256 + c) * 256 + d"
  unfolding ipv4_new_def unsigned_of_nat of_nat_id by (rule take_bit_nat_eq_self) simp

lemma base256: "b < 256 \<Longrightarrow> b' < 256 \<Longrightarrow> a * 256 + b = a' * 256 + b' \<longleftrightarrow> a = a' \<and> b = (b' :: nat)"
proof -
  assume "b < 256" "b' < 256"
  then have "(a * 256 + b) div 256 = a" "(a' * 256 + b') div 256 = a'" by simp_all
  then show ?thesis by (metis add_left_cancel)
qed

lemma mesh_octets:
  assumes "a \<le> 255" "b \<le> 255" "c \<le> 255" "d \<le> 255"
  shows "ipv4_new a b c d AND NOT (mask 8) = ipv4_new 10 9 0 0 AND NOT (mask 8) \<longleftrightarrow> a = 10 \<and> b = 9 \<and> c = 0"
proof -
  have "(((a * 256 + b) * 256 + c) * 256 + d) div 256 = (a * 256 + b) * 256 + c" using assms by simp
  moreover have "unat (ipv4_new 10 9 0 0) div 256 = (10 * 256 + 9) * 256" by (simp add: unat_ipv4_new)
  moreover have "(a * 256 + b) * 256 + c = (10 * 256 + 9) * 256 \<longleftrightarrow> a = 10 \<and> b = 9 \<and> c = 0" 
    using base256 [of c 0 "a * 256 + b" "10 * 256 + 9"] base256 [of b 9 a 10] assms by auto
  ultimately show ?thesis using assms unfolding mask_eq by (simp add: unat_ipv4_new)
qed

lemma parse_octet_show [simp]: "v \<le> 255 \<Longrightarrow> parse_octet (show_nat v) = Some v"
  by (simp add: parse_octet_Some)

lemma parse_ipv4_Some:
  "parse_ipv4 s = Some (a, b, c, d) \<longleftrightarrow> a \<le> 255 \<and> b \<le> 255 \<and> c \<le> 255 \<and> d \<le> 255 \<and>
    split_on CHR ''.'' s = [show_nat a, show_nat b, show_nat c, show_nat d]" (is "?l = ?r")
proof
  show "?l \<Longrightarrow> ?r"
    unfolding parse_ipv4_def
    by (simp split: list.splits option.splits) (simp add: parse_octet_Some)
  show "?r \<Longrightarrow> ?l" by (simp add: parse_ipv4_def del: show_nat_small)
qed

lemma in_mesh_iff: "in_mesh host \<longleftrightarrow> (\<exists>d \<le> 255. host = ''10.9.0.'' @ show_nat d)"
proof -
  have n: "CHR ''.'' \<notin> set (show_nat d)" for d using set_show_nat_digit [of "CHR ''.''" d] by (auto simp: is_digit_def)
  have s: "split_on CHR ''.'' (''10.9.0.'' @ show_nat d) = [''10'', ''9'', ''0'', show_nat d]" for d
    by (simp add: split_on_id [OF n])
  have o1: "show_nat 10 = ''10''" "show_nat 9 = ''9''" "show_nat 0 = ''0''" by code_simp+
  have "in_mesh host \<longleftrightarrow> (\<exists>d \<le> 255. parse_ipv4 host = Some (10, 9, 0, d))"
  proof (cases "parse_ipv4 host")
    case (Some q)
    obtain a b c d where q: "q = (a, b, c, d)" by (cases q)
    have "a \<le> 255" "b \<le> 255" "c \<le> 255" "d \<le> 255" using Some q parse_ipv4_Some by blast+
    with mesh_octets [OF this] show ?thesis by (auto simp: in_mesh_def MESH_V4_def Some q)
  qed (simp add: in_mesh_def)
  also have "\<dots> \<longleftrightarrow> (\<exists>d \<le> 255. split_on CHR ''.'' host = [''10'', ''9'', ''0'', show_nat d])"
    unfolding parse_ipv4_Some o1 by auto
  also have "\<dots> \<longleftrightarrow> (\<exists>d \<le> 255. host = ''10.9.0.'' @ show_nat d)"
    using s by (metis join_split)
  finally show ?thesis .
qed

section \<open>The replay cache over time\<close>

record relay_request =
  rq_now1 :: nat
  rq_now2 :: nat
  rq_open :: bool
  rq_token :: string

definition relay_step :: "jwt_lib \<Rightarrow> uri_parser \<Rightarrow> relay_api_state \<Rightarrow> relay_request \<Rightarrow> status \<times> relay_api_state" where
  "relay_step lib uri st q =
    (case relay_connect lib uri (rq_now1 q) (rq_now2 q) (rq_open q) (rq_token q) st of (s, _, st') \<Rightarrow> (s, st'))"

fun relay_run :: "jwt_lib \<Rightarrow> uri_parser \<Rightarrow> relay_api_state \<Rightarrow> relay_request list \<Rightarrow> status list \<times> relay_api_state" where
  "relay_run lib uri st [] = ([], st)"
| "relay_run lib uri st (q # qs) =
    (case relay_step lib uri st q of (s, st1) \<Rightarrow> case relay_run lib uri st1 qs of (ss, st2) \<Rightarrow> (s # ss, st2))"

definition grant_of :: "jwt_lib \<Rightarrow> relay_api_state \<Rightarrow> relay_request \<Rightarrow> relay_jwt option" where
  "grant_of lib st q =
    (case verify_relay_jwt lib (rq_now1 q) (rq_token q) (rs_secret st) (rs_signing_public_key st)
            (rs_hs256_fallback_enabled st) of Inl _ \<Rightarrow> None | Inr (j, _) \<Rightarrow> Some j)"

lemma relay_step_cases:
  obtains (rejected) s vs where "relay_step lib uri st q = (s, st\<lparr>rs_verified := vs\<rparr>)" "s \<noteq> OK"
  | (replayed) j vs e where "grant_of lib st q = Some j" "rs_seen st (rj_jti j) = Some e" "rq_now2 q < e"
      "relay_step lib uri st q = (CONFLICT, st\<lparr>rs_verified := vs, rs_seen := retain_unexpired (rq_now2 q) (rs_seen st)\<rparr>)"
  | (burnt) j vs where "grant_of lib st q = Some j" "retain_unexpired (rq_now2 q) (rs_seen st) (rj_jti j) = None"
      "relay_step lib uri st q = (BAD_REQUEST, st\<lparr>rs_verified := vs,
         rs_seen := (retain_unexpired (rq_now2 q) (rs_seen st))(rj_jti j \<mapsto> rj_exp j)\<rparr>)"
  | (accepted) j vs cs where "grant_of lib st q = Some j" "retain_unexpired (rq_now2 q) (rs_seen st) (rj_jti j) = None"
      "select_candidates uri j = cs" "cs \<noteq> []"
      "relay_step lib uri st q = (OK, st\<lparr>rs_verified := vs,
         rs_seen := (retain_unexpired (rq_now2 q) (rs_seen st))(rj_jti j \<mapsto> rj_exp j),
         rs_tasks := rs_tasks st @ [\<lparr>rt_room_id = rj_room_id j, rt_upstream_url = hd cs,
           rt_upstream_room_token = rj_upstream_room_token j, rt_upstream_candidates = cs\<rparr>]\<rparr>)"
proof (cases "verify_relay_jwt lib (rq_now1 q) (rq_token q) (rs_secret st) (rs_signing_public_key st)
            (rs_hs256_fallback_enabled st)")
  case (Inl e)
  have id: "st = st\<lparr>rs_verified := rs_verified st\<rparr>" by simp
  show thesis
    by (rule rejected [of "if e = RInvalidSignature then UNAUTHORIZED else BAD_REQUEST" "rs_verified st"])
      (use Inl in \<open>cases e; simp add: relay_step_def relay_connect_def\<close>)+
next
  case (Inr r)
  obtain j alg where r: "r = (j, alg)" by (cases r)
  have g: "grant_of lib st q = Some j" using Inr r by (simp add: grant_of_def)
  let ?vs = "rs_verified st @ [alg]"
  let ?seen = "retain_unexpired (rq_now2 q) (rs_seen st)"
  show thesis
  proof (cases "select_candidates uri j")
    case Nil
    show thesis by (rule rejected [of BAD_REQUEST ?vs]) (use Inr r Nil in \<open>simp_all add: relay_step_def relay_connect_def\<close>)
  next
    case (Cons u us)
    show thesis
    proof (cases "?seen (rj_jti j)")
      case None
      show thesis
      proof (cases "rq_open q")
        case True
        show thesis
          by (rule accepted [OF g None Cons, of ?vs])
            (use Inr r Cons None True in \<open>simp_all add: relay_step_def relay_connect_def Let_def\<close>)
      next
        case False
        show thesis
          by (rule burnt [OF g None, of ?vs])
            (use Inr r Cons None False in \<open>simp add: relay_step_def relay_connect_def Let_def\<close>)
      qed
    next
      case (Some e)
      then have "rs_seen st (rj_jti j) = Some e" "rq_now2 q < e"
        by (auto simp: retain_unexpired_def split: option.splits if_splits)
      then show thesis
        by (rule replayed [OF g, of e ?vs])
          (use Inr r Cons Some in \<open>simp add: relay_step_def relay_connect_def Let_def\<close>)
    qed
  qed
qed

lemma relay_step_config:
  "relay_step lib uri st q = (s, st') \<Longrightarrow>
    rs_secret st' = rs_secret st \<and> rs_signing_public_key st' = rs_signing_public_key st \<and>
    rs_hs256_fallback_enabled st' = rs_hs256_fallback_enabled st"
  by (rule relay_step_cases [of lib uri st q]) auto

lemma grant_of_config: "relay_step lib uri st q = (s, st') \<Longrightarrow> grant_of lib st' = grant_of lib st"
  using relay_step_config [of lib uri st q s st'] by (intro ext) (simp add: grant_of_def)

text \<open>A remembered token stays remembered until it expires, and until then it is not accepted.\<close>

lemma relay_step_seen:
  assumes "relay_step lib uri st q = (s, st')" and "rs_seen st jti = Some e" and "rq_now2 q < e"
  shows "rs_seen st' jti = Some e"
  using assms by (cases rule: relay_step_cases [of lib uri st q]) (auto simp: retain_unexpired_def)

lemma relay_step_replay:
  assumes "relay_step lib uri st q = (s, st')" and "rs_seen st (rj_jti j) = Some e" and "rq_now2 q < e"
    and "grant_of lib st q = Some j"
  shows "s \<noteq> OK"
  using assms by (cases rule: relay_step_cases [of lib uri st q]) (auto simp: retain_unexpired_def)

lemma relay_run_replay:
  assumes "relay_run lib uri st qs = (ss, st')" and "rs_seen st (rj_jti j) = Some e"
    and "k < length qs" and "\<forall>i \<le> k. rq_now2 (qs ! i) < e" and "grant_of lib st (qs ! k) = Some j"
  shows "ss ! k \<noteq> OK"
  using assms
proof (induction qs arbitrary: st ss k)
  case (Cons q qs)
  obtain s st1 where s: "relay_step lib uri st q = (s, st1)" by (cases "relay_step lib uri st q")
  obtain rs where r: "relay_run lib uri st1 qs = (rs, st')" "ss = s # rs" using Cons.prems(1) s by (auto split: prod.splits)
  have e: "rq_now2 q < e" using Cons.prems(4) by (auto dest: spec [of _ 0])
  show ?case
  proof (cases k)
    case 0
    then show ?thesis using relay_step_replay [OF s Cons.prems(2) e] Cons.prems(5) r(2) by simp
  next
    case (Suc m)
    have "rs ! m \<noteq> OK"
    proof (rule Cons.IH [OF r(1) relay_step_seen [OF s Cons.prems(2) e]])
      show "\<forall>i \<le> m. rq_now2 (qs ! i) < e" using Cons.prems(4) Suc by (auto dest: spec [of _ "Suc _"])
      show "grant_of lib st1 (qs ! m) = Some j" using Cons.prems(5) Suc grant_of_config [OF s] by simp
    qed (use Cons.prems(3) Suc in simp)
    then show ?thesis using r(2) Suc by simp
  qed
qed simp


lemma relay_run_step:
  assumes "relay_run lib uri st qs = (ss, st')" and "k < length qs"
  obtains stk stk' where "relay_step lib uri stk (qs ! k) = (ss ! k, stk')" "grant_of lib stk = grant_of lib st"
    "relay_run lib uri stk' (drop (Suc k) qs) = (drop (Suc k) ss, st')"
  using assms
proof (induction qs arbitrary: st ss k thesis)
  case (Cons q qs)
  obtain s st1 where s: "relay_step lib uri st q = (s, st1)" by (cases "relay_step lib uri st q")
  obtain rs where r: "relay_run lib uri st1 qs = (rs, st')" "ss = s # rs" using Cons.prems(2) s by (auto split: prod.splits)
  show ?case
  proof (cases k)
    case 0
    then show ?thesis using Cons.prems(1) [of st st1] s r by simp
  next
    case (Suc m)
    have "m < length qs" using Cons.prems(3) Suc by simp
    from Cons.IH [OF _ r(1) this] obtain stk stk' where
      "relay_step lib uri stk (qs ! m) = (rs ! m, stk')" "grant_of lib stk = grant_of lib st1"
      "relay_run lib uri stk' (drop (Suc m) qs) = (drop (Suc m) rs, st')" by blast
    then show ?thesis using Cons.prems(1) [of stk stk'] r(2) Suc grant_of_config [OF s] by simp
  qed
qed simp

text \<open>What \<open>decode\<close> promises when expiry is validated without leeway.\<close>

definition jwt_checks_exp :: "jwt_lib \<Rightarrow> bool" where
  "jwt_checks_exp lib \<longleftrightarrow>
    (\<forall>now key v token j. va_validate_exp v \<and> va_leeway v = 0 \<and> jl_decode_relay lib now key v token = Inr j \<longrightarrow>
      now \<le> rj_exp j)"

lemma relay_validation_exp [simp]: "va_validate_exp (relay_validation alg)" "va_leeway (relay_validation alg) = 0"
  by (simp_all add: relay_validation_def)

lemma decode_not_expired:
  "jwt_checks_exp lib \<Longrightarrow> jl_decode_relay lib now key (relay_validation alg) token = Inr j \<Longrightarrow> now \<le> rj_exp j"
  unfolding jwt_checks_exp_def using relay_validation_exp by blast

lemma grant_not_expired:
  assumes "jwt_checks_exp lib" and "grant_of lib st q = Some j"
  shows "rq_now1 q \<le> rj_exp j"
  using assms(2)
  by (auto simp: grant_of_def verify_relay_jwt_Inr relay_verify_Inr relay_verify_ed25519_Inr
      dest: decode_not_expired [OF assms(1)] split: sum.splits prod.splits)

text \<open>C15: Over any sequence of relay requests with a clock that does not go back, a grant whose id was
  accepted before is accepted again only once the earlier grant has expired; and when it carries the
  same expiry, only if the library still verified it no later than the second of that expiry.\<close>

theorem relay_token_single_use:
  assumes "jwt_checks_exp lib" and "relay_run lib uri st qs = (ss, st')" and "sorted (map rq_now2 qs)"
    and "i < k" and "k < length qs" and "ss ! i = OK" and "ss ! k = OK"
    and "grant_of lib st (qs ! i) = Some a" and "grant_of lib st (qs ! k) = Some b" and "rj_jti a = rj_jti b"
  shows "rj_exp a \<le> rq_now2 (qs ! k) \<and> rq_now1 (qs ! k) \<le> rj_exp b"
proof (intro conjI)
  show "rq_now1 (qs ! k) \<le> rj_exp b" by (rule grant_not_expired [OF assms(1,9)])
  show "rj_exp a \<le> rq_now2 (qs ! k)"
  proof (rule ccontr)
    assume late: "\<not> rj_exp a \<le> rq_now2 (qs ! k)"
    have i: "i < length qs" using assms(4,5) by simp
    obtain sti sti' where si: "relay_step lib uri sti (qs ! i) = (ss ! i, sti')" "grant_of lib sti = grant_of lib st"
      "relay_run lib uri sti' (drop (Suc i) qs) = (drop (Suc i) ss, st')"
      by (rule relay_run_step [OF assms(2) i])
    have "rs_seen sti' (rj_jti a) = Some (rj_exp a)"
      using si(1) assms(6,8) si(2) by (cases rule: relay_step_cases [of lib uri sti "qs ! i"]) auto
    then have seen: "rs_seen sti' (rj_jti b) = Some (rj_exp a)" using assms(10) by simp
    have gb: "grant_of lib sti' (drop (Suc i) qs ! (k - Suc i)) = Some b"
      using grant_of_config [OF si(1)] si(2) assms(4,5,9) by simp
    have early: "\<forall>m \<le> k - Suc i. rq_now2 (drop (Suc i) qs ! m) < rj_exp a"
    proof (intro allI impI)
      fix m assume m: "m \<le> k - Suc i"
      then have "Suc i + m \<le> k" using assms(4) by simp
      then have "rq_now2 (qs ! (Suc i + m)) \<le> rq_now2 (qs ! k)"
        using sorted_nth_mono [OF assms(3), of "Suc i + m" k] assms(5) by simp
      then show "rq_now2 (drop (Suc i) qs ! m) < rj_exp a" using late i by (simp add: nth_drop)
    qed
    have "drop (Suc i) ss ! (k - Suc i) \<noteq> OK"
      by (rule relay_run_replay [OF si(3) seen _ early gb]) (use assms(4,5) in simp)
    moreover have "length ss = length qs" using assms(2)
      by (induction qs arbitrary: st ss) (auto split: prod.splits)
    ultimately show False using assms(4,5,7) by simp
  qed
qed

text \<open>A library that accepts one grant, up to the second of its expiry, under one key.\<close>

definition demo_grant :: relay_jwt where
  "demo_grant = \<lparr>rj_room_id = ''room'', rj_upstream_url = ''ws://10.9.0.2/ws'', rj_upstream_room_token = ''t'', rj_iat = 40,
    rj_exp = 100, rj_jti = ''j1'', rj_upstream_candidates = []\<rparr>"

definition demo_lib :: jwt_lib where
  "demo_lib = \<lparr>jl_ed_pem_ok = (\<lambda>pem. pem = ''PEM''),
    jl_decode_room = (\<lambda>now key v token.
      if key \<noteq> EdKey ''PEM'' \<and> key \<noteq> HmacSecret ''secret'' then Inl InvalidSignatureKind
      else if now > 100 + va_leeway v then Inl ExpiredSignature
      else Inr \<lparr>rc_sub = 7, rc_room = ''room'', rc_iat = 40, rc_exp = 100\<rparr>),
    jl_decode_relay = (\<lambda>now key v token.
      if key \<noteq> EdKey ''PEM'' then Inl InvalidSignatureKind
      else if now > 100 + va_leeway v then Inl ExpiredSignature
      else Inr demo_grant)\<rparr>"

definition demo_uri :: uri_parser where
  "demo_uri url = Some (Some ''ws'', Some ''10.9.0.2'')"

definition demo_relay :: relay_api_state where
  "demo_relay = \<lparr>rs_secret = [], rs_signing_public_key = Some ''PEM'', rs_seen = (\<lambda>_. None),
    rs_hs256_fallback_enabled = False, rs_tasks = [], rs_verified = []\<rparr>"

definition at_sec :: "nat \<Rightarrow> relay_request" where
  "at_sec n = \<lparr>rq_now1 = n, rq_now2 = n, rq_open = True, rq_token = ''tok''\<rparr>"

lemma demo_lib_checks: "jwt_checks_exp demo_lib"
  by (auto simp: jwt_checks_exp_def demo_lib_def demo_grant_def split: if_splits)

lemma demo_allowed: "is_allowed_upstream demo_uri url"
proof -
  have "in_mesh ''10.9.0.2''"
    unfolding in_mesh_iff by (rule exI [of _ 2]) code_simp
  then show ?thesis by (simp add: is_allowed_upstream_def demo_uri_def)
qed

lemma demo_select: "select_candidates demo_uri demo_grant = [''ws://10.9.0.2/ws'']"
  by (simp add: select_candidates_def demo_allowed demo_grant_def MAX_RELAY_CANDIDATES_def)

lemma demo_verify: "n \<le> 100 \<Longrightarrow> 10 \<le> n \<Longrightarrow> verify_relay_jwt demo_lib n ''tok'' [] (Some ''PEM'') False = Inr (demo_grant, ''eddsa'')"
  by (simp add: verify_relay_jwt_def relay_verify_ed25519_def demo_lib_def iat_ahead_def demo_grant_def)

lemmas relay_exec = relay_step_def relay_connect_def at_sec_def demo_relay_def demo_verify demo_select
  retain_unexpired_def

text \<open>What \<open>decode\<close> promises the other way: with expiry validated without leeway, a token it accepts is
  accepted, with the same claims, at every later time up to and including the second of its expiry.\<close>

definition jwt_accepts_through_exp :: "jwt_lib \<Rightarrow> bool" where
  "jwt_accepts_through_exp lib \<longleftrightarrow>
    (\<forall>now now' key v token j. va_validate_exp v \<and> va_leeway v = 0 \<and> jl_decode_relay lib now key v token = Inr j \<and>
      now \<le> now' \<and> now' \<le> rj_exp j \<longrightarrow> jl_decode_relay lib now' key v token = Inr j)"

text \<open>The verdict of the primary credential: the EdDSA key when one is configured, else the shared secret.\<close>

definition primary_verdict :: "jwt_lib \<Rightarrow> relay_api_state \<Rightarrow> nat \<Rightarrow> string \<Rightarrow> relay_jwt_error + relay_jwt" where
  "primary_verdict lib st now token =
    (case rs_signing_public_key st of
       Some pem \<Rightarrow> relay_verify_ed25519 lib now token pem
     | None \<Rightarrow> relay_verify lib now token (rs_secret st))"

lemma primary_grant:
  assumes "primary_verdict lib st now token = Inr j"
  shows "\<exists>alg. verify_relay_jwt lib now token (rs_secret st) (rs_signing_public_key st) (rs_hs256_fallback_enabled st) = Inr (j, alg)"
  using assms by (auto simp: primary_verdict_def verify_relay_jwt_def split: option.splits)

lemma primary_through_exp:
  assumes lib: "jwt_accepts_through_exp lib" and v: "primary_verdict lib st now token = Inr j"
    and t: "now \<le> now'" "now' \<le> rj_exp j" and small: "rj_exp j + 30 < 2 ^ 64"
  shows "primary_verdict lib st now' token = Inr j"
proof -
  have "\<not> iat_ahead now j \<Longrightarrow> \<not> iat_ahead now' j" using t small by (simp add: iat_ahead_def)
  moreover have "jl_decode_relay lib now key (relay_validation alg) token = Inr j \<Longrightarrow>
      jl_decode_relay lib now' key (relay_validation alg) token = Inr j" for key alg
    using lib t relay_validation_exp unfolding jwt_accepts_through_exp_def by blast
  ultimately show ?thesis using v
    by (auto simp: primary_verdict_def relay_verify_Inr relay_verify_ed25519_Inr split: option.splits)
qed

definition task_for :: "uri_parser \<Rightarrow> relay_jwt \<Rightarrow> relay_task" where
  "task_for uri j = \<lparr>rt_room_id = rj_room_id j, rt_upstream_url = hd (select_candidates uri j),
    rt_upstream_room_token = rj_upstream_room_token j, rt_upstream_candidates = select_candidates uri j\<rparr>"

lemma relay_step_accepts:
  assumes "primary_verdict lib st (rq_now1 q) (rq_token q) = Inr j" and "select_candidates uri j \<noteq> []" and "rq_open q"
    and "rs_seen st (rj_jti j) = None \<or> rs_seen st (rj_jti j) = Some (rj_exp j) \<and> rj_exp j \<le> rq_now2 q"
  shows "\<exists>vs seen. relay_step lib uri st q =
      (OK, st\<lparr>rs_verified := vs, rs_seen := seen, rs_tasks := rs_tasks st @ [task_for uri j]\<rparr>) \<and>
    seen (rj_jti j) = Some (rj_exp j)"
proof -
  obtain alg where "verify_relay_jwt lib (rq_now1 q) (rq_token q) (rs_secret st) (rs_signing_public_key st)
      (rs_hs256_fallback_enabled st) = Inr (j, alg)" using primary_grant [OF assms(1)] by blast
  moreover obtain u us where "select_candidates uri j = u # us" using assms(2) by (cases "select_candidates uri j") auto
  moreover have "retain_unexpired (rq_now2 q) (rs_seen st) (rj_jti j) = None"
    using assms(4) by (auto simp: retain_unexpired_def)
  ultimately show ?thesis using assms(3)
    by (intro exI [of _ "rs_verified st @ [alg]"] exI [of _ "(retain_unexpired (rq_now2 q) (rs_seen st))(rj_jti j \<mapsto> rj_exp j)"])
       (simp add: relay_step_def relay_connect_def task_for_def Let_def)
qed

lemma relay_run_accepts:
  assumes "\<And>q st'. q \<in> set qs \<Longrightarrow> rs_signing_public_key st' = rs_signing_public_key st \<Longrightarrow> rs_secret st' = rs_secret st \<Longrightarrow>
      primary_verdict lib st' (rq_now1 q) (rq_token q) = Inr j"
    and "select_candidates uri j \<noteq> []" and "\<And>q. q \<in> set qs \<Longrightarrow> rq_open q \<and> rj_exp j \<le> rq_now2 q"
    and "rs_seen st (rj_jti j) = Some (rj_exp j)"
  shows "\<exists>st'. relay_run lib uri st qs = (replicate (length qs) OK, st') \<and>
    rs_tasks st' = rs_tasks st @ replicate (length qs) (task_for uri j)"
  using assms
proof (induction qs arbitrary: st)
  case (Cons q qs)
  have "primary_verdict lib st (rq_now1 q) (rq_token q) = Inr j" using Cons.prems(1) [of q st] by simp
  from relay_step_accepts [OF this Cons.prems(2)] Cons.prems(3) [of q] Cons.prems(4) obtain vs seen where
    s: "relay_step lib uri st q = (OK, st\<lparr>rs_verified := vs, rs_seen := seen, rs_tasks := rs_tasks st @ [task_for uri j]\<rparr>)"
      "seen (rj_jti j) = Some (rj_exp j)" by auto
  let ?st = "st\<lparr>rs_verified := vs, rs_seen := seen, rs_tasks := rs_tasks st @ [task_for uri j]\<rparr>"
  have "\<exists>st'. relay_run lib uri ?st qs = (replicate (length qs) OK, st') \<and>
      rs_tasks st' = rs_tasks ?st @ replicate (length qs) (task_for uri j)"
    by (rule Cons.IH) (use Cons.prems s(2) in auto)
  then show ?case by (auto simp: s(1))
qed simp

text \<open>C36: The cache forgets a grant in the second in which the library still accepts it. Take any grant
  that the primary credential of a node verifies, whose id is not in the cache and which names an
  allowed upstream. A first request with it is accepted; and then any number of further requests with
  the same token, each of them verified at the latest in the second of the expiry and checked against
  the cache in that second or later, are all accepted too, each of them enqueuing the same relay task
  once more.\<close>

theorem relay_replay_in_expiry_second:
  assumes lib: "jwt_accepts_through_exp lib" and v: "primary_verdict lib st (rq_now1 q) token = Inr j"
    and small: "rj_exp j + 30 < 2 ^ 64" and cands: "select_candidates uri j \<noteq> []" and fresh: "rs_seen st (rj_jti j) = None"
    and first: "rq_token q = token" "rq_open q"
    and rest: "\<And>r. r \<in> set qs \<Longrightarrow> rq_token r = token \<and> rq_open r \<and> rq_now1 q \<le> rq_now1 r \<and>
      rq_now1 r \<le> rj_exp j \<and> rj_exp j \<le> rq_now2 r"
  shows "\<exists>st'. relay_run lib uri st (q # qs) = (replicate (Suc (length qs)) OK, st') \<and>
    rs_tasks st' = rs_tasks st @ replicate (Suc (length qs)) (task_for uri j)"
proof -
  have "primary_verdict lib st (rq_now1 q) (rq_token q) = Inr j" using v first(1) by simp
  from relay_step_accepts [OF this cands first(2)] fresh obtain vs seen where
    s: "relay_step lib uri st q = (OK, st\<lparr>rs_verified := vs, rs_seen := seen, rs_tasks := rs_tasks st @ [task_for uri j]\<rparr>)"
      "seen (rj_jti j) = Some (rj_exp j)" by auto
  let ?st = "st\<lparr>rs_verified := vs, rs_seen := seen, rs_tasks := rs_tasks st @ [task_for uri j]\<rparr>"
  have p: "primary_verdict lib st' (rq_now1 r) (rq_token r) = Inr j"
    if "r \<in> set qs" "rs_signing_public_key st' = rs_signing_public_key ?st" "rs_secret st' = rs_secret ?st" for r st'
    using primary_through_exp [OF lib v, of "rq_now1 r"] rest [OF that(1)] that(2,3) small
    by (simp add: primary_verdict_def cong: option.case_cong)
  have "\<exists>st'. relay_run lib uri ?st qs = (replicate (length qs) OK, st') \<and>
      rs_tasks st' = rs_tasks ?st @ replicate (length qs) (task_for uri j)"
    by (rule relay_run_accepts [OF p cands]) (use rest s(2) in auto)
  then show ?thesis by (auto simp: s(1))
qed

theorem relay_replay_in_expiry_second_witness:
  "\<exists>st'. relay_run demo_lib demo_uri demo_relay [at_sec 60, at_sec 100, at_sec 100] = ([OK, OK, OK], st') \<and>
    rs_tasks st' = replicate 3 (task_for demo_uri demo_grant)"
proof -
  have lib: "jwt_accepts_through_exp demo_lib"
    by (auto simp: jwt_accepts_through_exp_def demo_lib_def demo_grant_def split: if_splits)
  have "primary_verdict demo_lib demo_relay (rq_now1 (at_sec 60)) ''tok'' = Inr demo_grant"
    by (simp add: primary_verdict_def demo_relay_def at_sec_def relay_verify_ed25519_def demo_lib_def iat_ahead_def demo_grant_def)
  from relay_replay_in_expiry_second [OF lib this, of demo_uri "[at_sec 100, at_sec 100]"] show ?thesis
    by (simp add: demo_select) (simp add: at_sec_def demo_relay_def demo_grant_def numeral_3_eq_3)
qed

theorem relay_token_single_use_witness:
  "\<exists>ss st' a. relay_run demo_lib demo_uri demo_relay [at_sec 60, at_sec 100] = (ss, st') \<and> ss = [OK, OK] \<and>
    grant_of demo_lib demo_relay (at_sec 60) = Some a \<and> rj_exp a \<le> rq_now2 (at_sec 100) \<and> rq_now1 (at_sec 100) \<le> rj_exp a"
proof -
  obtain ss st' where r: "relay_run demo_lib demo_uri demo_relay [at_sec 60, at_sec 100] = (ss, st')"
    by (cases "relay_run demo_lib demo_uri demo_relay [at_sec 60, at_sec 100]")
  have ss: "ss = [OK, OK]" using r by (simp add: relay_exec, simp add: demo_grant_def split: prod.splits)
  have g: "grant_of demo_lib demo_relay (at_sec 60) = Some demo_grant" "grant_of demo_lib demo_relay (at_sec 100) = Some demo_grant"
    by (simp_all add: grant_of_def at_sec_def demo_relay_def demo_verify)
  have "rj_exp demo_grant \<le> rq_now2 (at_sec 100) \<and> rq_now1 (at_sec 100) \<le> rj_exp demo_grant"
    using relay_token_single_use [OF demo_lib_checks r, of 0 1 demo_grant demo_grant] ss g
    by (simp add: at_sec_def)
  then show ?thesis using r ss g by blast
qed


section \<open>Keys and targets of the relay API\<close>

text \<open>C12: With the activation decision wired into the relay API as at boot, every grant that is accepted was
  verified either under the configured EdDSA key or under a configured shared secret of at least 32
  bytes that is not the placeholder, the latter next to an EdDSA key only while the fallback is
  switched on; the empty secret of an EdDSA-only node is never used as a key.\<close>

theorem relay_grants_use_configured_keys:
  assumes "compute_relay_activation sec pk cfg = Inr a" and "ra_enabled a"
    and "verify_relay_jwt lib now token (ra_secret a) pk (ra_hs256_fallback_effective a) = Inr (j, alg)"
  shows "\<not> iat_ahead now j \<and>
    (if alg = ''eddsa'' then \<exists>pem. pk = Some pem \<and> jl_decode_relay lib now (EdKey pem) (relay_validation EdDSA) token = Inr j
     else \<exists>s. sec = Some s \<and> strong_secret s \<and> (pk = None \<or> cfg) \<and>
       jl_decode_relay lib now (HmacSecret s) (relay_validation HS256) token = Inr j)"
proof -
  have a: "case sec of None \<Rightarrow> True | Some s \<Rightarrow> strong_secret s" "sec \<noteq> None \<or> pk \<noteq> None"
    "ra_secret a = (case sec of None \<Rightarrow> [] | Some s \<Rightarrow> s)" "ra_hs256_fallback_effective a \<longleftrightarrow> sec \<noteq> None \<and> cfg"
    using assms(1,2) unfolding activation_Inr by simp_all
  consider (ed) pem where "alg = ''eddsa''" "pk = Some pem" "relay_verify_ed25519 lib now token pem = Inr j"
    | (hs) "alg = ''hs256''" "relay_verify lib now token (ra_secret a) = Inr j" "pk = None \<or> ra_hs256_fallback_effective a"
    using assms(3) unfolding verify_relay_jwt_Inr by (auto split: option.splits)
  then show ?thesis
  proof cases
    case ed
    then show ?thesis by (simp add: relay_verify_ed25519_Inr)
  next
    case hs
    then obtain s where s: "sec = Some s" using a(2,4) by auto
    have "alg \<noteq> ''eddsa''" using hs(1) by simp
    then show ?thesis using hs(2,3) a s by (simp add: relay_verify_Inr) 
  qed
qed

theorem relay_grants_use_configured_keys_witness:
  "\<exists>a. compute_relay_activation None (Some ''PEM'') True = Inr a \<and>
    verify_relay_jwt demo_lib 60 ''tok'' (ra_secret a) (Some ''PEM'') (ra_hs256_fallback_effective a) = Inr (demo_grant, ''eddsa'') \<and>
    jl_decode_relay demo_lib 60 (EdKey ''PEM'') (relay_validation EdDSA) ''tok'' = Inr demo_grant"
proof -
  obtain a where a: "compute_relay_activation None (Some ''PEM'') True = Inr a" "ra_enabled a" "ra_secret a = []"
      "\<not> ra_hs256_fallback_effective a"
    by (simp add: activation_Inr)
  then have v: "verify_relay_jwt demo_lib 60 ''tok'' (ra_secret a) (Some ''PEM'') (ra_hs256_fallback_effective a) = Inr (demo_grant, ''eddsa'')"
    by (simp add: demo_verify)
  from relay_grants_use_configured_keys [OF a(1,2) v] a(1) v show ?thesis by simp
qed

text \<open>The trusted upstreams, written out.\<close>

definition trusted_upstream :: "uri_parser \<Rightarrow> string \<Rightarrow> bool" where
  "trusted_upstream uri url \<longleftrightarrow>
    (\<exists>host. uri url = Some (Some ''wss'', Some host) \<and>
      (host \<in> {''oxpulse.chat'', ''localhost'', ''127.0.0.1''} \<or> (\<exists>sub. sub \<noteq> [] \<and> host = sub @ ''.oxpulse.chat''))) \<or>
    (\<exists>d \<le> 255. uri url = Some (Some ''ws'', Some (''10.9.0.'' @ show_nat d)))"

lemma suffix_longer: "length p < length host \<and> suffix p host \<longleftrightarrow> (\<exists>sub. sub \<noteq> [] \<and> host = sub @ p)"
  by (auto simp: suffix_def)

lemma wss_patterns:
  "wss_host_allowed host ''.oxpulse.chat'' \<longleftrightarrow> host = ''oxpulse.chat'' \<or> (\<exists>sub. sub \<noteq> [] \<and> host = sub @ ''.oxpulse.chat'')"
  "wss_host_allowed host ''localhost'' \<longleftrightarrow> host = ''localhost''"
  "wss_host_allowed host ''127.0.0.1'' \<longleftrightarrow> host = ''127.0.0.1''"
proof -
  have "strip_prefix ''.'' ''.oxpulse.chat'' = Some ''oxpulse.chat''" "strip_prefix ''.'' ''localhost'' = None"
    "strip_prefix ''.'' ''127.0.0.1'' = None"
    by (simp_all add: strip_prefix_def)
  then show
    "wss_host_allowed host ''.oxpulse.chat'' \<longleftrightarrow> host = ''oxpulse.chat'' \<or> (\<exists>sub. sub \<noteq> [] \<and> host = sub @ ''.oxpulse.chat'')"
    "wss_host_allowed host ''localhost'' \<longleftrightarrow> host = ''localhost''"
    "wss_host_allowed host ''127.0.0.1'' \<longleftrightarrow> host = ''127.0.0.1''"
    unfolding wss_host_allowed_def by (simp_all only: option.case suffix_longer)
qed

lemma wss_hosts:
  "list_ex (wss_host_allowed host) PUBLIC_WSS_ALLOWED \<longleftrightarrow>
    host \<in> {''oxpulse.chat'', ''localhost'', ''127.0.0.1''} \<or> (\<exists>sub. sub \<noteq> [] \<and> host = sub @ ''.oxpulse.chat'')"
  unfolding PUBLIC_WSS_ALLOWED_def
  by (simp only: list_ex_iff list.set bex_simps(5) bex_simps(7) bex_empty wss_patterns insert_iff empty_iff simp_thms disj_ac)

lemma allowed_trusted: "is_allowed_upstream uri url \<longleftrightarrow> trusted_upstream uri url"
proof (cases "\<exists>scheme host. uri url = Some (Some scheme, Some host)")
  case True
  then obtain scheme host where u: "uri url = Some (Some scheme, Some host)" by blast
  have ne: "''ws'' \<noteq> ''wss''" "''wss'' \<noteq> ''ws''" by simp_all
  have empty: "\<not> (\<exists>d \<le> 255. [] = ''10.9.0.'' @ show_nat d)" "\<not> (\<exists>sub. sub \<noteq> [] \<and> [] = sub @ ''.oxpulse.chat'')" by simp_all
  have t: "trusted_upstream uri url \<longleftrightarrow>
      scheme = ''wss'' \<and> (host \<in> {''oxpulse.chat'', ''localhost'', ''127.0.0.1''} \<or> (\<exists>sub. sub \<noteq> [] \<and> host = sub @ ''.oxpulse.chat'')) \<or>
      scheme = ''ws'' \<and> (\<exists>d \<le> 255. host = ''10.9.0.'' @ show_nat d)"
    unfolding trusted_upstream_def u by blast
  have i: "is_allowed_upstream uri url \<longleftrightarrow> host \<noteq> [] \<and>
      (if scheme = ''wss'' then list_ex (wss_host_allowed host) PUBLIC_WSS_ALLOWED else scheme = ''ws'' \<and> in_mesh host)"
    unfolding is_allowed_upstream_def u by (simp only: option.case prod.case) argo
  show ?thesis
  proof (cases "host = []")
    case True
    then show ?thesis unfolding t i True using empty by simp
  next
    case False
    then show ?thesis unfolding t i wss_hosts in_mesh_iff [of host] using ne by argo
  qed
next
  case False
  then have "\<not> is_allowed_upstream uri url" by (auto simp: is_allowed_upstream_def split: option.splits prod.splits)
  moreover have "\<not> trusted_upstream uri url" using False unfolding trusted_upstream_def by blast
  ultimately show ?thesis by simp
qed

lemma set_first_seen: "set (first_seen seen us) = set us - set seen"
  by (induction us arbitrary: seen) auto

lemma distinct_first_seen: "distinct (first_seen seen us)"
  by (induction us arbitrary: seen) (auto simp: set_first_seen)

lemma subseq_first_seen: "subseq (first_seen seen us) us"
  by (induction us arbitrary: seen) auto

definition grant_urls :: "relay_jwt \<Rightarrow> string list" where
  "grant_urls j = (if rj_upstream_candidates j = [] then [rj_upstream_url j] else rj_upstream_candidates j)"

lemma select_candidates_ok:
  "distinct (select_candidates uri j)" "length (select_candidates uri j) \<le> MAX_RELAY_CANDIDATES"
  "list_all (is_allowed_upstream uri) (select_candidates uri j)" "subseq (select_candidates uri j) (grant_urls j)"
  "select_candidates uri j = [] \<longleftrightarrow> \<not> list_ex (is_allowed_upstream uri) (grant_urls j)"
proof -
  let ?f = "first_seen [] (filter (is_allowed_upstream uri) (grant_urls j))"
  have s: "select_candidates uri j = take MAX_RELAY_CANDIDATES ?f" by (simp add: select_candidates_def grant_urls_def Let_def)
  show "distinct (select_candidates uri j)" unfolding s by (simp add: distinct_first_seen)
  show "length (select_candidates uri j) \<le> MAX_RELAY_CANDIDATES" unfolding s by simp
  show "list_all (is_allowed_upstream uri) (select_candidates uri j)"
    unfolding s using set_take_subset [of MAX_RELAY_CANDIDATES ?f] by (auto simp: list_all_iff set_first_seen)
  have "subseq (take MAX_RELAY_CANDIDATES ?f) ?f" by (metis append_take_drop_id list_emb_prefix subseq_order.refl)
  then show "subseq (select_candidates uri j) (grant_urls j)"
    unfolding s using subseq_first_seen [of "[]"] subseq_filter_left by (meson subseq_order.trans)
  have "?f = [] \<longleftrightarrow> \<not> list_ex (is_allowed_upstream uri) (grant_urls j)"
    using set_first_seen [of "[]" "filter (is_allowed_upstream uri) (grant_urls j)"]
    by (metis (mono_tags, lifting) Diff_empty filter_empty_conv list.set(1) list_ex_iff set_empty)
  then show "select_candidates uri j = [] \<longleftrightarrow> \<not> list_ex (is_allowed_upstream uri) (grant_urls j)"
    unfolding s by (simp add: MAX_RELAY_CANDIDATES_def)
qed

text \<open>The task of a grant: its room and token, and of its upstreams, in the grant's order and without
  repetition, trusted ones only, the first of them first; a trusted one is left out only behind eight
  others.\<close>

definition task_ok :: "uri_parser \<Rightarrow> relay_jwt \<Rightarrow> relay_task \<Rightarrow> bool" where
  "task_ok uri j t \<longleftrightarrow>
    rt_room_id t = rj_room_id j \<and> rt_upstream_room_token t = rj_upstream_room_token j \<and>
    subseq (rt_upstream_candidates t) (grant_urls j) \<and>
    (\<exists>us. rt_upstream_candidates t = rt_upstream_url t # us) \<and> distinct (rt_upstream_candidates t) \<and>
    length (rt_upstream_candidates t) \<le> 8 \<and> (\<forall>u \<in> set (rt_upstream_candidates t). trusted_upstream uri u) \<and>
    (length (rt_upstream_candidates t) < 8 \<longrightarrow>
      (\<forall>u \<in> set (grant_urls j). trusted_upstream uri u \<longrightarrow> u \<in> set (rt_upstream_candidates t)))"

lemma select_candidates_complete:
  "length (select_candidates uri j) < MAX_RELAY_CANDIDATES \<Longrightarrow> u \<in> set (grant_urls j) \<Longrightarrow> is_allowed_upstream uri u \<Longrightarrow>
    u \<in> set (select_candidates uri j)"
  by (auto simp: select_candidates_def grant_urls_def Let_def set_first_seen min_def split: if_splits)

lemma task_for_ok:
  assumes "select_candidates uri j \<noteq> []"
  shows "task_ok uri j (task_for uri j)"
  using assms select_candidates_ok(1-4) [of uri j] select_candidates_complete [of uri j]
  by (auto simp: task_ok_def task_for_def allowed_trusted list_all_iff MAX_RELAY_CANDIDATES_def neq_Nil_conv)

text \<open>The requests answered \<open>OK\<close>, in order.\<close>

definition accepted_requests :: "status list \<Rightarrow> relay_request list \<Rightarrow> relay_request list" where
  "accepted_requests ss qs = map snd (filter (\<lambda>(s, q). s = OK) (zip ss qs))"

lemma relay_step_tasks:
  assumes "relay_step lib uri st q = (s, st')"
  shows "if s = OK then \<exists>j. grant_of lib st q = Some j \<and> (\<exists>t. task_ok uri j t \<and> rs_tasks st' = rs_tasks st @ [t])
    else rs_tasks st' = rs_tasks st"
  using assms
proof (cases rule: relay_step_cases [of lib uri st q])
  case (accepted j vs cs)
  then show ?thesis using assms task_for_ok [of uri j] by (auto simp: task_for_def)
qed auto

text \<open>C13: Whatever grants central signs and whatever requests arrive, the tasks the relay API enqueues are,
  one for one and in order, those of the requests it accepted, and each is the task of the grant that
  was verified for its request: the grant's room and token, and of the upstreams the grant names one
  to eight distinct ones in the grant's order, the first of them the upstream URL, each of them a TLS
  endpoint of the product's domain or of the loopback host or a plain endpoint in the mesh subnet
  10.9.0.0/24 by the very parser that dials it.\<close>

theorem relay_dials_trusted_upstreams:
  "relay_run lib uri st qs = (ss, st') \<Longrightarrow>
    \<exists>ts. rs_tasks st' = rs_tasks st @ ts \<and>
      list_all2 (\<lambda>q t. \<exists>j. grant_of lib st q = Some j \<and> task_ok uri j t) (accepted_requests ss qs) ts"
proof (induction qs arbitrary: st ss)
  case (Cons q qs)
  obtain s st1 where s: "relay_step lib uri st q = (s, st1)" by (cases "relay_step lib uri st q")
  obtain rs where r: "relay_run lib uri st1 qs = (rs, st')" "ss = s # rs" using Cons.prems s by (auto split: prod.splits)
  from Cons.IH [OF r(1)] grant_of_config [OF s] obtain ts where
    ts: "rs_tasks st' = rs_tasks st1 @ ts"
      "list_all2 (\<lambda>q t. \<exists>j. grant_of lib st q = Some j \<and> task_ok uri j t) (accepted_requests rs qs) ts" by auto
  show ?case
  proof (cases "s = OK")
    case True
    then obtain j t where "grant_of lib st q = Some j" "task_ok uri j t" "rs_tasks st1 = rs_tasks st @ [t]"
      using relay_step_tasks [OF s] by auto
    then show ?thesis using ts True r(2) by (intro exI [of _ "t # ts"]) (simp add: accepted_requests_def)
  next
    case False
    then show ?thesis using relay_step_tasks [OF s] ts r(2) by (auto simp: accepted_requests_def)
  qed
qed (simp add: accepted_requests_def)

theorem relay_dials_trusted_upstreams_witness:
  "\<exists>ss st' t. relay_run demo_lib demo_uri demo_relay [at_sec 60] = (ss, st') \<and> rs_tasks st' = [t] \<and>
    task_ok demo_uri demo_grant t"
proof -
  obtain ss st' where r: "relay_run demo_lib demo_uri demo_relay [at_sec 60] = (ss, st')"
    by (cases "relay_run demo_lib demo_uri demo_relay [at_sec 60]")
  have ss: "ss = [OK]" using r by (auto simp: relay_exec split: prod.splits)
  have g: "grant_of demo_lib demo_relay (at_sec 60) = Some demo_grant"
    by (simp add: grant_of_def at_sec_def demo_relay_def demo_verify)
  have "rs_tasks demo_relay = []" by (simp add: demo_relay_def)
  then obtain t where "rs_tasks st' = [t]" "task_ok demo_uri demo_grant t"
    using relay_dials_trusted_upstreams [OF r] g by (auto simp: ss accepted_requests_def list_all2_Cons1)
  then show ?thesis using r by blast
qed

end
