(* ===== verification/Sfu_Dc.thy ===== *)
theory Sfu_Dc
  imports Sfu_Renego Sfu_Auth
begin

text \<open>
  The data channels of a client: what arrives on them (\<open>client/dc.rs\<close>) and the writers that relay chat,
  voice and key frames and the SFU's own events to a peer (\<open>client/chat.rs\<close>, \<open>client/voice.rs\<close>,
  \<open>client/keys.rs\<close>, \<open>sfu_events.rs\<close>, \<open>handle_sfu_event_out\<close> of \<open>client/mod.rs\<close>).
\<close>

section \<open>Text in a payload\<close>

text \<open>\<open>std::str::from_utf8\<close>: well-formed UTF-8 as in table 3-7 of the Unicode standard.\<close>

definition cont :: "nat \<Rightarrow> bool" where
  "cont b \<longleftrightarrow> 128 \<le> b \<and> b \<le> 191"

definition second_ok :: "nat \<Rightarrow> nat \<Rightarrow> bool" where
  "second_ok lead b \<longleftrightarrow>
    (if lead = 224 then 160 \<le> b \<and> b \<le> 191 else if lead = 237 then 128 \<le> b \<and> b \<le> 159
     else if lead = 240 then 144 \<le> b \<and> b \<le> 191 else if lead = 244 then 128 \<le> b \<and> b \<le> 143 else cont b)"

fun utf8_ok :: "nat list \<Rightarrow> bool" where
  "utf8_ok [] = True"
| "utf8_ok (b # bs) =
    (if b < 128 then utf8_ok bs
     else if 194 \<le> b \<and> b \<le> 223 then (case bs of c # r \<Rightarrow> cont c \<and> utf8_ok r | _ \<Rightarrow> False)
     else if 224 \<le> b \<and> b \<le> 239 then (case bs of c # d # r \<Rightarrow> second_ok b c \<and> cont d \<and> utf8_ok r | _ \<Rightarrow> False)
     else if 240 \<le> b \<and> b \<le> 244 then
       (case bs of c # d # e # r \<Rightarrow> second_ok b c \<and> cont d \<and> cont e \<and> utf8_ok r | _ \<Rightarrow> False)
     else False)"

definition from_utf8 :: "payload \<Rightarrow> string option" where
  "from_utf8 data = (if utf8_ok (map unat data) then Some (map (\<lambda>b. char_of (unat b)) data) else None)"

definition quoted_key :: "string \<Rightarrow> string" where
  "quoted_key key = CHR 0x22 # key @ [CHR 0x22]"

text \<open>The text after the colon that follows the first occurrence of the key, leading white space removed.\<close>

definition after_colon :: "string \<Rightarrow> string \<Rightarrow> string option" where
  "after_colon json key =
    (case after_first (quoted_key key) json of
       None \<Rightarrow> None
     | Some after_key \<Rightarrow>
         (case split_once CHR '':'' after_key of None \<Rightarrow> None | Some (_, rhs) \<Rightarrow> Some (trim_start rhs)))"

definition extract_str_value :: "string \<Rightarrow> string \<Rightarrow> string option" where
  "extract_str_value json key =
    (case after_colon json key of
       None \<Rightarrow> None
     | Some v \<Rightarrow>
         (case strip_prefix [CHR 0x22] v of
            None \<Rightarrow> None
          | Some inner \<Rightarrow> (case split_once (CHR 0x22) inner of None \<Rightarrow> None | Some (value, _) \<Rightarrow> Some value)))"

definition extract_num_value :: "string \<Rightarrow> string \<Rightarrow> nat option" where
  "extract_num_value json key =
    (case after_colon json key of
       None \<Rightarrow> None
     | Some v \<Rightarrow>
         (let digits = takeWhile is_digit v in
          if digits = [] then None else parse_unsigned (2 ^ 64 - 1) digits))"

definition has_key :: "string \<Rightarrow> string \<Rightarrow> bool" where
  "has_key s key = (after_first (quoted_key key) s \<noteq> None)"

definition parse_budget_bps :: "string \<Rightarrow> nat option" where
  "parse_budget_bps s =
    (if \<not> has_key s ''type'' \<or> \<not> has_key s ''bps'' then None
     else if extract_str_value s ''type'' \<noteq> Some ''budget'' then None
     else extract_num_value s ''bps'')"

section \<open>Incoming data\<close>

definition CHAT_FRAME_MAX_BYTES :: nat where "CHAT_FRAME_MAX_BYTES = 256 * 1024"
definition VOICE_FRAME_MAX_BYTES :: nat where "VOICE_FRAME_MAX_BYTES = 64 * 1024"
definition SFRAME_KEYS_FRAME_MAX_BYTES :: nat where "SFRAME_KEYS_FRAME_MAX_BYTES = 64 * 1024"

text \<open>The verdict on the room token of a promotion; the last case is the source's \<open>unreachable!\<close>.\<close>

definition dc_verify ::
  "jwt_lib \<Rightarrow> nat \<Rightarrow> room_token_policy \<Rightarrow> string \<Rightarrow> string \<Rightarrow> string option \<Rightarrow> string option \<Rightarrow> bool
    \<Rightarrow> (room_auth_error + room_claims) out" where
  "dc_verify lib now p token room_id pubkey secret fallback =
    (case (pubkey, secret) of
       (Some pem, maybe_secret) \<Rightarrow>
         Done (case verify_room_token_ed25519 lib now p token room_id pem of
                 Inr claims \<Rightarrow> Inr claims
               | Inl InvalidSignature \<Rightarrow>
                   (case maybe_secret of
                      Some s \<Rightarrow> if fallback then verify_room_token lib now p token room_id s else Inl InvalidSignature
                    | None \<Rightarrow> Inl InvalidSignature)
               | Inl e \<Rightarrow> Inl e)
     | (None, Some s) \<Rightarrow> Done (verify_room_token lib now p token room_id s)
     | (None, None) \<Rightarrow> Panic)"

definition last_segment :: "string \<Rightarrow> string" where
  "last_segment url = last (split_on CHR ''/'' url)"

definition relay_source ::
  "jwt_lib \<Rightarrow> nat \<Rightarrow> room_token_policy \<Rightarrow> client_id \<Rightarrow> string \<Rightarrow> string option \<Rightarrow> string option \<Rightarrow> bool \<Rightarrow> propagated out" where
  "relay_source lib now p cid s secret pubkey fallback =
    (case extract_str_value s ''upstreamUrl'' of
       None \<Rightarrow> Done Noop
     | Some upstream_url \<Rightarrow>
         if pubkey \<noteq> None \<or> secret \<noteq> None then
           (case extract_str_value s ''roomToken'' of
              None \<Rightarrow> Done Noop
            | Some token \<Rightarrow>
                (let room_id = last_segment upstream_url in
                 if room_id = [] then Done Noop
                 else
                   (case dc_verify lib now p token room_id pubkey secret fallback of
                      Done (Inr _) \<Rightarrow> Done (MarkRelaySource cid upstream_url)
                    | Done (Inl _) \<Rightarrow> Done Noop
                    | _ \<Rightarrow> Panic)))
         else Done (MarkRelaySource cid upstream_url))"

definition capped :: "nat \<Rightarrow> payload \<Rightarrow> propagated \<Rightarrow> propagated" where
  "capped limit data ev = (if length data > limit then Noop else ev)"

definition budget_data :: "client_id \<Rightarrow> payload \<Rightarrow> propagated" where
  "budget_data cid data =
    (case from_utf8 data of
       None \<Rightarrow> Noop
     | Some text \<Rightarrow>
         if extract_str_value text ''type'' = Some ''max_temporal_layer'' then
           (case extract_num_value text ''vfm'' of
              Some max_tid \<Rightarrow> VfmLayerCap cid (max_tid mod 256)
            | None \<Rightarrow> Noop)
         else (case parse_budget_bps text of Some bps \<Rightarrow> ClientBudgetHint cid bps | None \<Rightarrow> Noop))"

definition labelled_data :: "client_id \<Rightarrow> string \<Rightarrow> payload \<Rightarrow> propagated" where
  "labelled_data cid label data =
    (if label = ''chat-data'' then capped CHAT_FRAME_MAX_BYTES data (ChatData cid data)
     else if label = ''chat-ctrl'' then capped CHAT_FRAME_MAX_BYTES data (ChatCtrl cid data)
     else if label = ''voice'' then capped VOICE_FRAME_MAX_BYTES data (VoiceData cid data)
     else if label = ''sframe-keys'' then capped SFRAME_KEYS_FRAME_MAX_BYTES data (KeysData cid data)
     else if label = ''sfu-events'' then Noop
     else if label \<noteq> ''sfu-budget'' then Noop
     else budget_data cid data)"

definition handle_channel_data ::
  "jwt_lib \<Rightarrow> nat \<Rightarrow> room_token_policy \<Rightarrow> client_id \<Rightarrow> string \<Rightarrow> payload \<Rightarrow> string option \<Rightarrow> string option \<Rightarrow> bool
    \<Rightarrow> propagated out" where
  "handle_channel_data lib now p cid label data secret pubkey fallback =
    (case from_utf8 data of
       Some s \<Rightarrow>
         if extract_str_value s ''type'' = Some ''relay_source''
         then relay_source lib now p cid s secret pubkey fallback
         else Done (labelled_data cid label data)
     | None \<Rightarrow> Done (labelled_data cid label data))"

section \<open>Writers\<close>

definition chat_dropped :: "string \<Rightarrow> string \<Rightarrow> metric" where
  "chat_dropped dc reason = Inc ''chat_relay_dropped_total'' [dc, reason]"

definition write_chat_frame ::
  "('r, 'p) rtc_api \<Rightarrow> string \<Rightarrow> channel_id option \<Rightarrow> payload \<Rightarrow> ('r, 'p) client \<Rightarrow> ('r, 'p) client" where
  "write_chat_frame api dc cid payload c =
    (if length payload > CHAT_FRAME_MAX_BYTES then bump (chat_dropped dc ''oversize'') c
     else
       (case cid of
          None \<Rightarrow> bump (chat_dropped dc ''no_channel'') c
        | Some i \<Rightarrow>
            if \<not> rtc_channel api (rtc c) i then bump (chat_dropped dc ''no_channel'') c
            else
              (case rtc_channel_write api (rtc c) i payload of
                 (True, r) \<Rightarrow> bump (IncBy ''chat_relay_tx_bytes_total'' [dc, client_label c] (length payload)) (c\<lparr>rtc := r\<rparr>)
               | (False, r) \<Rightarrow> bump (chat_dropped dc ''write_err'') (c\<lparr>rtc := r\<rparr>))))"

definition handle_chat_data_out ::
  "('r, 'p) rtc_api \<Rightarrow> client_id \<Rightarrow> payload \<Rightarrow> ('r, 'p) client \<Rightarrow> ('r, 'p) client" where
  "handle_chat_data_out api og payload c =
    (if cl_id c = og then c else write_chat_frame api ''data'' (chat_data_cid c) payload c)"

definition handle_chat_ctrl_out ::
  "('r, 'p) rtc_api \<Rightarrow> client_id \<Rightarrow> payload \<Rightarrow> ('r, 'p) client \<Rightarrow> ('r, 'p) client" where
  "handle_chat_ctrl_out api og payload c =
    (if cl_id c = og then c else write_chat_frame api ''ctrl'' (chat_ctrl_cid c) payload c)"

definition VOICE_BUFFERED_AMOUNT_MAX :: nat where
  "VOICE_BUFFERED_AMOUNT_MAX = VOICE_FRAME_MAX_BYTES"

definition voice_dropped :: "string \<Rightarrow> metric" where
  "voice_dropped reason = Inc ''voice_relay_dropped'' [reason]"

definition handle_voice_data_out ::
  "('r, 'p) rtc_api \<Rightarrow> client_id \<Rightarrow> payload \<Rightarrow> ('r, 'p) client \<Rightarrow> ('r, 'p) client" where
  "handle_voice_data_out api og payload c =
    (if cl_id c = og then c
     else if length payload > VOICE_FRAME_MAX_BYTES then bump (voice_dropped ''frame_malformed'') c
     else
       (case voice_data_cid c of
          None \<Rightarrow> bump (voice_dropped ''subscriber_dc_not_open'') c
        | Some i \<Rightarrow>
            if \<not> rtc_channel api (rtc c) i then bump (voice_dropped ''dc_closed'') c
            else if rtc_buffered_amount api (rtc c) i > VOICE_BUFFERED_AMOUNT_MAX
              then bump (voice_dropped ''buffered_amount_too_high'') c
            else
              (case rtc_channel_write api (rtc c) i payload of
                 (True, r) \<Rightarrow> bump (IncBy ''voice_relay_tx_bytes_total'' [client_label c] (length payload)) (c\<lparr>rtc := r\<rparr>)
               | (False, r) \<Rightarrow> bump (voice_dropped ''dc_send_failed'') (c\<lparr>rtc := r\<rparr>))))"

definition handle_keys_data_out ::
  "('r, 'p) rtc_api \<Rightarrow> client_id \<Rightarrow> payload \<Rightarrow> ('r, 'p) client \<Rightarrow> ('r, 'p) client" where
  "handle_keys_data_out api og payload c =
    (if cl_id c = og then c
     else if length payload > SFRAME_KEYS_FRAME_MAX_BYTES then c
     else
       (case keys_dc_cid c of
          None \<Rightarrow> c
        | Some i \<Rightarrow>
            if \<not> rtc_channel api (rtc c) i then c
            else c\<lparr>rtc := snd (rtc_channel_write api (rtc c) i payload)\<rparr>))"

definition MAX_FRAME_SIZE :: nat where
  "MAX_FRAME_SIZE = 256"

text \<open>The serialised frame; \<open>ts\<close> is the wall clock in milliseconds.\<close>

definition build_peer_suspended :: "nat \<Rightarrow> client_id \<Rightarrow> suspend_tier \<Rightarrow> payload" where
  "build_peer_suspended ts pid tier =
    to_bytes (''{\"kind\":\"peer-suspended\",\"from\":\"'' @ show_nat pid @ ''\",\"ts\":'' @ show_nat ts @
      '',\"tier\":\"'' @ as_wire_str tier @ ''\"}'')"

definition handle_sfu_event_out :: "('r, 'p) rtc_api \<Rightarrow> payload \<Rightarrow> ('r, 'p) client \<Rightarrow> ('r, 'p) client" where
  "handle_sfu_event_out api payload c =
    (case sfu_events_cid c of
       None \<Rightarrow> c
     | Some i \<Rightarrow>
         if length payload > MAX_FRAME_SIZE then c
         else if \<not> rtc_channel api (rtc c) i then c
         else c\<lparr>rtc := snd (rtc_channel_write api (rtc c) i payload)\<rparr>)"

section \<open>Typing of incoming events\<close>

definition event_ok :: "client_id \<Rightarrow> string \<Rightarrow> payload \<Rightarrow> propagated \<Rightarrow> bool" where
  "event_ok cid label data ev =
    (case ev of
       Noop \<Rightarrow> True
     | ChatData i d \<Rightarrow> i = cid \<and> label = ''chat-data'' \<and> d = data \<and> length d \<le> 262144
     | ChatCtrl i d \<Rightarrow> i = cid \<and> label = ''chat-ctrl'' \<and> d = data \<and> length d \<le> 262144
     | VoiceData i d \<Rightarrow> i = cid \<and> label = ''voice'' \<and> d = data \<and> length d \<le> 65536
     | KeysData i d \<Rightarrow> i = cid \<and> label = ''sframe-keys'' \<and> d = data \<and> length d \<le> 65536
     | ClientBudgetHint i bps \<Rightarrow> i = cid \<and> label = ''sfu-budget'' \<and> bps < 2 ^ 64
     | VfmLayerCap i n \<Rightarrow> i = cid \<and> label = ''sfu-budget'' \<and> n < 256
     | MarkRelaySource i url \<Rightarrow> i = cid
     | _ \<Rightarrow> False)"

lemma parse_unsigned_le: "parse_unsigned hi s = Some n \<Longrightarrow> n \<le> hi"
  by (auto simp: parse_unsigned_def split: if_splits list.splits option.splits)

lemma budget_typed: "event_ok cid ''sfu-budget'' data (budget_data cid data)"
proof -
  have n: "n < 2 ^ 64" if "extract_num_value s k = Some n" for s k n
    using that parse_unsigned_le [of "2 ^ 64 - 1" _ n]
    by (force simp: extract_num_value_def Let_def split: option.splits if_splits)
  have "bps < 2 ^ 64" if "parse_budget_bps s = Some bps" for s bps
    using that n [of s "''bps''" bps] by (simp add: parse_budget_bps_def split: if_splits)
  then show ?thesis unfolding budget_data_def event_ok_def
    by (auto split: option.splits)
qed

lemma labelled_typed: "event_ok cid label data (labelled_data cid label data)"
proof (cases "label = ''sfu-budget''")
  case True
  then show ?thesis using budget_typed [of cid data] by (simp add: labelled_data_def)
next
  case False
  then show ?thesis
    unfolding labelled_data_def capped_def CHAT_FRAME_MAX_BYTES_def VOICE_FRAME_MAX_BYTES_def SFRAME_KEYS_FRAME_MAX_BYTES_def
    by (simp add: event_ok_def)
qed

lemma relay_source_cases:
  "relay_source lib now p cid s secret pubkey fallback = Done Noop \<or>
    (\<exists>url. relay_source lib now p cid s secret pubkey fallback = Done (MarkRelaySource cid url))"
  by (auto simp: relay_source_def dc_verify_def Let_def split: option.splits sum.splits prod.splits)

lemma channel_event_ok:
  "\<exists>ev. handle_channel_data lib now p cid label data secret pubkey fallback = Done ev \<and> event_ok cid label data ev"
proof -
  have "\<exists>ev. relay_source lib now p cid s secret pubkey fallback = Done ev \<and> event_ok cid label data ev" for s
    using relay_source_cases [of lib now p cid s secret pubkey fallback] by (auto simp: event_ok_def)
  then show ?thesis by (auto simp: handle_channel_data_def labelled_typed split: option.splits)
qed


text \<open>C17: Whatever bytes arrive on whatever channel of a client, under every configuration, the handler does
  not panic and yields nothing or one event that is attributed to that client, fits the channel it
  came on, carries the bytes unchanged within the cap of that channel, and keeps every number inside
  the width of its field.\<close>

theorem channel_data_typed:
  "\<exists>ev. handle_channel_data lib now p cid label data secret pubkey fallback = Done ev \<and> event_ok cid label data ev"
  by (rule channel_event_ok)

section \<open>Promotion to a relay\<close>

definition dual_state :: "string \<Rightarrow> string option \<Rightarrow> bool \<Rightarrow> client_ws_state" where
  "dual_state secret pubkey fallback =
    \<lparr>cw_secret = secret, cw_signing_pubkey = pubkey, cw_hs256_fallback_enabled = fallback\<rparr>"

definition verdict :: "(room_auth_error + room_claims) out \<Rightarrow> room_auth_error + room_claims" where
  "verdict r = (case r of Done v \<Rightarrow> v | _ \<Rightarrow> Inl Malformed)"

text \<open>The verdict of the channel handler satisfies the contract of the browser endpoint and of the relay API.\<close>

interpretation chan: dual_credential
  "\<lambda>token. verify_room_token_ed25519 lib now p token room_id pubkey"
  "\<lambda>token. verify_room_token lib now p token room_id secret"
  "\<lambda>e. e = InvalidSignature" fallback
  "\<lambda>token. verdict (dc_verify lib now p token room_id (Some pubkey) (Some secret) fallback)"
  for lib now p room_id pubkey secret fallback
  by unfold_locales (auto simp: dc_verify_def verdict_def is_ok_def split: sum.splits room_auth_error.splits)

lemma dc_verify_agrees:
  "(\<exists>alg. verify_token lib now p token room_id (dual_state secret pubkey fallback) = Inr (claims, alg)) \<longleftrightarrow>
    dc_verify lib now p token room_id pubkey (Some secret) fallback = Done (Inr claims)"
proof (cases pubkey)
  case None
  then show ?thesis by (simp add: verify_token_def dual_state_def dc_verify_def split: sum.splits)
next
  case (Some pem)
  have d: "dc_verify lib now p token room_id (Some pem) (Some secret) fallback = Done (Inr claims) \<longleftrightarrow>
      verdict (dc_verify lib now p token room_id (Some pem) (Some secret) fallback) = Inr claims"
    by (simp add: dc_verify_def verdict_def)
  show ?thesis unfolding Some d dual_state_def chan.accepted_iff ws.accepted_iff
    by (auto simp: tag_alg_def split: sum.splits)
qed

text \<open>C19: A message on any data channel promotes its sender to a cascade relay exactly when it asks for it with
  an upstream URL and a room token that the browser endpoint, under the same keys and the same
  kill-switch, would accept for the room named by the last segment of that URL.\<close>

theorem promotion_iff_browser_accepts:
  assumes "from_utf8 data = Some s"
  shows "handle_channel_data lib now p cid label data (Some secret) pubkey fallback = Done (MarkRelaySource cid url) \<longleftrightarrow>
    extract_str_value s ''type'' = Some ''relay_source'' \<and> extract_str_value s ''upstreamUrl'' = Some url \<and>
    (\<exists>token claims alg. extract_str_value s ''roomToken'' = Some token \<and> last_segment url \<noteq> [] \<and>
      verify_token lib now p token (last_segment url) (dual_state secret pubkey fallback) = Inr (claims, alg))"
proof -
  have l: "labelled_data cid label data \<noteq> MarkRelaySource cid url"
    by (simp add: labelled_data_def capped_def budget_data_def split: option.splits)
  have r: "relay_source lib now p cid s (Some secret) pubkey fallback = Done (MarkRelaySource cid url) \<longleftrightarrow>
      extract_str_value s ''upstreamUrl'' = Some url \<and>
      (\<exists>token claims. extract_str_value s ''roomToken'' = Some token \<and> last_segment url \<noteq> [] \<and>
        dc_verify lib now p token (last_segment url) pubkey (Some secret) fallback = Done (Inr claims))"
    by (auto simp: relay_source_def Let_def split: option.splits out.splits sum.splits)
  show ?thesis unfolding handle_channel_data_def assms
    using l r dc_verify_agrees [of lib now p _ "last_segment url" secret pubkey fallback]
    by (auto split: if_splits)
qed

definition ask :: string where
  "ask = ''{'' @ quoted_key ''type'' @ '':'' @ quoted_key ''relay_source'' @ '','' @ quoted_key ''upstreamUrl'' @ '':'' @
    quoted_key ''wss://h/room'' @ '','' @ quoted_key ''roomToken'' @ '':'' @ quoted_key ''tok'' @ ''}''"

lemma trim_start_visible: "visible c \<Longrightarrow> trim_start (c # s) = c # s"
proof -
  assume v: "visible c"
  have "\<not> prefix w (c # s)" if "w \<in> set ws_seqs" for w
    using ws_seqs_invisible [OF that] v by (cases w) auto
  then show ?thesis unfolding trim_start_def by (intro strip_seqs_id) blast
qed

lemma visible_quote: "visible (CHR 0x22)" "visible (CHR ''2'')"
  by (simp_all add: visible_def)

lemmas extract_exec = extract_str_value_def extract_num_value_def after_colon_def quoted_key_def strip_prefix_def
  trim_start_visible visible_quote

lemma ask_fields:
  "extract_str_value ask ''type'' = Some ''relay_source''" "extract_str_value ask ''upstreamUrl'' = Some ''wss://h/room''"
  "extract_str_value ask ''roomToken'' = Some ''tok''"
  unfolding ask_def by (simp_all add: extract_exec)

lemma unat_byte: "unat (of_nat (of_char c) :: byte) = of_char c"
proof -
  have "of_char c = (of_char c :: nat) mod 256" using of_char_of [of "of_char c :: nat"] by simp
  then have "(of_char c :: nat) < 2 ^ 8" using mod_less_divisor [of 256 "of_char c :: nat"] by simp
  then show ?thesis unfolding unsigned_of_nat of_nat_id by (simp add: take_bit_nat_eq_self)
qed

lemma from_utf8_ascii: "list_all (\<lambda>c. of_char c < (128 :: nat)) s \<Longrightarrow> from_utf8 (to_bytes s) = Some s"
proof -
  assume a: "list_all (\<lambda>c. of_char c < (128 :: nat)) s"
  have "utf8_ok (map of_char s)" using a by (induction s) auto
  moreover have "map unat (to_bytes s) = map of_char s" "map (\<lambda>b. char_of (unat b)) (to_bytes s) = s"
    by (simp_all add: to_bytes_def unat_byte comp_def)
  ultimately show ?thesis by (simp add: from_utf8_def)
qed

lemma ask_utf8: "from_utf8 (to_bytes ask) = Some ask"
  by (rule from_utf8_ascii) (simp add: ask_def quoted_key_def)

theorem promotion_iff_browser_accepts_witness:
  "handle_channel_data demo_lib 60 transitional 5 ''chat-data'' (to_bytes ask) (Some ''secret'') (Some ''PEM'') True =
    Done (MarkRelaySource 5 ''wss://h/room'')"
proof -
  have "last_segment ''wss://h/room'' = ''room''" by (simp add: last_segment_def)
  moreover have "\<exists>claims alg. verify_token demo_lib 60 transitional ''tok'' ''room'' (dual_state ''secret'' (Some ''PEM'') True) = Inr (claims, alg)"
    by (simp add: verify_token_def dual_state_def verify_room_token_ed25519_def decode_and_match_def demo_lib_def)
  ultimately show ?thesis
    using promotion_iff_browser_accepts [OF ask_utf8, of demo_lib 60 transitional 5 "''chat-data''" "''secret''" "Some ''PEM''" True
        "''wss://h/room''"] ask_fields by auto
qed

text \<open>A layer cap of 256 arrives as a cap of 0.\<close>

lemma vfm_cap_truncated:
  "budget_data 7 (to_bytes (''{'' @ quoted_key ''type'' @ '':'' @ quoted_key ''max_temporal_layer'' @ '','' @ quoted_key ''vfm'' @ '':256}'')) =
    VfmLayerCap 7 0" (is "budget_data 7 (to_bytes ?s) = _")
proof -
  have "from_utf8 (to_bytes ?s) = Some ?s" by (rule from_utf8_ascii) (simp add: quoted_key_def)
  moreover have "extract_str_value ?s ''type'' = Some ''max_temporal_layer''" by (simp add: extract_exec)
  moreover have "extract_num_value ?s ''vfm'' = Some 256"
    by (simp add: extract_exec is_digit_def parse_unsigned_def parse_nat_def digits_val_def)
  ultimately show ?thesis unfolding budget_data_def by (simp only: option.case simp_thms if_True) simp
qed

section \<open>Frames to a peer\<close>

lemma length_show_nat_pow: "n < 10 ^ Suc k \<Longrightarrow> length (show_nat n) \<le> Suc k"
proof (induction k arbitrary: n)
  case (Suc k)
  show ?case
  proof (cases "n < 10")
    case False
    have "n div 10 < 10 ^ Suc k" using Suc.prems by (simp add: less_mult_imp_div_less mult.commute)
    then show ?thesis using Suc.IH [of "n div 10"] False by (simp add: show_nat_big)
  qed simp
qed simp

lemma peer_suspended_fits:
  assumes "pid < 2 ^ 64" and "ts < 2 ^ 64"
  shows "length (build_peer_suspended ts pid tier) < MAX_FRAME_SIZE"
proof -
  have "(2 :: nat) ^ 64 < 10 ^ Suc 19" by simp
  then have "length (show_nat pid) \<le> 20" "length (show_nat ts) \<le> 20"
    using length_show_nat_pow [of pid 19] length_show_nat_pow [of ts 19] assms by simp_all
  moreover have "length (as_wire_str tier) \<le> 12" by (cases tier) (simp_all add: as_wire_str_def)
  ultimately show ?thesis by (simp add: build_peer_suspended_def to_bytes_def MAX_FRAME_SIZE_def)
qed

end
