(* ===== verification/Sfu_Dispatch.thy ===== *)
theory Sfu_Dispatch
  imports Sfu_Dc
begin

text \<open>
  What a client does with each output of the WebRTC stack (\<open>client/dispatch.rs\<close>, \<open>handle_input\<close> and
  \<open>drain_pending_out\<close> of \<open>client/mod.rs\<close>) and how one event is delivered to the other clients of the
  room (\<open>fanout.rs\<close>).  The readings of the statistics events are opaque numbers.  The address a new
  incoming track gets in the store is an argument.
\<close>

section \<open>Outputs of the stack\<close>

datatype ice_state = New | Checking | Ice_Connected | Completed | Disconnected

datatype direction = SendOnly | RecvOnly | SendRecv | Inactive

datatype rtc_event =
    IceConnectionStateChange ice_state
  | ChannelOpen channel_id
  | Connected
  | MediaAdded mid media_kind direction
  | Media media_data
  | KeyframeReq keyframe_request
  | Twcc nat
  | Remb mid nat
  | ChannelData channel_id payload
  | PeerStats "nat option" "nat option" "nat option" "nat option"
  | MediaEgressStats mid "nat option" nat nat nat
  | MediaIngressStats mid
  | OtherEvent

datatype rtc_output = Transmit transmit | TimeoutAt instant | Event rtc_event

fun kind_of_output :: "rtc_output \<Rightarrow> string" where
  "kind_of_output (Transmit _) = ''transmit''"
| "kind_of_output (TimeoutAt _) = ''timeout''"
| "kind_of_output (Event (IceConnectionStateChange _)) = ''event_ice''"
| "kind_of_output (Event (MediaAdded _ _ _)) = ''event_media_added''"
| "kind_of_output (Event (Media _)) = ''event_media_data''"
| "kind_of_output (Event (KeyframeReq _)) = ''event_keyframe_req''"
| "kind_of_output (Event (Twcc _)) = ''event_bwe''"
| "kind_of_output (Event (Remb _ _)) = ''event_bwe''"
| "kind_of_output (Event (ChannelData _ _)) = ''event_channel''"
| "kind_of_output (Event (ChannelOpen _)) = ''event_channel_open''"
| "kind_of_output (Event Connected) = ''event_connected''"
| "kind_of_output (Event (PeerStats _ _ _ _)) = ''event_peer_stats''"
| "kind_of_output (Event (MediaEgressStats _ _ _ _ _)) = ''event_media_egress_stats''"
| "kind_of_output (Event (MediaIngressStats _)) = ''event_media_ingress_stats''"
| "kind_of_output (Event OtherEvent) = ''event_other''"

fun ice_label :: "ice_state \<Rightarrow> string" where
  "ice_label New = ''new''"
| "ice_label Checking = ''checking''"
| "ice_label Ice_Connected = ''connected''"
| "ice_label Completed = ''completed''"
| "ice_label Disconnected = ''disconnected''"

section \<open>Events\<close>

text \<open>The announcement as \<open>serde_json\<close> writes it: keys in alphabetical order.\<close>

definition relay_source_message :: "(string \<Rightarrow> string) \<Rightarrow> string \<Rightarrow> string \<Rightarrow> string" where
  "relay_source_message json_str upstream_url room_token =
    ''{'' @ quoted_key ''roomToken'' @ '':'' @ json_str room_token @ '','' @ quoted_key ''type'' @ '':'' @
      json_str ''relay_source'' @ '','' @ quoted_key ''upstreamUrl'' @ '':'' @ json_str upstream_url @ ''}''"

definition on_connected :: "('r, 'p) rtc_api \<Rightarrow> (string \<Rightarrow> string) \<Rightarrow> ('r, 'p) client \<Rightarrow> ('r, 'p) client" where
  "on_connected api json_str c =
    (case relay_source_pending c of
       None \<Rightarrow> c
     | Some (dc_id, upstream_url, room_token) \<Rightarrow>
         (let c1 = c\<lparr>relay_source_pending := None\<rparr> in
          if \<not> rtc_channel api (rtc c1) dc_id then c1
          else c1\<lparr>rtc := snd (rtc_channel_write api (rtc c1) dc_id
                 (to_bytes (relay_source_message json_str upstream_url room_token)))\<rparr>))"

definition track_in_added ::
  "track_ref \<Rightarrow> mid \<Rightarrow> media_kind \<Rightarrow> ('r, 'p) client \<Rightarrow> track_store \<Rightarrow> propagated \<times> ('r, 'p) client \<times> track_store" where
  "track_in_added ref m kind c st =
    (TrackOpen (cl_id c) ref,
     c\<lparr>tracks_in := tracks_in c @ [\<lparr>te_ref = ref, te_mid = m, last_keyframe_request = None\<rparr>]\<rparr>,
     st(ref \<mapsto> \<lparr>ti_origin = cl_id c, ti_mid = m, ti_kind = kind, ti_external_peer_id = external_peer_id c\<rparr>))"

definition track_in_media ::
  "('r, 'p) rtc_api \<Rightarrow> instant \<Rightarrow> media_data \<Rightarrow> ('r, 'p) client \<Rightarrow> propagated \<times> ('r, 'p) client" where
  "track_in_media api now d c =
    (let c1 = (if \<not> md_contiguous d then request_keyframe_throttled api now (md_mid d) (md_rid d) Fir c else c);
         c2 = (case md_rid d of
                 None \<Rightarrow> c1
               | Some r \<Rightarrow> if r \<in> set (active_rids c1) then c1 else c1\<lparr>active_rids := active_rids c1 @ [r]\<rparr>) in
     (MediaData (cl_id c2) d, c2))"

text \<open>A send-only line of ours completed: the first \<open>Negotiating\<close> track of that mid becomes \<open>Open\<close>.\<close>

definition open_negotiated :: "mid \<Rightarrow> ('r, 'p) client \<Rightarrow> ('r, 'p) client" where
  "open_negotiated m c =
    (if list_ex (\<lambda>o1. to_state o1 = Negotiating m) (tracks_out c)
     then bump (Inc ''sfu_track_out_state_transitions_total'' [''negotiating'', ''open''])
            (c\<lparr>tracks_out := update_first (\<lambda>o1. to_state o1 = Negotiating m) (\<lambda>o1. o1\<lparr>to_state := Open m\<rparr>) (tracks_out c)\<rparr>)
     else c)"

definition set_if :: "string \<Rightarrow> string list \<Rightarrow> nat option \<Rightarrow> ('r, 'p) client \<Rightarrow> ('r, 'p) client" where
  "set_if name labels v c = (case v of None \<Rightarrow> c | Some x \<Rightarrow> bump (SetGauge name labels x) c)"

definition inc_if :: "string \<Rightarrow> string list \<Rightarrow> nat \<Rightarrow> ('r, 'p) client \<Rightarrow> ('r, 'p) client" where
  "inc_if name labels n c = (if n > 0 then bump (IncBy name labels n) c else c)"

definition channel_label :: "('r, 'p) rtc_api \<Rightarrow> ('r, 'p) client \<Rightarrow> channel_id \<Rightarrow> string" where
  "channel_label api c i =
    (if rtc_channel api (rtc c) i then (case rtc_channel_label api (rtc c) i of Some l \<Rightarrow> l | None \<Rightarrow> []) else [])"

text \<open>The clocks an event may read: the monotonic one and the Unix time of token checks.\<close>

definition handle_event ::
  "('r, 'p) rtc_api \<Rightarrow> jwt_lib \<Rightarrow> (string \<Rightarrow> string) \<Rightarrow> room_token_policy \<Rightarrow> instant \<Rightarrow> nat \<Rightarrow> track_ref \<Rightarrow> track_store
    \<Rightarrow> rtc_event \<Rightarrow> ('r, 'p) client \<Rightarrow> (propagated \<times> ('r, 'p) client \<times> track_store) out" where
  "handle_event api lib json_str p now unix ref st e c =
    (case e of
       IceConnectionStateChange s \<Rightarrow>
         (let c1 = bump (Inc ''ice_state_total'' [ice_label s]) c in
          Done (Noop, (if s = Disconnected then c1\<lparr>rtc := rtc_disconnect api (rtc c1)\<rparr> else c1), st))
     | ChannelOpen i \<Rightarrow>
         Done (Noop, (if Some i = reactions_dc_cid c \<and> \<not> reactions_dc_opened c
                      then bump (Inc ''chat_relay_active_channels'' [''reactions'']) (c\<lparr>reactions_dc_opened := True\<rparr>)
                      else c), st)
     | Connected \<Rightarrow> Done (Noop, on_connected api json_str c, st)
     | MediaAdded m kind d \<Rightarrow>
         Done (if d = SendOnly then (Noop, open_negotiated m c, st) else track_in_added ref m kind c st)
     | Media d \<Rightarrow> (case track_in_media api now d c of (ev, c1) \<Rightarrow> Done (ev, c1, st))
     | KeyframeReq req \<Rightarrow> Done (incoming_keyframe_req st c req, c, st)
     | Twcc bps \<Rightarrow> Done (BandwidthEstimate (cl_id c) bps, c, st)
     | Remb m bps \<Rightarrow> Done (BandwidthEstimate (cl_id c) bps, c, st)
     | ChannelData i data \<Rightarrow>
         (let label = channel_label api c i in
          case handle_channel_data lib unix p (cl_id c) label data (relay_auth_secret c) (relay_signing_pubkey c)
                 (relay_hs256_fallback_enabled c) of
            Done ev \<Rightarrow>
              Done (ev, (if label = ''voice'' \<and> ev = Noop \<and> length data > VOICE_FRAME_MAX_BYTES
                         then bump (voice_dropped ''frame_malformed'') c else c), st)
          | _ \<Rightarrow> Panic)
     | PeerStats rtt eloss iloss bwe \<Rightarrow>
         Done (Noop, set_if ''peer_bandwidth_estimate_bps'' [client_label c] bwe
                       (set_if ''peer_loss_fraction'' [client_label c, ''ingress''] iloss
                         (set_if ''peer_loss_fraction'' [client_label c, ''egress''] eloss
                           (set_if ''peer_rtt_seconds'' [client_label c] rtt c))), st)
     | MediaEgressStats m jitter nacks firs plis \<Rightarrow>
         Done (Noop, inc_if ''media_egress_plis_received_total'' [client_label c, m] plis
                       (inc_if ''media_egress_firs_received_total'' [client_label c, m] firs
                         (inc_if ''media_egress_nacks_received_total'' [client_label c, m] nacks
                           (set_if ''media_egress_jitter_ticks'' [client_label c, m] jitter c))), st)
     | MediaIngressStats m \<Rightarrow> Done (Noop, bump (SetGauge ''media_ingress_jitter_ticks'' [client_label c, m] 0) c, st)
     | OtherEvent \<Rightarrow> Done (Noop, c, st))"

definition handle_output ::
  "('r, 'p) rtc_api \<Rightarrow> jwt_lib \<Rightarrow> (string \<Rightarrow> string) \<Rightarrow> room_token_policy \<Rightarrow> instant \<Rightarrow> nat \<Rightarrow> track_ref \<Rightarrow> track_store
    \<Rightarrow> rtc_output \<Rightarrow> ('r, 'p) client \<Rightarrow> (propagated \<times> ('r, 'p) client \<times> track_store) out" where
  "handle_output api lib json_str p now unix ref st out1 c =
    (let c1 = bump (Inc ''sfu_str0m_output_total'' [client_label c, kind_of_output out1]) c in
     case out1 of
       Transmit t \<Rightarrow> Done (Noop, c1\<lparr>pending_out := pending_out c1 @ [t]\<rparr>, st)
     | TimeoutAt t \<Rightarrow> Done (Timeout t, c1, st)
     | Event e \<Rightarrow> handle_event api lib json_str p now unix ref st e c1)"

text \<open>\<open>poll_output\<close> of the stack is the argument \<open>poll\<close>: an output or an error, and the new state.\<close>

definition poll_output ::
  "('r, 'p) rtc_api \<Rightarrow> ('r \<Rightarrow> rtc_output option \<times> 'r) \<Rightarrow> jwt_lib \<Rightarrow> (string \<Rightarrow> string) \<Rightarrow> room_token_policy \<Rightarrow> instant
    \<Rightarrow> nat \<Rightarrow> track_ref \<Rightarrow> track_store \<Rightarrow> ('r, 'p) client \<Rightarrow> (propagated \<times> ('r, 'p) client \<times> track_store) out" where
  "poll_output api poll lib json_str p now unix ref st c =
    (if \<not> rtc_is_alive api (rtc c) then Done (Noop, c, st)
     else
       (case poll (rtc c) of
          (Some out1, r) \<Rightarrow> handle_output api lib json_str p now unix ref st out1 (c\<lparr>rtc := r\<rparr>)
        | (None, r) \<Rightarrow>
            (let c1 = bump (Inc ''sfu_str0m_output_total'' [client_label c, ''error'']) (c\<lparr>rtc := r\<rparr>) in
             Done (Noop, c1\<lparr>rtc := rtc_disconnect api (rtc c1)\<rparr>, st))))"

definition handle_input ::
  "('r, 'p) rtc_api \<Rightarrow> ('i \<Rightarrow> 'r \<Rightarrow> bool \<times> 'r) \<Rightarrow> 'i \<Rightarrow> ('r, 'p) client \<Rightarrow> ('r, 'p) client" where
  "handle_input api feed input c =
    (if \<not> rtc_is_alive api (rtc c) then c
     else (case feed input (rtc c) of
             (True, r) \<Rightarrow> c\<lparr>rtc := r\<rparr>
           | (False, r) \<Rightarrow> c\<lparr>rtc := rtc_disconnect api r\<rparr>))"

definition drain_pending_out :: "('r, 'p) client \<Rightarrow> transmit list \<times> ('r, 'p) client" where
  "drain_pending_out c = (pending_out c, c\<lparr>pending_out := []\<rparr>)"

section \<open>Delivery to the other clients\<close>

fun each_out :: "('a \<Rightarrow> 'b out) \<Rightarrow> 'a list \<Rightarrow> 'b list out" where
  "each_out f [] = Done []"
| "each_out f (x # xs) =
    (case f x of
       Done y \<Rightarrow> (case each_out f xs of Done ys \<Rightarrow> Done (y # ys) | Panic \<Rightarrow> Panic | Fail \<Rightarrow> Fail)
     | Panic \<Rightarrow> Panic
     | Fail \<Rightarrow> Fail)"

definition top_speakers_payload :: "nat list \<Rightarrow> string" where
  "top_speakers_payload speakers =
    ''{\"type\":\"top_speakers\",\"peerIds\":['' @ join_on CHR '','' (map show_nat speakers) @ '']}''"

definition top_speakers_out :: "('r, 'p) rtc_api \<Rightarrow> nat list \<Rightarrow> ('r, 'p) client \<Rightarrow> ('r, 'p) client" where
  "top_speakers_out api speakers c =
    (if \<not> rtc_channel api (rtc c) (active_speaker_cid c) then c
     else c\<lparr>rtc := snd (rtc_channel_write api (rtc c) (active_speaker_cid c) (to_bytes (top_speakers_payload speakers)))\<rparr>)"

definition deliver ::
  "('r, 'p) rtc_api \<Rightarrow> instant \<Rightarrow> nat \<Rightarrow> track_store \<Rightarrow> propagated \<Rightarrow> client_id \<Rightarrow> ('r, 'p) client \<Rightarrow> ('r, 'p) client out" where
  "deliver api now wall st p og c =
    (case p of
       TrackOpen _ ref \<Rightarrow> Done (handle_track_open api now st ref c)
     | MediaData _ d \<Rightarrow> handle_media_data_out api now st og d c
     | KeyframeRequest _ req source mid_in \<Rightarrow>
         Done (if source = cl_id c then handle_keyframe_request api now req mid_in c else c)
     | ChatData _ d \<Rightarrow> Done (handle_chat_data_out api og d c)
     | ChatCtrl _ d \<Rightarrow> Done (handle_chat_ctrl_out api og d c)
     | VoiceData _ d \<Rightarrow> Done (handle_voice_data_out api og d c)
     | KeysData _ d \<Rightarrow> Done (handle_keys_data_out api og d c)
     | PeerSuspended pid tier \<Rightarrow> Done (handle_sfu_event_out api (build_peer_suspended wall pid tier) c)
     | _ \<Rightarrow> Done c)"

definition fanout ::
  "('r, 'p) rtc_api \<Rightarrow> instant \<Rightarrow> nat \<Rightarrow> track_store \<Rightarrow> propagated \<Rightarrow> ('r, 'p) client list \<Rightarrow> ('r, 'p) client list out" where
  "fanout api now wall st p cs =
    (case p of
       ActiveSpeakerChanged pid confidence \<Rightarrow>
         Done (map (\<lambda>c. if cl_id c = pid then c else handle_active_speaker_changed api pid confidence c) cs)
     | TopSpeakers speakers \<Rightarrow> Done (map (top_speakers_out api speakers) cs)
     | AudioCodecHint _ _ _ \<Rightarrow> Done cs
     | _ \<Rightarrow>
         (case prop_client_id p of
            None \<Rightarrow> Done cs
          | Some og \<Rightarrow> each_out (\<lambda>c. if cl_id c = og then Done c else deliver api now wall st p og c) cs))"


section \<open>What delivery leaves alone\<close>

text \<open>The identity of a client and what the registry derives from it.\<close>

definition ident :: "('r, 'p) client \<Rightarrow> client_id \<times> nat option" where
  "ident c = (cl_id c, external_peer_id c)"

named_theorems ident_simps

lemma ident_updates [simp]:
  "ident (c\<lparr>rtc := r\<rparr>) = ident c" "ident (c\<lparr>metrics := ms\<rparr>) = ident c" "ident (c\<lparr>tracks_out := os\<rparr>) = ident c"
  "ident (c\<lparr>tracks_in := ti\<rparr>) = ident c" "ident (c\<lparr>pending_offer := po\<rparr>) = ident c"
  "ident (c\<lparr>pending_offer_at := pa\<rparr>) = ident c" "ident (c\<lparr>renegotiation_queue := q\<rparr>) = ident c"
  "ident (c\<lparr>ws_msg_tx := tx\<rparr>) = ident c" "ident (c\<lparr>ws_ctrl_rx := rx\<rparr>) = ident c"
  "ident (c\<lparr>keyframe_waits := kw\<rparr>) = ident c" "ident (c\<lparr>delivered_media := n\<rparr>) = ident c"
  "ident (c\<lparr>chosen_rid := ch\<rparr>) = ident c" "ident (c\<lparr>dd_cache := dc\<rparr>) = ident c"
  "ident (c\<lparr>pending_propagated := pp\<rparr>) = ident c" "ident (c\<lparr>pending_tier_emit := te\<rparr>) = ident c"
  "ident (c\<lparr>pacer := pc\<rparr>) = ident c" "ident (c\<lparr>desired_layer := dl\<rparr>) = ident c"
  "ident (c\<lparr>max_vfm_temporal_layer := mx\<rparr>) = ident c" "ident (c\<lparr>bwe_vfm_temporal_cap := mx\<rparr>) = ident c"
  "ident (c\<lparr>last_pacer_tick := lt\<rparr>) = ident c" "ident (c\<lparr>last_emitted_tier := le\<rparr>) = ident c"
  "ident (c\<lparr>last_switch_keyframe_request := ls\<rparr>) = ident c" "ident (c\<lparr>cl_origin := og\<rparr>) = ident c"
  "ident (c\<lparr>pending_out := out1\<rparr>) = ident c" "ident (c\<lparr>relay_source_pending := rp\<rparr>) = ident c"
  "ident (c\<lparr>reactions_dc_opened := b\<rparr>) = ident c" "ident (c\<lparr>active_rids := ar\<rparr>) = ident c"
  "ident (bump m c) = ident c"
  by (simp_all add: ident_def bump_def)

lemma ident_send_offer [ident_simps]: "ident (send_offer ref t m sdp c) = ident c"
  by (simp add: send_offer_def Let_def split: option.splits prod.splits send_error.splits)

lemma ident_start [ident_simps]: "ident (start_renegotiation api now st ref c) = ident c"
  by (simp add: start_renegotiation_def offer_made_def ident_send_offer split: option.splits prod.splits)

lemma ident_track_open [ident_simps]: "ident (handle_track_open api now st ref c) = ident c"
  by (simp add: handle_track_open_def ident_start)

lemma ident_terminate [ident_simps]: "ident (terminate_waits now og m out1 b c) = ident c"
  by (simp add: terminate_waits_def Let_def ident_def)

lemma ident_observe [ident_simps]: "ident (observe_keyframe now og d c) = ident c"
  by (simp add: observe_keyframe_def ident_terminate)

lemma ident_write_media [ident_simps]: "ident (write_media api now og d kind m c) = ident c"
  by (simp add: write_media_def Let_def ident_observe split: option.splits prod.splits)

lemma ident_forward [ident_simps]: "ident (forward_media api now st og d c) = ident c"
  by (simp add: forward_media_def Let_def ident_write_media split: option.splits)

lemma ident_dd_filter: "dd_filter og d c = Done (b, c') \<Longrightarrow> ident c' = ident c"
  by (auto simp: dd_filter_def Let_def split: option.splits if_splits out.splits)

lemma ident_media_out: "handle_media_data_out api now st og d c = Done c' \<Longrightarrow> ident c' = ident c"
  by (auto simp: handle_media_data_out_def Let_def ident_forward dest!: ident_dd_filter split: out.splits bool.splits)

lemma ident_keyframe_request [ident_simps]: "ident (handle_keyframe_request api now req m c) = ident c"
  by (simp add: handle_keyframe_request_def mark_requested_def Let_def split: option.splits)

lemma ident_writers [ident_simps]:
  "ident (write_chat_frame api dc i d c) = ident c" "ident (handle_chat_data_out api og d c) = ident c"
  "ident (handle_chat_ctrl_out api og d c) = ident c" "ident (handle_voice_data_out api og d c) = ident c"
  "ident (handle_keys_data_out api og d c) = ident c" "ident (handle_sfu_event_out api d c) = ident c"
  "ident (handle_active_speaker_changed api pid cf c) = ident c" "ident (top_speakers_out api sp c) = ident c"
  by (simp_all add: write_chat_frame_def handle_chat_data_out_def handle_chat_ctrl_out_def handle_voice_data_out_def
      handle_keys_data_out_def handle_sfu_event_out_def handle_active_speaker_changed_def top_speakers_out_def
      split: option.splits prod.splits bool.splits)

lemma ident_deliver: "deliver api now wall st p og c = Done c' \<Longrightarrow> ident c' = ident c"
  by (cases p) (auto simp: deliver_def ident_simps dest: ident_media_out)

lemma each_out_Cons:
  "each_out f (x # xs) = Done ys \<longleftrightarrow> (\<exists>y zs. ys = y # zs \<and> f x = Done y \<and> each_out f xs = Done zs)"
  by (auto split: out.splits)

lemma each_out_Done:
  "each_out f xs = Done ys \<longleftrightarrow> length ys = length xs \<and> (\<forall>i < length xs. f (xs ! i) = Done (ys ! i))"
proof (induction xs arbitrary: ys)
  case (Cons x xs)
  show ?case
    by (cases ys) (auto simp: each_out_Cons Cons.IH All_less_Suc2 simp del: each_out.simps)
qed auto

lemma fanout_ident:
  assumes "fanout api now wall st p cs = Done cs'"
  shows "map ident cs' = map ident cs"
proof -
  have e: "map ident ys = map ident xs"
    if "each_out (\<lambda>c. if cl_id c = og then Done c else deliver api now wall st q og c) xs = Done ys" for q og xs ys
    using that by (intro nth_equalityI) (auto simp: each_out_Done dest: ident_deliver split: if_splits)
  show ?thesis using assms
    by (cases p) (auto simp: fanout_def ident_simps comp_def split: if_splits option.splits dest!: e)
qed

text \<open>The client an event concerns as its sender.\<close>

fun sender :: "propagated \<Rightarrow> client_id option" where
  "sender (ActiveSpeakerChanged pid _) = Some pid"
| "sender p = prop_client_id p"

lemma fanout_skips_sender:
  assumes "fanout api now wall st p cs = Done cs'" and "i < length cs" and "sender p = Some (cl_id (cs ! i))"
  shows "cs' ! i = cs ! i"
  using assms by (cases p) (auto simp: fanout_def each_out_Done split: option.splits)

text \<open>Relayed frames: what each peer gets.\<close>

lemma fanout_chat:
  "fanout api now wall st (ChatData og d) cs =
    Done (map (\<lambda>c. if cl_id c = og then c else write_chat_frame api ''data'' (chat_data_cid c) d c) cs)"
proof -
  have "each_out (\<lambda>c. if cl_id c = og then Done c else deliver api now wall st (ChatData og d) og c) xs =
      Done (map (\<lambda>c. if cl_id c = og then c else write_chat_frame api ''data'' (chat_data_cid c) d c) xs)" for xs
    by (induction xs) (simp_all add: deliver_def handle_chat_data_out_def)
  then show ?thesis by (simp add: fanout_def)
qed


section \<open>The announcement of a relay\<close>

lemma after_first_skip: "Q \<notin> set s \<Longrightarrow> after_first (Q # k) (s @ r) = after_first (Q # k) r"
  by (induction s) (auto simp: strip_prefix_def split: option.splits)

lemma after_first_string:
  assumes "CHR 0x22 \<notin> set s" and "CHR 0x22 \<notin> set (x # k)" and "x \<noteq> c"
  shows "after_first (quoted_key (x # k)) (quoted_key s @ c # r) =
    (if s = x # k then Some (c # r) else after_first (quoted_key (x # k)) (c # r))"
proof (cases "s = x # k")
  case True
  then show ?thesis by (simp add: quoted_key_def strip_prefix_def)
next
  case False
  have "strip_prefix (x # k @ [CHR 0x22]) (s @ CHR 0x22 # c # r) = None"
  proof (rule ccontr)
    assume "strip_prefix (x # k @ [CHR 0x22]) (s @ CHR 0x22 # c # r) \<noteq> None"
    then obtain q where "s @ CHR 0x22 # c # r = (x # k) @ CHR 0x22 # q" by (auto simp: strip_prefix_Some)
    then show False using append_sep_inj [of "CHR 0x22" s "x # k" "c # r" q] assms(1,2) False by auto
  qed
  then have "after_first (quoted_key (x # k)) (quoted_key s @ c # r) = after_first (quoted_key (x # k)) (s @ CHR 0x22 # c # r)"
    by (simp add: quoted_key_def strip_prefix_def split: if_splits option.splits)
  also have "\<dots> = after_first (quoted_key (x # k)) (CHR 0x22 # c # r)"
    using after_first_skip [OF assms(1)] by (simp add: quoted_key_def)
  also have "\<dots> = after_first (quoted_key (x # k)) (c # r)"
    using assms(3) by (simp add: quoted_key_def strip_prefix_def)
  finally show ?thesis using False by simp
qed

lemma extract_after:
  assumes "after_first (quoted_key k) json = Some (CHR '':'' # quoted_key v @ r)" and "CHR 0x22 \<notin> set v"
  shows "extract_str_value json k = Some v"
proof -
  have "split_once (CHR 0x22) (v @ CHR 0x22 # r) = Some (v, r)" using assms(2) by (simp add: split_once_Some)
  then show ?thesis using assms(1)
    by (simp add: extract_str_value_def after_colon_def quoted_key_def strip_prefix_def trim_start_visible visible_quote)
qed

text \<open>Text that JSON writes as it stands.\<close>

definition plain_text :: "string \<Rightarrow> bool" where
  "plain_text s \<longleftrightarrow> list_all (\<lambda>c. 32 \<le> (of_char c :: nat) \<and> of_char c < (127 :: nat) \<and> c \<noteq> CHR 0x22 \<and> c \<noteq> CHR 0x5C) s"

definition writes_plain :: "(string \<Rightarrow> string) \<Rightarrow> bool" where
  "writes_plain json_str \<longleftrightarrow> (\<forall>s. plain_text s \<longrightarrow> json_str s = quoted_key s)"

lemma plain_no_quote: "plain_text s \<Longrightarrow> CHR 0x22 \<notin> set s"
  by (auto simp: plain_text_def list_all_iff)

lemma plain_ascii: "plain_text s \<Longrightarrow> list_all (\<lambda>c. of_char c < (128 :: nat)) s"
  unfolding plain_text_def by (erule list.pred_mono_strong) simp

lemma relay_source_fields:
  assumes "writes_plain json_str" and "plain_text url" and "plain_text token"
    and "token \<noteq> ''type''" and "token \<noteq> ''upstreamUrl''"
  shows "extract_str_value (relay_source_message json_str url token) ''type'' = Some ''relay_source''"
    and "extract_str_value (relay_source_message json_str url token) ''upstreamUrl'' = Some url"
    and "extract_str_value (relay_source_message json_str url token) ''roomToken'' = Some token"
    and "from_utf8 (to_bytes (relay_source_message json_str url token)) = Some (relay_source_message json_str url token)"
proof -
  have p: "plain_text ''relay_source''" by (simp add: plain_text_def)
  have m: "relay_source_message json_str url token =
      CHR ''{'' # quoted_key ''roomToken'' @ CHR '':'' # quoted_key token @ CHR '','' # quoted_key ''type'' @ CHR '':'' #
      quoted_key ''relay_source'' @ CHR '','' # quoted_key ''upstreamUrl'' @ CHR '':'' # quoted_key url @ ''}''"
    using assms(1-3) p by (simp add: relay_source_message_def writes_plain_def)
  have skip: "c \<noteq> CHR 0x22 \<Longrightarrow> after_first (quoted_key k) (c # r) = after_first (quoted_key k) r" for c k r
    using after_first_skip [of "CHR 0x22" "[c]"] by (simp add: quoted_key_def)
  have q: "CHR 0x22 \<notin> set token" "CHR 0x22 \<notin> set url" "CHR 0x22 \<notin> set ''relay_source''"
    by (rule plain_no_quote, fact)+
  have k: "CHR 0x22 \<notin> set ''type''" "CHR 0x22 \<notin> set ''upstreamUrl''" "CHR 0x22 \<notin> set ''roomToken''" by simp_all
  note step = skip after_first_string [OF k(3)] after_first_string [OF q(1)] after_first_string [OF q(3)]
    after_first_string [OF k(1)] after_first_string [OF k(2)]
  have "after_first (quoted_key ''roomToken'') (relay_source_message json_str url token) =
      Some (CHR '':'' # quoted_key token @ CHR '','' # quoted_key ''type'' @ CHR '':'' #
      quoted_key ''relay_source'' @ CHR '','' # quoted_key ''upstreamUrl'' @ CHR '':'' # quoted_key url @ ''}'')"
    by (simp add: m step del: after_first.simps)
  then show "extract_str_value (relay_source_message json_str url token) ''roomToken'' = Some token"
    by (rule extract_after [OF _ q(1)])
  have "after_first (quoted_key ''type'') (relay_source_message json_str url token) =
      Some (CHR '':'' # quoted_key ''relay_source'' @ CHR '','' # quoted_key ''upstreamUrl'' @ CHR '':'' # quoted_key url @ ''}'')"
    by (simp add: m step assms(4) del: after_first.simps)
  then show "extract_str_value (relay_source_message json_str url token) ''type'' = Some ''relay_source''"
    by (rule extract_after [OF _ q(3)])
  have "after_first (quoted_key ''upstreamUrl'') (relay_source_message json_str url token) =
      Some (CHR '':'' # quoted_key url @ ''}'')"
    by (simp add: m step assms(5) del: after_first.simps)
  then show "extract_str_value (relay_source_message json_str url token) ''upstreamUrl'' = Some url"
    by (rule extract_after [OF _ q(2)])
  show "from_utf8 (to_bytes (relay_source_message json_str url token)) = Some (relay_source_message json_str url token)"
  proof (rule from_utf8_ascii)
    have "list_all (\<lambda>c. of_char c < (128 :: nat)) token" "list_all (\<lambda>c. of_char c < (128 :: nat)) url"
      using plain_ascii assms(2,3) by blast+
    then show "list_all (\<lambda>c. of_char c < (128 :: nat)) (relay_source_message json_str url token)"
      unfolding m by (simp add: quoted_key_def)
  qed
qed


text \<open>C24: A relay that comes up with its channel open writes one announcement, and the upstream that reads
  those bytes, on whatever channel, promotes the relay to the announced URL exactly when it accepts
  the relay's room token for the room in that URL (URL and token being text that JSON writes as it
  stands).\<close>

theorem relay_announcement_understood:
  assumes "writes_plain json_str" and "plain_text url" and "plain_text token"
    and "token \<noteq> ''type''" and "token \<noteq> ''upstreamUrl''" and "last_segment url \<noteq> []"
    and "relay_source_pending c = Some (dc, url, token)" and "rtc_channel api (rtc c) dc"
  shows "\<exists>bytes. rtc (on_connected api json_str c) = snd (rtc_channel_write api (rtc c) dc bytes) \<and>
    handle_channel_data lib now p cid label bytes (Some secret) pubkey fallback =
      Done (if is_ok (verify_token lib now p token (last_segment url) (dual_state secret pubkey fallback))
            then MarkRelaySource cid url else Noop)"
proof (intro exI conjI)
  let ?msg = "relay_source_message json_str url token"
  show "rtc (on_connected api json_str c) = snd (rtc_channel_write api (rtc c) dc (to_bytes ?msg))"
    using assms(7,8) by (simp add: on_connected_def)
  note f = relay_source_fields [OF assms(1-5)]
  have "dc_verify lib now p token (last_segment url) pubkey (Some secret) fallback \<noteq> Panic"
    "dc_verify lib now p token (last_segment url) pubkey (Some secret) fallback \<noteq> Fail"
    by (simp_all add: dc_verify_def split: option.splits)
  then obtain v where v: "dc_verify lib now p token (last_segment url) pubkey (Some secret) fallback = Done v"
    by (cases "dc_verify lib now p token (last_segment url) pubkey (Some secret) fallback") auto
  have ok: "is_ok (verify_token lib now p token (last_segment url) (dual_state secret pubkey fallback)) \<longleftrightarrow> is_ok v"
    using dc_verify_agrees [of lib now p token "last_segment url" secret pubkey fallback] v by (auto simp: is_ok_iff)
  have "handle_channel_data lib now p cid label (to_bytes ?msg) (Some secret) pubkey fallback =
      relay_source lib now p cid ?msg (Some secret) pubkey fallback"
    unfolding handle_channel_data_def f(4) by (simp only: option.case f(1) if_True simp_thms)
  also have "\<dots> = Done (if is_ok v then MarkRelaySource cid url else Noop)"
    unfolding relay_source_def f(2) f(3) using assms(6) v by (cases v) simp_all
  finally show "handle_channel_data lib now p cid label (to_bytes ?msg) (Some secret) pubkey fallback =
      Done (if is_ok (verify_token lib now p token (last_segment url) (dual_state secret pubkey fallback))
            then MarkRelaySource cid url else Noop)" unfolding ok .
qed

definition demo_relay_client :: "(nat, nat) client" where
  "demo_relay_client = demo_client\<lparr>relay_source_pending := Some (2, ''wss://h/room'', ''tok'')\<rparr>"

theorem relay_announcement_understood_witness:
  "\<exists>bytes. rtc (on_connected demo_api quoted_key demo_relay_client) = snd (rtc_channel_write demo_api (rtc demo_relay_client) 2 bytes) \<and>
    handle_channel_data demo_lib 60 transitional 5 ''sfu-budget'' bytes (Some ''secret'') None True = Done (MarkRelaySource 5 ''wss://h/room'')"
proof -
  have w: "writes_plain quoted_key" by (simp add: writes_plain_def)
  have u: "plain_text ''wss://h/room''" "plain_text ''tok''" by (simp_all add: plain_text_def)
  have n: "''tok'' \<noteq> ''type''" "''tok'' \<noteq> ''upstreamUrl''" by simp_all
  have l: "last_segment ''wss://h/room'' = ''room''" by (simp add: last_segment_def)
  then have l2: "last_segment ''wss://h/room'' \<noteq> []" by simp
  have c: "relay_source_pending demo_relay_client = Some (2, ''wss://h/room'', ''tok'')"
    "rtc_channel demo_api (rtc demo_relay_client) 2"
    by (simp_all add: demo_relay_client_def demo_api_def)
  have v: "is_ok (verify_token demo_lib 60 transitional ''tok'' ''room'' (dual_state ''secret'' None True))"
    by (simp add: verify_token_def dual_state_def verify_room_token_def decode_and_match_def demo_lib_def)
  from relay_announcement_understood [OF w u n l2 c, of demo_lib 60 transitional 5 "''sfu-budget''" "''secret''" None True]
  show ?thesis unfolding l using v by (simp only: if_True)
qed

section \<open>The announcement that is lost\<close>

text \<open>A transport that also records every message written to a data channel.\<close>

type_synonym 'r recorded = "'r \<times> (channel_id \<times> payload) list"

definition recording :: "('r, 'p) rtc_api \<Rightarrow> ('r recorded, 'p) rtc_api" where
  "recording api = \<lparr>
    rtc_is_alive = (\<lambda>(r, ws). rtc_is_alive api r),
    rtc_disconnect = (\<lambda>(r, ws). (rtc_disconnect api r, ws)),
    rtc_writer = (\<lambda>(r, ws). rtc_writer api r),
    rtc_match_params = (\<lambda>(r, ws). rtc_match_params api r),
    rtc_write = (\<lambda>(r, ws) m pt d. case rtc_write api r m pt d of (e, r') \<Rightarrow> (e, r', ws)),
    rtc_request_keyframe = (\<lambda>(r, ws) m rid k. (rtc_request_keyframe api r m rid k, ws)),
    rtc_add_media = (\<lambda>(r, ws) k s. case rtc_add_media api r k s of (m, offer, r') \<Rightarrow> (m, offer, r', ws)),
    rtc_answer_parses = rtc_answer_parses api,
    rtc_accept_answer = (\<lambda>(r, ws) p s. case rtc_accept_answer api r p s of (ok, r') \<Rightarrow> (ok, r', ws)),
    rtc_create_channel = (\<lambda>(r, ws) cfg. case rtc_create_channel api r cfg of (i, r') \<Rightarrow> (i, r', ws)),
    rtc_channel = (\<lambda>(r, ws). rtc_channel api r),
    rtc_channel_label = (\<lambda>(r, ws). rtc_channel_label api r),
    rtc_buffered_amount = (\<lambda>(r, ws). rtc_buffered_amount api r),
    rtc_channel_write = (\<lambda>(r, ws) i d. case rtc_channel_write api r i d of (ok, r') \<Rightarrow> (ok, r', ws @ [(i, d)])),
    kit_pacer_update = kit_pacer_update api\<rparr>"

definition written_to :: "('r recorded, 'p) client \<Rightarrow> (channel_id \<times> payload) list" where
  "written_to c = snd (rtc c)"

text \<open>The stack answers a poll with some output, or an error, and is in some state then; it writes to a
  channel only when it is asked to.\<close>

definition stack_says :: "rtc_output option \<Rightarrow> 'r \<Rightarrow> 'r recorded \<Rightarrow> rtc_output option \<times> 'r recorded" where
  "stack_says out1 r' rw = (out1, (r', snd rw))"

text \<open>What may happen to a client: any output of its stack, any datagram or timer, any event of another
  client, any draining of its control channel.\<close>

inductive client_later ::
  "('r, 'p) rtc_api \<Rightarrow> jwt_lib \<Rightarrow> (string \<Rightarrow> string) \<Rightarrow> room_token_policy
    \<Rightarrow> ('r recorded, 'p) client \<Rightarrow> ('r recorded, 'p) client \<Rightarrow> bool"
  for api lib json_str p c where
  now: "client_later api lib json_str p c c"
| polled: "client_later api lib json_str p c c' \<Longrightarrow>
    poll_output (recording api) (stack_says out1 r') lib json_str p now unix ref st c' = Done (ev, c'', st') \<Longrightarrow>
    client_later api lib json_str p c c''"
| fed: "client_later api lib json_str p c c' \<Longrightarrow>
    client_later api lib json_str p c (handle_input (recording api) (\<lambda>ok rw. (ok, (r', snd rw))) ok c')"
| delivered: "client_later api lib json_str p c c' \<Longrightarrow> deliver (recording api) now wall st ev og c' = Done c'' \<Longrightarrow>
    client_later api lib json_str p c c''"
| drained: "client_later api lib json_str p c c' \<Longrightarrow>
    client_later api lib json_str p c (drain_ws_ctrl (recording api) now st c')"

named_theorems announce_simps

lemma announce_bump [announce_simps]: "relay_source_pending (bump m c) = relay_source_pending c"
  by (simp add: bump_def)

lemma announce_start [announce_simps]:
  "relay_source_pending (send_offer ref t m sdp c) = relay_source_pending c"
  "relay_source_pending (start_renegotiation api now st ref c) = relay_source_pending c"
  "relay_source_pending (offer_next api now st c) = relay_source_pending c"
  "relay_source_pending (handle_track_open api now st ref c) = relay_source_pending c"
proof -
  show s: "relay_source_pending (send_offer ref t m sdp c) = relay_source_pending c" for ref t m sdp and c :: "('a, 'b) client"
    by (simp add: send_offer_def Let_def announce_simps split: option.split prod.split send_error.split)
  show r: "relay_source_pending (start_renegotiation api now st ref c) = relay_source_pending c" for ref and c :: "('a, 'b) client"
    by (simp add: start_renegotiation_def offer_made_def s announce_simps split: option.split prod.split)
  show "relay_source_pending (offer_next api now st c) = relay_source_pending c"
    by (simp add: offer_next_def r split: list.split)
  show "relay_source_pending (handle_track_open api now st ref c) = relay_source_pending c"
    by (simp add: handle_track_open_def r)
qed

lemma announce_keyframe [announce_simps]:
  "relay_source_pending (terminate_waits now og m out1 b c) = relay_source_pending c"
  "relay_source_pending (observe_keyframe now og d c) = relay_source_pending c"
  "relay_source_pending (handle_keyframe_request api now req m c) = relay_source_pending c"
  "relay_source_pending (request_keyframe_throttled api now m rid k c) = relay_source_pending c"
  by (simp_all add: observe_keyframe_def terminate_waits_def handle_keyframe_request_def request_keyframe_throttled_def
      mark_requested_def Let_def split: option.split prod.split)

lemma announce_waits [announce_simps]:
  "relay_source_pending (start_keyframe_waits_for_open_video_tracks now st c) = relay_source_pending c"
proof -
  have "relay_source_pending (fold (\<lambda>(og, m). start_keyframe_wait now og m) ks c) = relay_source_pending c" for ks
    by (induction ks arbitrary: c) (auto simp: start_keyframe_wait_def bump_def Let_def)
  then show ?thesis by (simp add: start_keyframe_waits_for_open_video_tracks_def)
qed

lemma announce_forward [announce_simps]: "relay_source_pending (forward_media api now st og d c) = relay_source_pending c"
  by (simp add: forward_media_def write_media_def Let_def announce_simps split: option.split prod.split)

lemma announce_media_out:
  "handle_media_data_out api now st og d c = Done c' \<Longrightarrow> relay_source_pending c' = relay_source_pending c"
  by (auto simp: handle_media_data_out_def dd_filter_def Let_def announce_simps split: out.splits bool.splits option.splits if_splits)

lemma announce_writers [announce_simps]:
  "relay_source_pending (write_chat_frame api dc i d c) = relay_source_pending c"
  "relay_source_pending (handle_chat_data_out api og d c) = relay_source_pending c"
  "relay_source_pending (handle_chat_ctrl_out api og d c) = relay_source_pending c"
  "relay_source_pending (handle_voice_data_out api og d c) = relay_source_pending c"
  "relay_source_pending (handle_keys_data_out api og d c) = relay_source_pending c"
  "relay_source_pending (handle_sfu_event_out api d c) = relay_source_pending c"
  by (simp_all add: write_chat_frame_def handle_chat_data_out_def handle_chat_ctrl_out_def handle_voice_data_out_def
      handle_keys_data_out_def handle_sfu_event_out_def announce_bump split: option.splits prod.splits bool.splits)

lemma announce_deliver:
  "deliver api now wall st p og c = Done c' \<Longrightarrow> relay_source_pending c' = relay_source_pending c"
  by (cases p) (auto simp: deliver_def announce_simps dest: announce_media_out)

lemma announce_accept [announce_simps]:
  "relay_source_pending (accept_renegotiation_answer api now st sdp c) = relay_source_pending c"
  by (simp add: accept_renegotiation_answer_def handle_zero_transition_after_accept_def drop_negotiating_def
      flip_negotiating_to_open_all_def Let_def announce_simps split: option.split prod.split)

lemma announce_drain [announce_simps]: "relay_source_pending (drain_ws_ctrl api now st c) = relay_source_pending c"
proof -
  have "relay_source_pending (fold (start_renegotiation api now st) refs c) = relay_source_pending c" for refs c
    by (induction refs arbitrary: c) (simp_all add: announce_simps)
  moreover have "relay_source_pending (fold (handle_ctrl api now st) as c) = relay_source_pending c" for as c
  proof (induction as arbitrary: c)
    case (Cons a as)
    then show ?case by (cases a) (simp add: announce_simps)
  qed simp
  ultimately show ?thesis
    by (simp add: drain_ws_ctrl_def drain_timeout_def drain_closed_def drop_negotiating_def Let_def announce_simps
        split: option.split)
qed

text \<open>With no announcement pending, no output of the stack makes the client write to a channel, and none
  is pending afterwards.\<close>

lemma recording_keeps [simp]:
  "snd (rtc_disconnect (recording api) rw) = snd rw"
  "snd (rtc_request_keyframe (recording api) rw m rid k) = snd rw"
  by (simp_all add: recording_def split_def)

lemma written_bump [simp]: "written_to (bump mt c) = written_to c"
  by (simp add: written_to_def bump_def)

lemma written_keyframe: "written_to (request_keyframe_throttled (recording api) now m rid k c) = written_to c"
  by (simp add: written_to_def request_keyframe_throttled_def mark_requested_def Let_def split: option.split prod.split)

lemma written_media:
  "track_in_media (recording api) now d c = (ev, c') \<Longrightarrow>
    relay_source_pending c' = relay_source_pending c \<and> written_to c' = written_to c"
  using written_keyframe [of api now "md_mid d" "md_rid d" Fir c]
  by (auto simp: track_in_media_def announce_simps Let_def written_to_def split: option.splits if_splits)

lemma written_gauges:
  "relay_source_pending (set_if name labels v c) = relay_source_pending c" "written_to (set_if name labels v c) = written_to c"
  "relay_source_pending (inc_if name labels n c) = relay_source_pending c" "written_to (inc_if name labels n c) = written_to c"
  by (simp_all add: set_if_def inc_if_def announce_simps split: option.split)

lemma event_quiet:
  assumes "relay_source_pending c = None" and "handle_event (recording api) lib json_str p now unix ref st e c = Done (ev, c', st')"
  shows "relay_source_pending c' = None \<and> written_to c' = written_to c"
proof (cases e)
  case (Media d)
  then show ?thesis using assms written_media [of api now d c]
    by (auto simp: handle_event_def split: prod.splits)
next
  case (ChannelData i data)
  then show ?thesis using assms
    by (auto simp: handle_event_def Let_def announce_simps split: out.splits if_splits)
next
  case (PeerStats rtt eloss iloss bwe)
  then show ?thesis using assms by (auto simp: handle_event_def written_gauges)
next
  case (MediaEgressStats m jitter nacks firs plis)
  then show ?thesis using assms by (auto simp: handle_event_def written_gauges)
qed (use assms in \<open>auto simp: handle_event_def on_connected_def track_in_added_def open_negotiated_def bump_def
      written_to_def Let_def split: if_splits\<close>)

lemma poll_quiet:
  assumes none: "relay_source_pending c = None"
    and "poll_output (recording api) (stack_says out1 r') lib json_str p now unix ref st c = Done (ev, c', st')"
  shows "relay_source_pending c' = None \<and> written_to c' = written_to c"
proof (cases "rtc_is_alive (recording api) (rtc c)")
  case True
  let ?c = "c\<lparr>rtc := (r', snd (rtc c))\<rparr>"
  have q: "relay_source_pending (bump mt ?c) = None" "written_to (bump mt ?c) = written_to c" for mt
    using none by (simp_all add: announce_simps) (simp add: written_to_def)
  show ?thesis
  proof (cases out1)
    case None
    then have "c' = (bump (Inc ''sfu_str0m_output_total'' [client_label c, ''error'']) ?c)
        \<lparr>rtc := rtc_disconnect (recording api) (r', snd (rtc c))\<rparr>"
      using assms(2) True by (simp add: poll_output_def stack_says_def Let_def bump_def)
    then show ?thesis using none by (simp add: announce_bump written_to_def)
  next
    case (Some out2)
    then have h: "handle_output (recording api) lib json_str p now unix ref st out2 ?c = Done (ev, c', st')"
      using assms(2) True by (simp add: poll_output_def stack_says_def)
    show ?thesis
    proof (cases out2)
      case (Event e)
      with h show ?thesis using event_quiet [OF q(1)] q(2) by (simp only: handle_output_def Let_def rtc_output.case)
    next
      case (Transmit t)
      with h show ?thesis using none by (auto simp: handle_output_def Let_def announce_simps written_to_def bump_def)
    next
      case (TimeoutAt t)
      with h show ?thesis using none by (auto simp: handle_output_def Let_def announce_simps written_to_def bump_def)
    qed
  qed
qed (use assms in \<open>simp add: poll_output_def\<close>)

lemma later_nothing_pending:
  "client_later api lib json_str p c c' \<Longrightarrow> relay_source_pending c = None \<Longrightarrow> relay_source_pending c' = None"
proof (induction rule: client_later.induct)
  case (polled c' out1 r' now unix ref st ev c'' st')
  show ?case using poll_quiet [OF polled.IH [OF polled.prems] polled.hyps(2)] by blast
qed (auto simp: announce_simps handle_input_def dest: announce_deliver split: bool.split)

text \<open>C37: A relay whose channel is not open when the connection comes up never announces itself. The event
  \<open>Connected\<close> discards the announcement and writes nothing; and from then on, whatever outputs the
  stack produces (the opening of the channel and further connections among them), whatever datagrams
  and timers it is fed, whatever the other clients send and whatever arrives on the control channel,
  no output of the stack makes the client write a message to any data channel.\<close>

theorem relay_announcement_lost:
  assumes "relay_source_pending c = Some (dc, url, token)" and "\<not> rtc_channel (recording api) (rtc c) dc"
    and "handle_event (recording api) lib json_str p now unix ref st Connected c = Done (ev, c0, st0)"
    and "client_later api lib json_str p c0 c1"
    and "poll_output (recording api) (stack_says out1 r') lib json_str p now' unix' ref' st' c1 = Done (ev', c2, st2)"
  shows "written_to c0 = written_to c \<and> written_to c2 = written_to c1"
proof -
  have "relay_source_pending c0 = None" "written_to c0 = written_to c"
    using assms(1-3) by (auto simp: handle_event_def on_connected_def written_to_def)
  with later_nothing_pending [OF assms(4)] poll_quiet [OF _ assms(5)] show ?thesis by blast
qed

text \<open>A stack with one channel, open from its second state on.\<close>

definition late_api :: "(nat, nat) rtc_api" where
  "late_api = demo_api\<lparr>rtc_channel := (\<lambda>r _. r > 0)\<rparr>"

definition late_relay :: "(nat recorded, nat) client" where
  "late_relay = (new_client (recording demo_api) (\<lambda>_. 0) (oxpulse_partner_edge_pacer_config demo_config False) 1 (0, []))
    \<lparr>rtc := (0, []), relay_source_pending := Some (2, ''wss://h/room'', ''tok'')\<rparr>"

theorem relay_announcement_lost_witness:
  "\<exists>c0 c1 c2. handle_event (recording late_api) demo_lib quoted_key transitional 0 60 9 demo_store Connected late_relay =
      Done (Noop, c0, demo_store) \<and>
    poll_output (recording late_api) (stack_says (Some (Event (ChannelOpen 2))) 1) demo_lib quoted_key transitional 1 60 9
      demo_store c0 = Done (Noop, c1, demo_store) \<and>
    rtc_channel (recording late_api) (rtc c1) 2 \<and>
    poll_output (recording late_api) (stack_says (Some (Event Connected)) 1) demo_lib quoted_key transitional 2 60 9
      demo_store c1 = Done (Noop, c2, demo_store) \<and> written_to c2 = []"
proof -
  have start: "relay_source_pending late_relay = Some (2, ''wss://h/room'', ''tok'')"
    "\<not> rtc_channel (recording late_api) (rtc late_relay) 2" "written_to late_relay = []"
    by (simp_all add: late_relay_def late_api_def recording_def written_to_def)
  define c0 where "c0 = late_relay\<lparr>relay_source_pending := None\<rparr>"
  have c0: "handle_event (recording late_api) demo_lib quoted_key transitional 0 60 9 demo_store Connected late_relay =
      Done (Noop, c0, demo_store)"
    using start by (simp add: handle_event_def on_connected_def c0_def)
  obtain c1 where c1: "poll_output (recording late_api) (stack_says (Some (Event (ChannelOpen 2))) 1) demo_lib quoted_key
      transitional 1 60 9 demo_store c0 = Done (Noop, c1, demo_store)" "rtc c1 = (1, [])"
    by (simp add: poll_output_def stack_says_def handle_output_def handle_event_def c0_def late_relay_def recording_def
        late_api_def demo_api_def Let_def bump_def)
  obtain c2 where c2: "poll_output (recording late_api) (stack_says (Some (Event Connected)) 1) demo_lib quoted_key
      transitional 2 60 9 demo_store c1 = Done (Noop, c2, demo_store)"
    by (simp add: poll_output_def stack_says_def handle_output_def handle_event_def c1(2) recording_def
        late_api_def demo_api_def Let_def)
  have "client_later late_api demo_lib quoted_key transitional c0 c1" by (rule polled [OF now c1(1)])
  from relay_announcement_lost [OF start(1,2) c0 this c2] c1(2) have "written_to c2 = []" by (simp add: written_to_def)
  moreover have "rtc_channel (recording late_api) (rtc c1) 2" by (simp add: c1(2) recording_def late_api_def)
  ultimately show ?thesis using c0 c1(1) c2 by blast
qed

end
