(* ===== verification/Sfu_Registry.thy ===== *)
theory Sfu_Registry
  imports Sfu_Dispatch
begin

text \<open>
  The registry of a room: joining with session steal, eviction and reaping (\<open>registry/mod.rs\<close>,
  \<open>registry/bwe.rs\<close>), the pacer pass and the queue of propagated events (\<open>registry/poll.rs\<close>).

  The bandwidth estimator and the speaker detector are third-party code: states \<open>'b\<close> and \<open>'d\<close> with the
  operations of \<open>kit_api\<close>.  An operation that drops a client also returns the track store without the
  tracks that client owned.  The shared metrics are the registry's log together with the logs of its
  clients, each of which starts when the client joins.
\<close>

section \<open>State\<close>

record ('b, 'd) kit_api =
  bw_estimate_with_term :: "'b \<Rightarrow> client_id \<Rightarrow> instant \<Rightarrow> (nat \<times> string) option \<times> 'b"
  bw_record_native_estimate :: "'b \<Rightarrow> client_id \<Rightarrow> nat \<Rightarrow> 'b"
  bw_record_client_hint :: "'b \<Rightarrow> client_id \<Rightarrow> nat \<Rightarrow> instant \<Rightarrow> 'b"
  bw_enable_googcc :: "'b \<Rightarrow> client_id \<Rightarrow> 'b"
  bw_googcc_receive :: "'b \<Rightarrow> client_id \<Rightarrow> nat \<Rightarrow> nat \<Rightarrow> 'b"
  bw_reap_dead :: "'b \<Rightarrow> client_id \<Rightarrow> 'b"
  det_add_peer :: "'d \<Rightarrow> client_id \<Rightarrow> nat \<Rightarrow> 'd"
  det_remove_peer :: "'d \<Rightarrow> client_id \<Rightarrow> 'd"
  det_record_level :: "'d \<Rightarrow> client_id \<Rightarrow> nat \<Rightarrow> nat \<Rightarrow> 'd"
  det_tick :: "'d \<Rightarrow> nat \<Rightarrow> (nat \<times> string) option \<times> 'd"
  det_peer_scores :: "'d \<Rightarrow> (nat \<times> nat \<times> nat \<times> nat) list"
  det_current_top_k :: "'d \<Rightarrow> nat \<Rightarrow> nat list"

record ('r, 'p, 'b, 'd) registry =
  clients :: "('r, 'p) client list"
  to_propagate :: "propagated list"
  detector :: 'd
  detector_epoch :: instant
  last_speaker_change :: "instant option"
  reg_metrics :: "metric list"
  bandwidth :: 'b
  solo_since :: "instant option"
  reg_relay_auth_secret :: "string option"
  reg_relay_signing_pubkey :: "string option"
  reg_hs256_fallback_enabled :: bool
  close_signals_sent :: "client_id list"

definition with_relay_auth ::
  "'d \<Rightarrow> 'b \<Rightarrow> instant \<Rightarrow> string option \<Rightarrow> string option \<Rightarrow> bool \<Rightarrow> ('r, 'p, 'b, 'd) registry" where
  "with_relay_auth det bw now secret pubkey fallback =
    \<lparr>clients = [], to_propagate = [], detector = det, detector_epoch = now, last_speaker_change = None, reg_metrics = [],
     bandwidth = bw, solo_since = None, reg_relay_auth_secret = secret, reg_relay_signing_pubkey = pubkey,
     reg_hs256_fallback_enabled = fallback, close_signals_sent = []\<rparr>"

definition log :: "metric list \<Rightarrow> ('r, 'p, 'b, 'd) registry \<Rightarrow> ('r, 'p, 'b, 'd) registry" where
  "log ms reg = reg\<lparr>reg_metrics := reg_metrics reg @ ms\<rparr>"

definition millis_since :: "instant \<Rightarrow> instant \<Rightarrow> nat" where
  "millis_since epoch now = (now - epoch) div 1000000"

section \<open>Leaving\<close>

definition PACER_RID_LABELS :: "string list" where
  "PACER_RID_LABELS = [''q'', ''h'', ''f'', ''other'']"

text \<open>The label series of a peer that are removed when it leaves.\<close>

definition scrub_series :: "string \<Rightarrow> metric list" where
  "scrub_series peer =
    [RemoveLabels ''bandwidth_estimate_bps'' [peer], RemoveLabels ''client_delivered_media_count'' [peer],
     RemoveLabels ''pacer_tick_throttled_total'' [peer]] @
    concat (map (\<lambda>r. RemoveLabels ''pacer_layer_total'' [peer, r] #
      map (\<lambda>t. RemoveLabels ''layer_transitions_total'' [r, t, peer]) PACER_RID_LABELS) PACER_RID_LABELS) @
    concat (map (\<lambda>dc. [RemoveLabels ''chat_relay_tx_bytes_total'' [dc, peer],
      RemoveLabels ''chat_relay_rx_bytes_total'' [dc, peer]]) [''data'', ''ctrl'']) @
    [RemoveLabels ''voice_relay_tx_bytes_total'' [peer], RemoveLabels ''voice_relay_rx_bytes_total'' [peer],
     RemoveLabels ''sfu_bwe_hint_received_total'' [peer], RemoveLabels ''sfu_bwe_hint_throttled_total'' [peer]]"

definition channel_gauges :: "('r, 'p) client \<Rightarrow> metric list" where
  "channel_gauges c =
    (if voice_data_cid c \<noteq> None then [Dec ''voice_relay_active_channels'' [''voice'']] else []) @
    (if chat_data_cid c \<noteq> None then [Dec ''chat_relay_active_channels'' [''data'']] else []) @
    (if chat_ctrl_cid c \<noteq> None then [Dec ''chat_relay_active_channels'' [''ctrl'']] else []) @
    (if reactions_dc_opened c then [Dec ''chat_relay_active_channels'' [''reactions'']] else [])"

definition swap_remove :: "nat \<Rightarrow> 'a list \<Rightarrow> 'a list" where
  "swap_remove i xs = (if Suc i = length xs then butlast xs else (butlast xs)[i := last xs])"

text \<open>A client that is dropped owned its incoming tracks: references to them no longer upgrade.\<close>

definition drop_tracks :: "('r, 'p) client \<Rightarrow> track_store \<Rightarrow> track_store" where
  "drop_tracks c st = (\<lambda>ref. if list_ex (\<lambda>t. te_ref t = ref) (tracks_in c) then None else st ref)"

definition evict_for_steal ::
  "('r, 'p) rtc_api \<Rightarrow> ('b, 'd) kit_api \<Rightarrow> nat \<Rightarrow> track_store \<Rightarrow> ('r, 'p, 'b, 'd) registry
    \<Rightarrow> ('r, 'p, 'b, 'd) registry \<times> track_store" where
  "evict_for_steal api kit idx st reg =
    (let old = clients reg ! idx;
         rest = swap_remove idx (clients reg) in
     (log (scrub_series (client_label old) @ channel_gauges old @
          [Inc ''client_disconnect_total'' [], Dec ''active_participants'' [], Inc ''session_replaced_total'' []] @
          (if rest = [] then [SetGauge ''active_rooms'' [] 0] else []))
       (reg\<lparr>clients := rest,
            close_signals_sent := close_signals_sent reg @ (if close_signal old then [cl_id old] else []),
            detector := det_remove_peer kit (detector reg) (cl_id old),
            bandwidth := bw_reap_dead kit (bandwidth reg) (cl_id old)\<rparr>),
      drop_tracks old st))"

definition reap_one ::
  "('b, 'd) kit_api \<Rightarrow> ('r, 'p) client \<Rightarrow> ('r, 'p, 'b, 'd) registry \<Rightarrow> ('r, 'p, 'b, 'd) registry" where
  "reap_one kit c reg =
    log ([Inc ''client_disconnect_total'' [], Dec ''active_participants'' []] @ scrub_series (client_label c) @ channel_gauges c)
      (reg\<lparr>detector := det_remove_peer kit (detector reg) (cl_id c), bandwidth := bw_reap_dead kit (bandwidth reg) (cl_id c)\<rparr>)"

definition reap_dead ::
  "('r, 'p) rtc_api \<Rightarrow> ('b, 'd) kit_api \<Rightarrow> instant \<Rightarrow> track_store \<Rightarrow> ('r, 'p, 'b, 'd) registry
    \<Rightarrow> ('r, 'p, 'b, 'd) registry \<times> track_store" where
  "reap_dead api kit now st reg =
    (let alive = (\<lambda>c. rtc_is_alive api (rtc c));
         dead = filter (\<lambda>c. \<not> alive c) (clients reg);
         reg1 = fold (reap_one kit) dead reg;
         reg2 = reg1\<lparr>clients := filter alive (clients reg)\<rparr>;
         reg3 = (if clients reg2 = [] then log [SetGauge ''active_rooms'' [] 0] reg2 else reg2) in
     (reg3\<lparr>solo_since := (if length (clients reg3) = 1
        then (case solo_since reg3 of None \<Rightarrow> Some now | Some t \<Rightarrow> Some t) else None)\<rparr>,
      fold drop_tracks dead st))"

definition check_solo_timeout ::
  "('r, 'p) rtc_api \<Rightarrow> nat \<Rightarrow> instant \<Rightarrow> ('r, 'p, 'b, 'd) registry \<Rightarrow> ('r, 'p, 'b, 'd) registry" where
  "check_solo_timeout api timeout now reg =
    (case (clients reg, solo_since reg) of
       ([c], Some since) \<Rightarrow>
         if now - since < timeout then reg
         else log [Inc ''sfu_solo_room_kicked_total'' []]
           (reg\<lparr>clients := [c\<lparr>rtc := rtc_disconnect api (rtc c)\<rparr>], solo_since := None\<rparr>)
     | _ \<Rightarrow> reg)"

section \<open>Joining\<close>

fun position :: "('a \<Rightarrow> bool) \<Rightarrow> 'a list \<Rightarrow> nat option" where
  "position p [] = None"
| "position p (x # xs) = (if p x then Some 0 else map_option Suc (position p xs))"

text \<open>The tracks of the clients already there, with the id of their publisher.\<close>

definition published :: "('r, 'p) client list \<Rightarrow> (client_id \<times> track_ref) list" where
  "published cs = concat (map (\<lambda>c. map (\<lambda>t. (cl_id c, te_ref t)) (tracks_in c)) cs)"

definition insert_client ::
  "('r, 'p) rtc_api \<Rightarrow> ('b, 'd) kit_api \<Rightarrow> instant \<Rightarrow> track_store \<Rightarrow> ('r, 'p) client \<Rightarrow> ('r, 'p, 'b, 'd) registry
    \<Rightarrow> ('r, 'p, 'b, 'd) registry \<times> track_store" where
  "insert_client api kit now st client0 reg =
    (let c0 = client0\<lparr>metrics := [], relay_auth_secret := reg_relay_auth_secret reg,
           relay_signing_pubkey := reg_relay_signing_pubkey reg,
           relay_hs256_fallback_enabled := reg_hs256_fallback_enabled reg\<rparr>;
         (reg1, st1) = (case external_peer_id c0 of
                   None \<Rightarrow> (reg, st)
                 | Some new_pid \<Rightarrow>
                     (case position (\<lambda>c. external_peer_id c = Some new_pid) (clients reg) of
                        None \<Rightarrow> (reg, st)
                      | Some idx \<Rightarrow> evict_for_steal api kit idx st reg));
         tracks = published (clients reg1);
         c1 = fold (\<lambda>(_, ref). handle_track_open api now st1 ref) tracks c0;
         reg2 = log (map (\<lambda>(pub, _). Inc ''sfu_subscription_setup_total'' [show_nat pub, client_label c0, ''wired'']) tracks @
                  [Inc ''client_connect_total'' [], Inc ''active_participants'' [], SetGauge ''active_rooms'' [] 1]) reg1 in
     (reg2\<lparr>detector := det_add_peer kit (detector reg2) (cl_id c0) (millis_since (detector_epoch reg2) now),
          clients := clients reg2 @ [c1],
          bandwidth := bw_enable_googcc kit (bandwidth reg2) (cl_id c0),
          solo_since := (if length (clients reg2 @ [c1]) = 1 then Some now else None),
          to_propagate := to_propagate reg2 @ [AudioCodecHint (cl_id c0) True True]\<rparr>, st1))"

text \<open>The tracks of a client that left are gone, the others stay.\<close>

lemma drop_tracks_fold:
  "fold drop_tracks cs st ref = (if \<exists>c \<in> set cs. \<exists>t \<in> set (tracks_in c). te_ref t = ref then None else st ref)"
  by (induction cs arbitrary: st) (auto simp: drop_tracks_def list_ex_iff)

lemma reap_dead_tracks:
  "snd (reap_dead api kit now st reg) ref =
    (if \<exists>c \<in> set (clients reg). \<not> rtc_is_alive api (rtc c) \<and> (\<exists>t \<in> set (tracks_in c). te_ref t = ref) then None
     else st ref)"
  by (auto simp: reap_dead_def Let_def drop_tracks_fold)

definition mark_relay_source ::
  "('b, 'd) kit_api \<Rightarrow> client_id \<Rightarrow> string \<Rightarrow> ('r, 'p, 'b, 'd) registry \<Rightarrow> ('r, 'p, 'b, 'd) registry" where
  "mark_relay_source kit cid url reg =
    (if list_ex (\<lambda>c. cl_id c = cid) (clients reg)
     then reg\<lparr>clients := update_first (\<lambda>c. cl_id c = cid) (set_origin (RelayFromSfu url)) (clients reg),
              detector := det_remove_peer kit (detector reg) cid\<rparr>
     else reg)"

section \<open>The pacer pass\<close>

definition DEFAULT_SIMULCAST_LADDER :: "rid list" where
  "DEFAULT_SIMULCAST_LADDER = [LOW, MEDIUM, HIGH]"

text \<open>The two switches of the pass and the kit's minimum tick.\<close>

record pacer_flags =
  floor_enabled :: bool
  bwe_cap_enabled :: bool
  pacer_min_tick :: nat

definition tier_step :: "('r, 'p) client \<Rightarrow> ('r, 'p) client \<times> propagated list" where
  "tier_step c =
    (case pending_tier_emit c of
       None \<Rightarrow> (c, [])
     | Some new_tier \<Rightarrow>
         (let c1 = c\<lparr>pending_tier_emit := None\<rparr> in
          if (case last_emitted_tier c1 of Some prev \<Rightarrow> prev \<noteq> new_tier | None \<Rightarrow> new_tier \<noteq> VideoMax)
          then (c1\<lparr>last_emitted_tier := Some new_tier\<rparr>, [PeerSuspended (cl_id c1) new_tier])
          else (c1, [])))"

definition chosen_log :: "string \<Rightarrow> rid \<Rightarrow> rid option \<Rightarrow> metric list" where
  "chosen_log peer prev chosen =
    (case chosen of
       None \<Rightarrow> []
     | Some r \<Rightarrow> Inc ''pacer_layer_total'' [peer, rid_label_for r] #
         (if r \<noteq> prev then [Inc ''layer_transitions_total'' [rid_label_for prev, rid_label_for r, peer]] else []))"

definition cap_label :: "nat \<Rightarrow> string" where
  "cap_label cap = (if cap = 0 then ''0'' else if cap = 1 then ''1'' else ''uncapped'')"

definition pace_tick :: "pacer_flags \<Rightarrow> instant \<Rightarrow> ('r, 'p) client \<Rightarrow> bool \<times> ('r, 'p) client" where
  "pace_tick fl now c =
    (if floor_enabled fl \<or> bwe_cap_enabled fl then pacer_tick_ready now (pacer_min_tick fl) c else (True, c))"

definition pace_choose ::
  "('r, 'p) rtc_api \<Rightarrow> pacer_flags \<Rightarrow> nat option \<Rightarrow> rid list \<Rightarrow> bool \<Rightarrow> ('r, 'p) client
    \<Rightarrow> rid option \<times> ('r, 'p) client \<times> metric list" where
  "pace_choose api fl budget available tick_ready c =
    (if floor_enabled fl \<and> \<not> tick_ready
     then (Some (desired_layer c), c, [Inc ''pacer_tick_throttled_total'' [client_label c]])
     else case pacer_select_layer api budget available c of (ch, c1) \<Rightarrow> (ch, c1, []))"

definition pace_switch ::
  "instant \<Rightarrow> track_store \<Rightarrow> rid \<Rightarrow> rid option \<Rightarrow> ('r, 'p) client \<Rightarrow> ('r, 'p) client \<times> propagated list" where
  "pace_switch now st prev_layer chosen c =
    (case chosen of
       Some new_rid \<Rightarrow> if new_rid \<noteq> prev_layer then emit_keyframe_on_layer_switch now st new_rid c [] else (c, [])
     | None \<Rightarrow> (c, []))"

definition pace_cap :: "pacer_flags \<Rightarrow> bool \<Rightarrow> nat option \<Rightarrow> ('r, 'p) client \<Rightarrow> ('r, 'p) client \<times> metric list" where
  "pace_cap fl tick_ready budget c =
    (if bwe_cap_enabled fl \<and> tick_ready
     then case bwe_select_temporal_cap budget c of (cap, c1) \<Rightarrow> (c1, [Inc ''bwe_temporal_cap_total'' [cap_label cap]])
     else (c, []))"

definition estimate_log :: "string \<Rightarrow> (nat \<times> string) option \<Rightarrow> metric list" where
  "estimate_log peer est =
    (case est of None \<Rightarrow> [] | Some (bps, term) \<Rightarrow>
       [SetGauge ''bandwidth_estimate_bps'' [peer] bps, Inc ''combined_bps_binding_term'' [term]])"

definition pace_client ::
  "('r, 'p) rtc_api \<Rightarrow> pacer_flags \<Rightarrow> instant \<Rightarrow> track_store \<Rightarrow> rid list \<Rightarrow> (nat \<times> string) option \<Rightarrow> ('r, 'p) client
    \<Rightarrow> ('r, 'p) client \<times> propagated list \<times> metric list" where
  "pace_client api fl now st available est c =
    (let budget = map_option fst est; prev_layer = desired_layer c; peer = client_label c in
     case pace_tick fl now c of (tick_ready, c1) \<Rightarrow>
     case pace_choose api fl budget available tick_ready c1 of (chosen, c2, ms1) \<Rightarrow>
     case pace_switch now st prev_layer chosen c2 of (c3, q1) \<Rightarrow>
     case tier_step c3 of (c4, q2) \<Rightarrow>
     case pace_cap fl tick_ready budget c4 of (c5, ms2) \<Rightarrow>
       (c5, q1 @ q2,
        ms1 @ estimate_log peer est @ [SetGauge ''client_delivered_media_count'' [peer] (delivered_media c4)] @
        chosen_log peer prev_layer chosen @ ms2))"

lemma pace_client_cases:
  obtains tick_ready c1 chosen c2 ms1 c3 q1 c4 q2 c5 ms2 where
    "pace_tick fl now c = (tick_ready, c1)"
    "pace_choose api fl (map_option fst est) available tick_ready c1 = (chosen, c2, ms1)"
    "pace_switch now st (desired_layer c) chosen c2 = (c3, q1)" "tier_step c3 = (c4, q2)"
    "pace_cap fl tick_ready (map_option fst est) c4 = (c5, ms2)"
    "fst (pace_client api fl now st available est c) = c5" "fst (snd (pace_client api fl now st available est c)) = q1 @ q2"
proof -
  obtain tick_ready c1 where a: "pace_tick fl now c = (tick_ready, c1)" by (cases "pace_tick fl now c")
  obtain chosen c2 ms1 where b: "pace_choose api fl (map_option fst est) available tick_ready c1 = (chosen, c2, ms1)"
    by (cases "pace_choose api fl (map_option fst est) available tick_ready c1")
  obtain c3 q1 where d: "pace_switch now st (desired_layer c) chosen c2 = (c3, q1)"
    by (cases "pace_switch now st (desired_layer c) chosen c2")
  obtain c4 q2 where e: "tier_step c3 = (c4, q2)" by (cases "tier_step c3")
  obtain c5 ms2 where f: "pace_cap fl tick_ready (map_option fst est) c4 = (c5, ms2)"
    by (cases "pace_cap fl tick_ready (map_option fst est) c4")
  have "fst (pace_client api fl now st available est c) = c5" "fst (snd (pace_client api fl now st available est c)) = q1 @ q2"
    by (simp_all add: pace_client_def Let_def a b d e f)
  from that [OF a b d e f this] show thesis .
qed

fun pace_all ::
  "('r, 'p) rtc_api \<Rightarrow> ('b, 'd) kit_api \<Rightarrow> pacer_flags \<Rightarrow> instant \<Rightarrow> track_store \<Rightarrow> rid list \<Rightarrow> ('r, 'p) client list \<Rightarrow> 'b
    \<Rightarrow> ('r, 'p) client list \<times> 'b \<times> propagated list \<times> metric list" where
  "pace_all api kit fl now st available [] bw = ([], bw, [], [])"
| "pace_all api kit fl now st available (c # cs) bw =
    (case bw_estimate_with_term kit bw (cl_id c) now of (est, bw1) \<Rightarrow>
     case pace_client api fl now st available est c of (c', q, ms) \<Rightarrow>
     case pace_all api kit fl now st available cs bw1 of (cs', bw2, qs, mss) \<Rightarrow> (c' # cs', bw2, q @ qs, ms @ mss))"

definition update_pacer_layers ::
  "('r, 'p) rtc_api \<Rightarrow> ('b, 'd) kit_api \<Rightarrow> pacer_flags \<Rightarrow> instant \<Rightarrow> track_store \<Rightarrow> client_id
    \<Rightarrow> ('r, 'p, 'b, 'd) registry \<Rightarrow> ('r, 'p, 'b, 'd) registry" where
  "update_pacer_layers api kit fl now st og reg =
    (let publisher_rids = (case find (\<lambda>c. cl_id c = og) (clients reg) of None \<Rightarrow> [] | Some c \<Rightarrow> active_rids c);
         available = (if publisher_rids = [] then DEFAULT_SIMULCAST_LADDER else publisher_rids) in
     case pace_all api kit fl now st available (clients reg) (bandwidth reg) of (cs, bw, q, ms) \<Rightarrow>
       log ms (reg\<lparr>clients := cs, bandwidth := bw, to_propagate := to_propagate reg @ q\<rparr>))"

section \<open>The event queue\<close>

text \<open>What the queue does with an event itself: whether it is done with it, and the new state.\<close>

definition consume ::
  "('r, 'p) rtc_api \<Rightarrow> ('b, 'd) kit_api \<Rightarrow> pacer_flags \<Rightarrow> instant \<Rightarrow> track_store \<Rightarrow> propagated
    \<Rightarrow> ('r, 'p, 'b, 'd) registry \<Rightarrow> bool \<times> ('r, 'p, 'b, 'd) registry" where
  "consume api kit fl now st p reg =
    (case p of
       BandwidthEstimate cid bps \<Rightarrow> (True, reg\<lparr>bandwidth := bw_record_native_estimate kit (bandwidth reg) cid bps\<rparr>)
     | ClientBudgetHint cid bps \<Rightarrow> (True, reg\<lparr>bandwidth := bw_record_client_hint kit (bandwidth reg) cid bps now\<rparr>)
     | VfmLayerCap cid max_tid \<Rightarrow>
         (True, reg\<lparr>clients := update_first (\<lambda>c. cl_id c = cid) (set_max_vfm_temporal_layer max_tid) (clients reg)\<rparr>)
     | MarkRelaySource cid url \<Rightarrow> (True, mark_relay_source kit cid url reg)
     | UpstreamKeyframeRequest _ _ _ \<Rightarrow> (True, reg)
     | PublisherLayerHintForUpstream _ _ \<Rightarrow> (True, reg)
     | PublisherLayerHint _ _ \<Rightarrow> (True, reg)
     | MediaData og _ \<Rightarrow> (False, update_pacer_layers api kit fl now st og reg)
     | VoiceData sender_id payload \<Rightarrow>
         (False, log [IncBy ''voice_relay_rx_bytes_total'' [show_nat sender_id] (length payload)] reg)
     | _ \<Rightarrow> (False, reg))"

definition is_media :: "propagated \<Rightarrow> bool" where
  "is_media p = (case p of MediaData _ _ \<Rightarrow> True | _ \<Rightarrow> False)"

lemma emit_no_media: "filter is_media (snd (emit_keyframe_on_layer_switch now st r c [])) = []"
  by (auto simp: emit_keyframe_on_layer_switch_def switch_requests_def is_media_def Let_def filter_empty_conv
      split: option.splits if_splits)

lemma tier_no_media: "filter is_media (snd (tier_step c)) = []"
  by (simp add: tier_step_def is_media_def Let_def split: option.splits)

lemma pace_client_no_media: "filter is_media (fst (snd (pace_client api fl now st available est c))) = []"
proof (rule pace_client_cases [of fl now c api est available st])
  fix tick_ready c1 chosen c2 ms1 c3 q1 c4 q2 c5 ms2
  assume d: "pace_switch now st (desired_layer c) chosen c2 = (c3, q1)" and e: "tier_step c3 = (c4, q2)"
    and q: "fst (snd (pace_client api fl now st available est c)) = q1 @ q2"
  have "filter is_media q1 = []" using d emit_no_media [of now st _ c2]
    by (auto simp: pace_switch_def split: option.splits if_splits) (metis snd_conv)
  moreover have "filter is_media q2 = []" using e tier_no_media [of c3] by simp
  ultimately show ?thesis by (simp add: q)
qed

lemma pace_all_Cons:
  assumes "pace_all api kit fl now st available (c # cs) bw = (cs', bw', q, ms)"
  obtains est bw1 cs1 qs mss where "bw_estimate_with_term kit bw (cl_id c) now = (est, bw1)"
    "pace_all api kit fl now st available cs bw1 = (cs1, bw', qs, mss)"
    "cs' = fst (pace_client api fl now st available est c) # cs1"
    "q = fst (snd (pace_client api fl now st available est c)) @ qs"
  using assms by (auto split: prod.splits)

lemma pace_all_no_media:
  "pace_all api kit fl now st available cs bw = (cs', bw', q, ms) \<Longrightarrow> filter is_media q = []"
proof (induction cs arbitrary: bw cs' bw' q ms)
  case (Cons c cs)
  show ?case
    by (rule pace_all_Cons [OF Cons.prems]) (simp add: Cons.IH pace_client_no_media)
qed simp

lemma consume_queue:
  "consume api kit fl now st p reg = (b, reg') \<Longrightarrow>
    \<exists>q. to_propagate reg' = to_propagate reg @ q \<and> filter is_media q = [] \<and> (is_media p \<or> q = [])"
proof (cases "is_media p")
  case True
  then obtain og d where p: "p = MediaData og d" by (cases p) (auto simp: is_media_def)
  assume "consume api kit fl now st p reg = (b, reg')"
  then have "reg' = update_pacer_layers api kit fl now st og reg" by (simp add: p consume_def)
  then show ?thesis using True pace_all_no_media
    by (auto simp: update_pacer_layers_def log_def Let_def split: prod.splits)
next
  case False
  assume "consume api kit fl now st p reg = (b, reg')"
  then show ?thesis using False
    by (cases p) (auto simp: consume_def is_media_def log_def mark_relay_source_def split: if_splits)
qed

lemma consume_smaller:
  assumes "to_propagate reg = p # ps" and "consume api kit fl now st p (reg\<lparr>to_propagate := ps\<rparr>) = (b, reg1)"
  shows "length (filter is_media (to_propagate reg1)) < length (filter is_media (to_propagate reg)) \<or>
    length (filter is_media (to_propagate reg1)) = length (filter is_media (to_propagate reg)) \<and>
    length (to_propagate reg1) < length (to_propagate reg)"
proof -
  from consume_queue [OF assms(2)] obtain q where
    "to_propagate reg1 = ps @ q" "filter is_media q = []" "is_media p \<or> q = []" by auto
  then show ?thesis using assms(1) by auto
qed


text \<open>
  \<open>fanout_pending\<close>: the queue is popped until it is empty.  A media packet may queue keyframe requests
  and tier changes, never another packet, so the number of packets and then the length of the queue
  decrease.
\<close>

function fanout_pending ::
  "('r, 'p) rtc_api \<Rightarrow> ('b, 'd) kit_api \<Rightarrow> pacer_flags \<Rightarrow> instant \<Rightarrow> nat \<Rightarrow> track_store
    \<Rightarrow> ('r, 'p, 'b, 'd) registry \<Rightarrow> ('r, 'p, 'b, 'd) registry out" where
  "fanout_pending api kit fl now wall st reg =
    (case to_propagate reg of
       [] \<Rightarrow> Done reg
     | p # ps \<Rightarrow>
         (case consume api kit fl now st p (reg\<lparr>to_propagate := ps\<rparr>) of
            (True, reg1) \<Rightarrow> fanout_pending api kit fl now wall st reg1
          | (False, reg1) \<Rightarrow>
              (case fanout api now wall st p (clients reg1) of
                 Done cs \<Rightarrow> fanout_pending api kit fl now wall st (reg1\<lparr>clients := cs\<rparr>)
               | Panic \<Rightarrow> Panic
               | Fail \<Rightarrow> Fail)))"
  by pat_completeness auto

termination
proof (relation "inv_image (less_than <*lex*> less_than)
    (\<lambda>(_, _, _, _, _, _, reg). (length (filter is_media (to_propagate reg)), length (to_propagate reg)))", goal_cases)
  case 1
  then show ?case by auto
next
  case (2 api kit fl now wall st reg p ps b reg1)
  then have "consume api kit fl now st p (reg\<lparr>to_propagate := ps\<rparr>) = (True, reg1)" by auto
  from consume_smaller [OF 2(1) this] show ?case by simp
next
  case (3 api kit fl now wall st reg p ps b reg1 cs)
  then have "consume api kit fl now st p (reg\<lparr>to_propagate := ps\<rparr>) = (False, reg1)" by auto
  from consume_smaller [OF 3(1) this] show ?case by simp
qed

declare fanout_pending.simps [simp del]

section \<open>The other operations\<close>

definition pump_ws_ctrl ::
  "('r, 'p) rtc_api \<Rightarrow> instant \<Rightarrow> track_store \<Rightarrow> ('r, 'p, 'b, 'd) registry \<Rightarrow> ('r, 'p, 'b, 'd) registry" where
  "pump_ws_ctrl api now st reg =
    (let cs = map (\<lambda>c. pump_keyframe_waits now st (drain_ws_ctrl api now st c)) (clients reg) in
     reg\<lparr>clients := map (\<lambda>c. c\<lparr>pending_propagated := []\<rparr>) cs,
         to_propagate := to_propagate reg @ concat (map pending_propagated cs)\<rparr>)"

definition tick_active_speaker ::
  "('b, 'd) kit_api \<Rightarrow> instant \<Rightarrow> ('r, 'p, 'b, 'd) registry \<Rightarrow> ('r, 'p, 'b, 'd) registry" where
  "tick_active_speaker kit now reg =
    (case det_tick kit (detector reg) (millis_since (detector_epoch reg) now) of
       (None, det) \<Rightarrow> reg\<lparr>detector := det\<rparr>
     | (Some (pid, margin), det) \<Rightarrow>
         log (Inc ''dominant_speaker_changes_total'' [] #
              (case last_speaker_change reg of None \<Rightarrow> [] | Some prev \<Rightarrow> [Observe ''dominant_speaker_hysteresis_ms'' (now - prev)]))
           (reg\<lparr>detector := det, last_speaker_change := Some now,
                to_propagate := to_propagate reg @ [ActiveSpeakerChanged pid margin]\<rparr>))"

definition tick_speaker_scores ::
  "('b, 'd) kit_api \<Rightarrow> ('r, 'p, 'b, 'd) registry \<Rightarrow> ('r, 'p, 'b, 'd) registry" where
  "tick_speaker_scores kit reg =
    (let reg1 = log (concat (map (\<lambda>(pid, imm, med, lng).
             [SetGauge ''speaker_immediate'' [show_nat pid] imm, SetGauge ''speaker_medium'' [show_nat pid] med,
              SetGauge ''speaker_long'' [show_nat pid] lng]) (det_peer_scores kit (detector reg)))) reg;
         top3 = det_current_top_k kit (detector reg1) 3 in
     if top3 = [] then reg1 else reg1\<lparr>to_propagate := to_propagate reg1 @ [TopSpeakers top3]\<rparr>)"

definition tick ::
  "('r, 'p) rtc_api \<Rightarrow> (instant \<Rightarrow> 'r \<Rightarrow> bool \<times> 'r) \<Rightarrow> instant \<Rightarrow> ('r, 'p, 'b, 'd) registry \<Rightarrow> ('r, 'p, 'b, 'd) registry" where
  "tick api feed now reg = reg\<lparr>clients := map (handle_input api feed now) (clients reg)\<rparr>"

definition hint_rank :: "rid \<Rightarrow> nat" where
  "hint_rank r = (if r = LOW then 0 else if r = MEDIUM then 1 else 2)"

text \<open>The map from publishers to layers as an association list in order of first occurrence.\<close>

fun raise_layer :: "client_id \<Rightarrow> rid \<Rightarrow> (client_id \<times> rid) list \<Rightarrow> (client_id \<times> rid) list" where
  "raise_layer pub r [] = [(pub, if hint_rank r > hint_rank LOW then r else LOW)]"
| "raise_layer pub r ((k, v) # m) =
    (if k = pub then (k, if hint_rank r > hint_rank v then r else v) # m else (k, v) # raise_layer pub r m)"

definition wanted_layers :: "track_store \<Rightarrow> ('r, 'p) client list \<Rightarrow> (client_id \<times> rid) list" where
  "wanted_layers st cs =
    fold (\<lambda>c. fold (\<lambda>o1 m. case st (to_track_in o1) of None \<Rightarrow> m | Some t \<Rightarrow> raise_layer (ti_origin t) (desired_layer c) m)
      (tracks_out c)) cs []"

definition emit_publisher_layer_hints ::
  "track_store \<Rightarrow> ('r, 'p, 'b, 'd) registry \<Rightarrow> ('r, 'p, 'b, 'd) registry" where
  "emit_publisher_layer_hints st reg =
    reg\<lparr>to_propagate := to_propagate reg @ map (\<lambda>(pub, r). PublisherLayerHint pub r) (wanted_layers st (clients reg))\<rparr>"

text \<open>Routing a datagram: \<open>decode\<close> reads it, \<open>accepts\<close> and \<open>feed\<close> are the stack's.\<close>

definition handle_incoming ::
  "('r, 'p) rtc_api \<Rightarrow> ('m \<Rightarrow> 'i option) \<Rightarrow> ('r \<Rightarrow> 'i \<Rightarrow> bool) \<Rightarrow> ('i \<Rightarrow> 'r \<Rightarrow> bool \<times> 'r) \<Rightarrow> 'm
    \<Rightarrow> ('r, 'p, 'b, 'd) registry \<Rightarrow> bool \<times> ('r, 'p, 'b, 'd) registry" where
  "handle_incoming api decode accepts feed datagram reg =
    (case decode datagram of
       None \<Rightarrow> (False, reg)
     | Some input \<Rightarrow>
         if list_ex (\<lambda>c. accepts (rtc c) input) (clients reg)
         then (True, reg\<lparr>clients := update_first (\<lambda>c. accepts (rtc c) input) (handle_input api feed input) (clients reg)\<rparr>)
         else (False, reg))"

definition drain_transmits :: "('r, 'p, 'b, 'd) registry \<Rightarrow> transmit list \<times> ('r, 'p, 'b, 'd) registry" where
  "drain_transmits reg =
    (concat (map pending_out (clients reg)), reg\<lparr>clients := map (\<lambda>c. snd (drain_pending_out c)) (clients reg)\<rparr>)"


section \<open>Polling\<close>

text \<open>The arguments of a poll pass that do not change in it, and what the pass accumulates.\<close>

record ('r, 'p, 'b, 'd) poll_env =
  pe_api :: "('r, 'p) rtc_api"
  pe_poll :: "'r \<Rightarrow> rtc_output option \<times> 'r"
  pe_lib :: jwt_lib
  pe_json_str :: "string \<Rightarrow> string"
  pe_policy :: room_token_policy
  pe_now :: instant
  pe_unix :: nat
  pe_fresh :: "track_store \<Rightarrow> track_ref"
  pe_kit :: "('b, 'd) kit_api"
  pe_epoch :: instant

record 'd poll_pass =
  pp_store :: track_store
  pp_queue :: "propagated list"
  pp_detector :: 'd
  pp_timing :: "(nat \<times> nat) option"
  pp_deadline :: instant

text \<open>The level of RFC 6464, negated as an \<open>i8\<close> (the least value is its own negation) and clamped.\<close>

definition speaker_level :: "int \<Rightarrow> nat" where
  "speaker_level raw = nat (max 0 (min 127 (if raw = - 128 then raw else - raw)))"

definition observe_media ::
  "('r, 'p, 'b, 'd) poll_env \<Rightarrow> ('r, 'p) client \<Rightarrow> propagated \<Rightarrow> 'd poll_pass \<Rightarrow> 'd poll_pass" where
  "observe_media env c ev ps =
    (case ev of
       MediaData og d \<Rightarrow>
         (let now_ms = millis_since (pe_epoch env) (pe_now env);
              ps1 = (case md_audio_level d of
                       None \<Rightarrow> ps
                     | Some raw \<Rightarrow>
                         if \<not> is_relay c
                         then ps\<lparr>pp_detector := det_record_level (pe_kit env) (pp_detector ps) og (speaker_level raw) now_ms\<rparr>
                         else ps) in
          case md_video_time d of None \<Rightarrow> ps1 | Some t \<Rightarrow> ps1\<lparr>pp_timing := Some (now_ms, t)\<rparr>)
     | _ \<Rightarrow> ps)"

definition poll_once ::
  "('r, 'p, 'b, 'd) poll_env \<Rightarrow> track_store \<Rightarrow> ('r, 'p) client \<Rightarrow> (propagated \<times> ('r, 'p) client \<times> track_store) out" where
  "poll_once env st c =
    poll_output (pe_api env) (pe_poll env) (pe_lib env) (pe_json_str env) (pe_policy env) (pe_now env) (pe_unix env)
      (pe_fresh env st) st c"

partial_function (option) poll_client ::
  "('r, 'p, 'b, 'd) poll_env \<Rightarrow> ('r, 'p) client \<Rightarrow> 'd poll_pass \<Rightarrow> (('r, 'p) client \<times> 'd poll_pass) out option" where
  "poll_client env c ps =
    (if \<not> rtc_is_alive (pe_api env) (rtc c) then Some (Done (c, ps))
     else
       (case poll_once env (pp_store ps) c of
          Panic \<Rightarrow> Some Panic
        | Fail \<Rightarrow> Some Fail
        | Done (ev, c1, st1) \<Rightarrow>
            (let ps1 = ps\<lparr>pp_store := st1\<rparr> in
             case ev of
               Timeout t \<Rightarrow> Some (Done (c1, ps1\<lparr>pp_deadline := min (pp_deadline ps1) t\<rparr>))
             | Noop \<Rightarrow> poll_client env c1 ps1
             | _ \<Rightarrow> poll_client env c1 ((observe_media env c1 ev ps1)\<lparr>pp_queue := pp_queue ps1 @ [ev]\<rparr>))))"

fun poll_clients ::
  "('r, 'p, 'b, 'd) poll_env \<Rightarrow> ('r, 'p) client list \<Rightarrow> 'd poll_pass \<Rightarrow> (('r, 'p) client list \<times> 'd poll_pass) out option" where
  "poll_clients env [] ps = Some (Done ([], ps))"
| "poll_clients env (c # cs) ps =
    (case poll_client env c ps of
       None \<Rightarrow> None
     | Some Panic \<Rightarrow> Some Panic
     | Some Fail \<Rightarrow> Some Fail
     | Some (Done (c1, ps1)) \<Rightarrow>
         (case poll_clients env cs ps1 of
            None \<Rightarrow> None
          | Some Panic \<Rightarrow> Some Panic
          | Some Fail \<Rightarrow> Some Fail
          | Some (Done (cs2, ps2)) \<Rightarrow> Some (Done (c1 # cs2, ps2))))"

text \<open>The deadline, the registry and the store; the times of the congestion feed are in their own units.\<close>

definition poll_all ::
  "('r, 'p, 'b, 'd) poll_env \<Rightarrow> track_store \<Rightarrow> ('r, 'p, 'b, 'd) registry
    \<Rightarrow> (instant \<times> ('r, 'p, 'b, 'd) registry \<times> track_store) out option" where
  "poll_all env st reg =
    (case poll_clients env (clients reg)
            \<lparr>pp_store = st, pp_queue = to_propagate reg, pp_detector = detector reg, pp_timing = None,
             pp_deadline = pe_now env + 100000000\<rparr> of
       None \<Rightarrow> None
     | Some Panic \<Rightarrow> Some Panic
     | Some Fail \<Rightarrow> Some Fail
     | Some (Done (cs, ps)) \<Rightarrow>
         Some (Done (pp_deadline ps,
           reg\<lparr>clients := cs, to_propagate := pp_queue ps, detector := pp_detector ps,
               bandwidth := (case pp_timing ps of
                 None \<Rightarrow> bandwidth reg
               | Some (arrival_ms, rtp) \<Rightarrow>
                   fold (\<lambda>c bw. bw_googcc_receive (pe_kit env) bw (cl_id c) arrival_ms rtp) cs (bandwidth reg))\<rparr>,
           pp_store ps)))"

end
