(* ===== verification/Sfu_Room.thy ===== *)
theory Sfu_Room
  imports Sfu_Registry "HOL-Library.Multiset"
begin

text \<open>
  The room over time: what every operation of the registry keeps, and that the event queue is always
  emptied without a panic.
\<close>

section \<open>Clients keep their identity and their caps\<close>

definition queue_ok :: "propagated list \<Rightarrow> bool" where
  "queue_ok q \<longleftrightarrow> list_all (\<lambda>p. case p of VfmLayerCap _ n \<Rightarrow> n < 256 | _ \<Rightarrow> True) q"

lemma queue_ok_append [simp]: "queue_ok (xs @ ys) \<longleftrightarrow> queue_ok xs \<and> queue_ok ys"
  by (simp add: queue_ok_def)

definition cap_view :: "('r, 'p) client \<Rightarrow> dd_structure_cache \<times> nat \<times> nat \<times> bool" where
  "cap_view c = (dd_cache c, max_vfm_temporal_layer c, bwe_vfm_temporal_cap c, queue_ok (pending_propagated c))"

definition client_ok :: "('r, 'p) client \<Rightarrow> bool" where
  "client_ok c \<longleftrightarrow> (\<exists>f. sub_inv f c) \<and> queue_ok (pending_propagated c)"

lemma client_okI: "sub_inv f c \<Longrightarrow> queue_ok (pending_propagated c) \<Longrightarrow> client_ok c"
  by (auto simp: client_ok_def)

lemma client_ok_view: "client_ok c \<Longrightarrow> cap_view c' = cap_view c \<Longrightarrow> client_ok c'"
  unfolding client_ok_def cap_view_def by (auto intro: sub_inv_frame)

lemma client_ok_new: "client_ok (new_client api wc cfg i r)"
  by (rule client_okI [OF sub_inv_new]) (simp add: new_client_def queue_ok_def Let_def split: prod.splits)

lemma client_ok_taken: "client_ok c \<Longrightarrow> client_ok (c\<lparr>pending_propagated := []\<rparr>)"
proof -
  assume "client_ok c"
  then obtain f where "sub_inv f c" by (auto simp: client_ok_def)
  then have "sub_inv f (c\<lparr>pending_propagated := []\<rparr>)" by (rule sub_inv_frame) simp_all
  then show ?thesis by (rule client_okI) (simp add: queue_ok_def)
qed

lemma cap_updates [simp]:
  "cap_view (c\<lparr>rtc := r\<rparr>) = cap_view c" "cap_view (c\<lparr>metrics := ms\<rparr>) = cap_view c" "cap_view (c\<lparr>tracks_out := os\<rparr>) = cap_view c"
  "cap_view (c\<lparr>tracks_in := ti\<rparr>) = cap_view c" "cap_view (c\<lparr>pending_offer := po\<rparr>) = cap_view c"
  "cap_view (c\<lparr>pending_offer_at := pa\<rparr>) = cap_view c" "cap_view (c\<lparr>renegotiation_queue := q\<rparr>) = cap_view c"
  "cap_view (c\<lparr>ws_msg_tx := tx\<rparr>) = cap_view c" "cap_view (c\<lparr>ws_ctrl_rx := rx\<rparr>) = cap_view c"
  "cap_view (c\<lparr>keyframe_waits := kw\<rparr>) = cap_view c" "cap_view (c\<lparr>delivered_media := n\<rparr>) = cap_view c"
  "cap_view (c\<lparr>chosen_rid := ch\<rparr>) = cap_view c" "cap_view (c\<lparr>pending_propagated := pending_propagated c @ [pli_for d og' m']\<rparr>) = cap_view c"
  "cap_view (c\<lparr>pending_tier_emit := te\<rparr>) = cap_view c" "cap_view (c\<lparr>pacer := pc\<rparr>) = cap_view c"
  "cap_view (c\<lparr>desired_layer := dl\<rparr>) = cap_view c" "cap_view (c\<lparr>last_pacer_tick := lt\<rparr>) = cap_view c"
  "cap_view (c\<lparr>last_emitted_tier := le\<rparr>) = cap_view c" "cap_view (c\<lparr>last_switch_keyframe_request := ls\<rparr>) = cap_view c"
  "cap_view (c\<lparr>relay_source_pending := rp\<rparr>) = cap_view c" "cap_view (c\<lparr>reactions_dc_opened := b\<rparr>) = cap_view c"
  "cap_view (c\<lparr>active_rids := ar\<rparr>) = cap_view c" "cap_view (c\<lparr>cl_origin := og\<rparr>) = cap_view c" "cap_view (c\<lparr>pending_out := out1\<rparr>) = cap_view c"
  "cap_view (c\<lparr>relay_auth_secret := s1\<rparr>) = cap_view c" "cap_view (c\<lparr>relay_signing_pubkey := s1\<rparr>) = cap_view c"
  "cap_view (c\<lparr>relay_hs256_fallback_enabled := b\<rparr>) = cap_view c" "cap_view (bump m c) = cap_view c"
  by (simp_all add: cap_view_def bump_def queue_ok_def pli_for_def)

lemma ident_updates_auth [simp]:
  "ident (c\<lparr>relay_auth_secret := s1\<rparr>) = ident c" "ident (c\<lparr>relay_signing_pubkey := s1\<rparr>) = ident c"
  "ident (c\<lparr>relay_hs256_fallback_enabled := b\<rparr>) = ident c"
  by (simp_all add: ident_def)

named_theorems cap_simps

lemma cap_send_offer [cap_simps]: "cap_view (send_offer ref t m sdp c) = cap_view c"
  by (simp add: send_offer_def Let_def split: option.splits prod.splits send_error.splits)

lemma cap_start [cap_simps]: "cap_view (start_renegotiation api now st ref c) = cap_view c"
  by (simp add: start_renegotiation_def offer_made_def cap_send_offer split: option.splits prod.splits)

lemma cap_track_open [cap_simps]: "cap_view (handle_track_open api now st ref c) = cap_view c"
  by (simp add: handle_track_open_def cap_start)

lemma cap_keyframe_request [cap_simps]: "cap_view (handle_keyframe_request api now req m c) = cap_view c"
  by (simp add: handle_keyframe_request_def mark_requested_def Let_def split: option.splits)

lemma cap_writers [cap_simps]:
  "cap_view (write_chat_frame api dc i d c) = cap_view c" "cap_view (handle_chat_data_out api og d c) = cap_view c"
  "cap_view (handle_chat_ctrl_out api og d c) = cap_view c" "cap_view (handle_voice_data_out api og d c) = cap_view c"
  "cap_view (handle_keys_data_out api og d c) = cap_view c" "cap_view (handle_sfu_event_out api d c) = cap_view c"
  "cap_view (handle_active_speaker_changed api pid cf c) = cap_view c" "cap_view (top_speakers_out api sp c) = cap_view c"
  by (simp_all add: write_chat_frame_def handle_chat_data_out_def handle_chat_ctrl_out_def handle_voice_data_out_def
      handle_keys_data_out_def handle_sfu_event_out_def handle_active_speaker_changed_def top_speakers_out_def
      split: option.splits prod.splits bool.splits)

lemma pacer_select_frame:
  "pacer_select_layer api budget available c = (ch, c') \<Longrightarrow> ident c' = ident c \<and> cap_view c' = cap_view c"
  by (auto simp: pacer_select_layer_def set_desired_layer_def Let_def split: option.splits prod.splits pacer_action.splits if_splits)

lemma emit_frame:
  "emit_keyframe_on_layer_switch now st r c q = (c', q') \<Longrightarrow> ident c' = ident c \<and> cap_view c' = cap_view c"
  by (auto simp: emit_keyframe_on_layer_switch_def Let_def split: if_splits)

lemma tier_frame: "tier_step c = (c', q) \<Longrightarrow> ident c' = ident c \<and> cap_view c' = cap_view c"
  by (auto simp: tier_step_def Let_def split: option.splits if_splits)

lemma tick_frame: "pace_tick fl now c = (b, c') \<Longrightarrow> ident c' = ident c \<and> cap_view c' = cap_view c"
  by (auto simp: pace_tick_def pacer_tick_ready_def split: option.splits if_splits)

lemma start_waits_frame: "ident (start_keyframe_waits_for_open_video_tracks now st c) = ident c \<and>
    cap_view (start_keyframe_waits_for_open_video_tracks now st c) = cap_view c"
proof -
  have w: "ident (start_keyframe_wait now og m c) = ident c" "cap_view (start_keyframe_wait now og m c) = cap_view c"
    for og m and c :: "('a, 'b) client"
    by (simp_all add: start_keyframe_wait_def Let_def)
  have "ident (fold (\<lambda>(og, m). start_keyframe_wait now og m) ks c) = ident c \<and>
      cap_view (fold (\<lambda>(og, m). start_keyframe_wait now og m) ks c) = cap_view c" for ks and c :: "('a, 'b) client"
    by (induction ks arbitrary: c) (auto simp: w)
  then show ?thesis by (simp add: start_keyframe_waits_for_open_video_tracks_def)
qed

text \<open>Bundled: an operation on a client that keeps identity and caps.\<close>

definition tame :: "(('r, 'p) client \<Rightarrow> ('r, 'p) client) \<Rightarrow> bool" where
  "tame f \<longleftrightarrow> (\<forall>c. ident (f c) = ident c \<and> (client_ok c \<longrightarrow> client_ok (f c)))"

lemma tameI: "(\<And>c. ident (f c) = ident c) \<Longrightarrow> (\<And>c. cap_view (f c) = cap_view c) \<Longrightarrow> tame f"
  unfolding tame_def using client_ok_view by blast

lemma tameD: "tame f \<Longrightarrow> ident (f c) = ident c \<and> (client_ok c \<longrightarrow> client_ok (f c))"
  by (simp add: tame_def)

lemma tame_comp: "tame f \<Longrightarrow> tame g \<Longrightarrow> tame (\<lambda>c. g (f c))"
  by (simp add: tame_def)

lemma tame_fold: "(\<And>x. x \<in> set xs \<Longrightarrow> tame (f x)) \<Longrightarrow> tame (fold f xs)"
  by (induction xs) (auto simp: tame_def)

lemma tame_start: "tame (start_renegotiation api now st ref)"
  by (rule tameI) (simp_all add: ident_simps cap_simps)

lemma tame_track_open: "tame (handle_track_open api now st ref)"
  by (rule tameI) (simp_all add: ident_simps cap_simps)

lemma tame_offer_next: "tame (offer_next api now st)"
  by (rule tameI) (simp_all add: offer_next_def ident_simps cap_simps split: list.splits)

lemma tame_accept: "tame (accept_renegotiation_answer api now st sdp)"
proof (rule tameI)
  fix c
  have o1: "ident (offer_next api now st d) = ident d" "cap_view (offer_next api now st d) = cap_view d" for d :: "('a, 'b) client"
    by (simp_all add: offer_next_def ident_simps cap_simps split: list.splits)
  show "ident (accept_renegotiation_answer api now st sdp c) = ident c"
    by (simp add: accept_renegotiation_answer_def flip_negotiating_to_open_all_def handle_zero_transition_after_accept_def
        drop_negotiating_def start_waits_frame o1 Let_def split: option.splits prod.splits)
  show "cap_view (accept_renegotiation_answer api now st sdp c) = cap_view c"
    by (simp add: accept_renegotiation_answer_def flip_negotiating_to_open_all_def handle_zero_transition_after_accept_def
        drop_negotiating_def start_waits_frame o1 Let_def split: option.splits prod.splits)
qed

lemma tame_drain: "tame (drain_ws_ctrl api now st)"
proof -
  have c: "tame (handle_ctrl api now st a)" for a
    using tame_accept [of api now st] by (cases a) (simp add: tame_def)
  have f: "ident (fold (handle_ctrl api now st) as d) = ident d \<and> (client_ok d \<longrightarrow> client_ok (fold (handle_ctrl api now st) as d))"
    for as and d :: "('a, 'b) client"
    by (rule tameD [OF tame_fold]) (rule c)
  have s: "ident (fold (start_renegotiation api now st) rs d) = ident d \<and>
      (client_ok d \<longrightarrow> client_ok (fold (start_renegotiation api now st) rs d))" for rs and d :: "('a, 'b) client"
    by (rule tameD [OF tame_fold]) (rule tame_start)
  have v: "client_ok d \<Longrightarrow> cap_view d' = cap_view d \<Longrightarrow> client_ok d'" for d d' :: "('a, 'b) client" by (rule client_ok_view)
  have t: "ident (drain_timeout api now st d) = ident d \<and> (client_ok d \<longrightarrow> client_ok (drain_timeout api now st d))"
    for d :: "('a, 'b) client"
  proof -
    let ?d = "bump (answers ''timeout'') (drop_negotiating (d\<lparr>pending_offer := None, pending_offer_at := None\<rparr>))"
    have "ident (?d\<lparr>renegotiation_queue := []\<rparr>) = ident d" "cap_view (?d\<lparr>renegotiation_queue := []\<rparr>) = cap_view d"
      by (simp_all add: drop_negotiating_def)
    then show ?thesis using s [of "renegotiation_queue ?d" "?d\<lparr>renegotiation_queue := []\<rparr>"] v
      unfolding drain_timeout_def Let_def by metis
  qed
  have k: "ident (drain_closed d) = ident d \<and> (client_ok d \<longrightarrow> client_ok (drain_closed d))" for d :: "('a, 'b) client"
    unfolding drain_closed_def Let_def by (auto simp: drop_negotiating_def intro: v)
  have w: "client_ok (d\<lparr>ws_ctrl_rx := rx\<rparr>)" if "client_ok d" for d :: "('a, 'b) client" and rx
    by (rule v [OF that]) simp
  show ?thesis unfolding tame_def drain_ws_ctrl_def Let_def
    using t f k w by (auto split: option.splits)
qed

lemma pump_scan_tame: "pump_scan now st ws c = (kept, removed, c') \<Longrightarrow> ident c' = ident c \<and> cap_view c' = cap_view c"
proof (induction ws arbitrary: c kept removed c')
  case (Cons w ws)
  then show ?case by (auto simp: Let_def split: wait_verdict.splits prod.splits)
qed simp

lemma tame_pump: "tame (pump_keyframe_waits now st)"
proof -
  have "ident (pump_keyframe_waits now st c) = ident c \<and> cap_view (pump_keyframe_waits now st c) = cap_view c" for c :: "('a, 'b) client"
    unfolding pump_keyframe_waits_def by (auto dest: pump_scan_tame split: prod.splits)
  then show ?thesis by (intro tameI) simp_all
qed


section \<open>Delivery and the pacer pass\<close>

lemma pending_observe: "pending_propagated (observe_keyframe now og d c) = pending_propagated c"
  by (simp add: observe_keyframe_def terminate_waits_def Let_def)

lemma pending_bump [simp]: "pending_propagated (bump m c) = pending_propagated c"
  by (simp add: bump_def)

lemma pending_write: "pending_propagated (write_media api now og d kind m c) = pending_propagated c"
  by (simp add: write_media_def Let_def pending_observe split: option.splits prod.splits)

lemma pending_forward: "pending_propagated (forward_media api now st og d c) = pending_propagated c"
  by (simp add: forward_media_def Let_def pending_write split: option.splits)

lemma pending_media_out: "handle_media_data_out api now st og d c = Done c' \<Longrightarrow> pending_propagated c' = pending_propagated c"
  by (auto simp: handle_media_data_out_def dd_filter_def Let_def pending_forward split: option.splits if_splits out.splits bool.splits)

lemma media_out_ok:
  assumes "client_ok c"
  shows "\<exists>c'. handle_media_data_out api now st og d c = Done c' \<and> client_ok c'"
proof -
  from assms obtain f where "sub_inv f c" by (auto simp: client_ok_def)
  from sub_step_inv [OF this, of api "Packet now st og d"] obtain c' f' where
    "handle_media_data_out api now st og d c = Done c'" "sub_inv f' c'" by auto
  then show ?thesis using pending_media_out assms client_okI by (metis client_ok_def)
qed

lemma deliver_ok:
  assumes "client_ok c"
  shows "\<exists>c'. deliver api now wall st p og c = Done c' \<and> client_ok c'"
proof (cases "is_media p")
  case True
  then obtain i d where "p = MediaData i d" by (cases p) (auto simp: is_media_def)
  then show ?thesis using media_out_ok [OF assms] by (simp add: deliver_def)
next
  case False
  have "\<exists>c'. deliver api now wall st p og c = Done c' \<and> cap_view c' = cap_view c"
    using False by (cases p) (auto simp: deliver_def is_media_def cap_simps)
  then show ?thesis using client_ok_view [OF assms] by blast
qed

lemma each_out_ok:
  "(\<And>x. x \<in> set xs \<Longrightarrow> \<exists>y. f x = Done y \<and> Q y) \<Longrightarrow> \<exists>ys. each_out f xs = Done ys \<and> list_all Q ys"
proof (induction xs)
  case (Cons x xs)
  obtain y where "f x = Done y" "Q y" using Cons.prems [of x] by auto
  moreover obtain ys where "each_out f xs = Done ys" "list_all Q ys" using Cons by auto
  ultimately show ?case by simp
qed simp

lemma fanout_ok:
  assumes "list_all client_ok cs"
  shows "\<exists>cs'. fanout api now wall st p cs = Done cs' \<and> list_all client_ok cs'"
proof -
  have e: "\<exists>cs'. each_out (\<lambda>c. if cl_id c = og then Done c else deliver api now wall st q og c) cs = Done cs' \<and> list_all client_ok cs'"
    for q og
    by (rule each_out_ok) (use assms in \<open>auto simp: list_all_iff intro: deliver_ok\<close>)
  have m: "list_all client_ok (map g cs)" if "\<And>c. cap_view (g c) = cap_view c" for g :: "('a, 'b) client \<Rightarrow> ('a, 'b) client"
    using assms that client_ok_view by (fastforce simp: list_all_iff)
  show ?thesis using assms e
    by (cases p) (auto simp: fanout_def cap_simps intro!: m)
qed

lemma pace_client_ok:
  "ident (fst (pace_client api fl now st available est c)) = ident c \<and>
    (client_ok c \<longrightarrow> client_ok (fst (pace_client api fl now st available est c)))"
proof (rule pace_client_cases [of fl now c api est available st])
  fix tick_ready c1 chosen c2 ms1 c3 q1 c4 q2 c5 ms2
  assume s: "pace_tick fl now c = (tick_ready, c1)"
    "pace_choose api fl (map_option fst est) available tick_ready c1 = (chosen, c2, ms1)"
    "pace_switch now st (desired_layer c) chosen c2 = (c3, q1)" "tier_step c3 = (c4, q2)"
    "pace_cap fl tick_ready (map_option fst est) c4 = (c5, ms2)" "fst (pace_client api fl now st available est c) = c5"
  have 1: "ident c1 = ident c \<and> cap_view c1 = cap_view c" by (rule tick_frame [OF s(1)])
  have 2: "ident c2 = ident c1 \<and> cap_view c2 = cap_view c1"
    using s(2) pacer_select_frame [of api "map_option fst est" available c1]
    by (auto simp: pace_choose_def split: if_splits prod.splits)
  have 3: "ident c3 = ident c2 \<and> cap_view c3 = cap_view c2"
    using s(3) emit_frame [of now st _ c2 "[]"] by (auto simp: pace_switch_def split: option.splits if_splits)
  have 4: "ident c4 = ident c3 \<and> cap_view c4 = cap_view c3" by (rule tier_frame [OF s(4)])
  have ok4: "client_ok c \<Longrightarrow> client_ok c4" using 1 2 3 4 client_ok_view by metis
  have e: "ident (snd (bwe_select_temporal_cap b d)) = ident d" for b and d :: "('a, 'b) client"
    by (simp add: bwe_select_temporal_cap_def invalidate_dd_cache_on_cap_engage_def Let_def)
  have b: "client_ok (snd (bwe_select_temporal_cap b d))" if "client_ok d" for b and d :: "('a, 'b) client"
  proof -
    from that obtain f where "sub_inv f d" by (auto simp: client_ok_def)
    from sub_step_inv [OF this, of api "Estimate b"] obtain f' where "sub_inv f' (snd (bwe_select_temporal_cap b d))" by auto
    then show ?thesis using that
      by (intro client_okI) (auto simp: client_ok_def bwe_select_temporal_cap_def invalidate_dd_cache_on_cap_engage_def Let_def)
  qed
  have "ident c5 = ident c4 \<and> (client_ok c4 \<longrightarrow> client_ok c5)"
    using s(5) e [of "map_option fst est" c4] b [of c4 "map_option fst est"]
    by (auto simp: pace_cap_def split: if_splits prod.splits)
  then show ?thesis using 1 2 3 4 ok4 s(6) by simp
qed

lemma pace_all_ok:
  "pace_all api kit fl now st available cs bw = (cs', bw', q, ms) \<Longrightarrow>
    map ident cs' = map ident cs \<and> (list_all client_ok cs \<longrightarrow> list_all client_ok cs')"
proof (induction cs arbitrary: bw cs' bw' q ms)
  case (Cons c cs)
  show ?case
    by (rule pace_all_Cons [OF Cons.prems]) (auto simp: pace_client_ok dest: Cons.IH)
qed simp


section \<open>The participants gauge\<close>

definition participants :: "metric list \<Rightarrow> int" where
  "participants ms =
    int (count_list ms (Inc ''active_participants'' [])) - int (count_list ms (Dec ''active_participants'' []))"

definition neutral :: "metric \<Rightarrow> bool" where
  "neutral m \<longleftrightarrow> m \<noteq> Inc ''active_participants'' [] \<and> m \<noteq> Dec ''active_participants'' []"

lemma neutral_simps [simp]:
  "neutral (Inc n (l # ls))" "neutral (Dec n (l # ls))" "neutral (IncBy n ls k)" "neutral (SetGauge n ls k)"
  "neutral (Observe n k)" "neutral (RemoveLabels n ls)"
  by (simp_all add: neutral_def)

lemma participants_append [simp]: "participants (xs @ ys) = participants xs + participants ys"
  by (simp add: participants_def)

lemma participants_Cons [simp]:
  "participants [] = 0"
  "participants (m # ms) =
    (if m = Inc ''active_participants'' [] then 1 else if m = Dec ''active_participants'' [] then - 1 else 0) + participants ms"
  by (simp_all add: participants_def)

lemma participants_neutral: "list_all neutral ms \<Longrightarrow> participants ms = 0"
  by (induction ms) (auto simp: neutral_def)

lemma neutral_scrub: "list_all neutral (scrub_series peer)" "list_all neutral (channel_gauges c)"
  by (simp_all add: scrub_series_def channel_gauges_def PACER_RID_LABELS_def)

lemma neutral_pace:
  "list_all neutral (snd (snd (pace_client api fl now st available est c)))"
proof -
  have a: "list_all neutral (estimate_log peer e)" "list_all neutral (chosen_log peer r ch)" for peer e r ch
    by (auto simp: estimate_log_def chosen_log_def split: option.splits)
  have b: "pace_choose api fl b av t d = (ch, d', ms) \<Longrightarrow> list_all neutral ms" for b av t d ch d' ms
    by (auto simp: pace_choose_def split: if_splits prod.splits)
  have k: "pace_cap fl t b d = (d', ms) \<Longrightarrow> list_all neutral ms" for t b and d d' :: "('a, 'b) client" and ms
    by (auto simp: pace_cap_def split: if_splits prod.splits)
  show ?thesis unfolding pace_client_def Let_def by (auto simp: a dest: b k split: prod.splits)
qed

lemma neutral_pace_all:
  "pace_all api kit fl now st available cs bw = (cs', bw', q, ms) \<Longrightarrow> list_all neutral ms"
proof (induction cs arbitrary: bw cs' bw' q ms)
  case (Cons c cs)
  obtain est bw1 where e: "bw_estimate_with_term kit bw (cl_id c) now = (est, bw1)"
    by (cases "bw_estimate_with_term kit bw (cl_id c) now")
  obtain c' q1 ms1 where p: "pace_client api fl now st available est c = (c', q1, ms1)"
    by (cases "pace_client api fl now st available est c")
  obtain cs2 bw2 qs mss where r: "pace_all api kit fl now st available cs bw1 = (cs2, bw2, qs, mss)"
    by (cases "pace_all api kit fl now st available cs bw1")
  have "list_all neutral ms1" using neutral_pace [of api fl now st available est c] by (simp add: p)
  then show ?case using Cons.prems Cons.IH [OF r] by (auto simp: e p r)
qed simp

section \<open>The invariant of a room\<close>

definition sessions :: "('r, 'p) client list \<Rightarrow> nat option list" where
  "sessions cs = filter (\<lambda>x. x \<noteq> None) (map external_peer_id cs)"

definition room_ok :: "('r, 'p) client list \<Rightarrow> bool" where
  "room_ok cs \<longleftrightarrow> distinct (map cl_id cs) \<and> distinct (sessions cs) \<and> list_all client_ok cs"

definition reg_ok :: "('r, 'p, 'b, 'd) registry \<Rightarrow> bool" where
  "reg_ok reg \<longleftrightarrow> room_ok (clients reg) \<and> (solo_since reg \<noteq> None \<longrightarrow> length (clients reg) = 1) \<and>
    participants (reg_metrics reg) = int (length (clients reg)) \<and> queue_ok (to_propagate reg)"

lemma room_ok_ident:
  assumes "room_ok cs" and "map ident cs' = map ident cs" and "list_all client_ok cs'"
  shows "room_ok cs'"
proof -
  have "map cl_id xs = map fst (map ident xs)" "map external_peer_id xs = map snd (map ident xs)" for xs :: "('x, 'y) client list"
    by (simp_all add: ident_def comp_def)
  then show ?thesis using assms unfolding room_ok_def sessions_def by metis
qed

lemma room_ok_tame: "room_ok cs \<Longrightarrow> tame f \<Longrightarrow> room_ok (map f cs)"
  by (rule room_ok_ident, assumption) (auto simp: tame_def room_ok_def list_all_iff comp_def)

lemma room_ok_update_first:
  assumes "room_ok cs" and "tame f"
  shows "room_ok (update_first p f cs)"
proof (rule room_ok_ident [OF assms(1)])
  show "map ident (update_first p f cs) = map ident cs" using assms(2) by (induction cs) (auto simp: tame_def)
  have "list_all client_ok cs" using assms(1) by (simp add: room_ok_def)
  then show "list_all client_ok (update_first p f cs)" using assms(2) by (induction cs) (auto simp: tame_def)
qed

lemma length_update_first [simp]: "length (update_first p f xs) = length xs"
  by (induction xs) auto

lemma room_ok_mset:
  assumes "room_ok cs" and "mset cs' \<subseteq># mset cs"
  shows "room_ok cs'"
proof -
  from assms(2) obtain A where "mset cs = mset cs' + A" by (auto simp: subset_mset.le_iff_add)
  moreover obtain xs where "mset xs = A" using ex_mset by blast
  ultimately have m: "mset cs = mset (cs' @ xs)" by simp
  have "distinct (map cl_id (cs' @ xs))" "distinct (sessions (cs' @ xs))" "list_all client_ok (cs' @ xs)"
  proof -
    show "distinct (map cl_id (cs' @ xs))"
      using assms(1) mset_eq_imp_distinct_iff [of "map cl_id cs" "map cl_id (cs' @ xs)"] m by (simp add: room_ok_def)
    have "mset (sessions cs) = mset (sessions (cs' @ xs))" 
      using arg_cong [OF m, of "\<lambda>M. filter_mset (\<lambda>x. x \<noteq> None) (image_mset external_peer_id M)"]
      by (simp add: sessions_def)
    then show "distinct (sessions (cs' @ xs))"
      using assms(1) mset_eq_imp_distinct_iff [of "sessions cs" "sessions (cs' @ xs)"] by (simp add: room_ok_def)
    show "list_all client_ok (cs' @ xs)" using assms(1) mset_eq_setD [OF m] by (simp add: room_ok_def list_all_iff)
  qed
  then show ?thesis by (simp add: room_ok_def sessions_def)
qed

lemma swap_remove_mset: "i < length xs \<Longrightarrow> mset (swap_remove i xs) = mset xs - {#xs ! i#}"
proof -
  assume i: "i < length xs"
  then have x: "xs = butlast xs @ [last xs]" by (cases xs) simp_all
  show ?thesis
  proof (cases "Suc i = length xs")
    case True
    then have "xs ! i = last xs" using i by (metis diff_Suc_1 last_conv_nth length_0_conv nat.distinct(1))
    moreover have "mset xs = add_mset (last xs) (mset (butlast xs))" by (subst x) simp
    ultimately show ?thesis by (simp add: swap_remove_def True)
  next
    case False
    then have b: "i < length (butlast xs)" using i by simp
    have "mset xs = add_mset (last xs) (mset (butlast xs))" by (subst x) simp
    moreover have "butlast xs ! i = xs ! i" using b by (simp add: nth_butlast)
    moreover have "xs ! i \<in># mset (butlast xs)" using b calculation(2) by (metis nth_mem set_mset_mset)
    ultimately show ?thesis using False by (simp add: swap_remove_def mset_update [OF b])
  qed
qed


section \<open>Joining and leaving\<close>

lemma position_Some: "position p xs = Some i \<Longrightarrow> i < length xs \<and> p (xs ! i)"
  by (induction xs arbitrary: i) (auto split: if_splits)

lemma position_None: "position p xs = None \<Longrightarrow> x \<in> set xs \<Longrightarrow> \<not> p x"
  by (induction xs) (auto split: if_splits)

definition pid_free :: "nat option \<Rightarrow> ('r, 'p) client list \<Rightarrow> bool" where
  "pid_free pid cs \<longleftrightarrow> pid = None \<or> pid \<notin> external_peer_id ` set cs"

lemma evict_parts:
  assumes "reg_ok reg" and "position (\<lambda>c. external_peer_id c = Some pid) (clients reg) = Some i"
  shows "room_ok (clients (fst (evict_for_steal api kit i st reg)))" "pid_free (Some pid) (clients (fst (evict_for_steal api kit i st reg)))"
    "participants (reg_metrics (fst (evict_for_steal api kit i st reg))) = int (length (clients (fst (evict_for_steal api kit i st reg))))"
    "set (clients (fst (evict_for_steal api kit i st reg))) \<subseteq> set (clients reg)"
    "to_propagate (fst (evict_for_steal api kit i st reg)) = to_propagate reg"
proof -
  let ?cs = "clients reg"
  have i: "i < length ?cs" "external_peer_id (?cs ! i) = Some pid" using position_Some [OF assms(2)] by simp_all
  have c: "clients (fst (evict_for_steal api kit i st reg)) = swap_remove i ?cs" by (simp add: evict_for_steal_def log_def Let_def)
  have m: "mset (swap_remove i ?cs) = mset ?cs - {#?cs ! i#}" by (rule swap_remove_mset [OF i(1)])
  have in_cs: "?cs ! i \<in># mset ?cs" using i(1) by simp
  have r: "room_ok ?cs" using assms(1) by (simp add: reg_ok_def)
  show "room_ok (clients (fst (evict_for_steal api kit i st reg)))" unfolding c by (rule room_ok_mset [OF r]) (simp add: m)
  show "set (clients (fst (evict_for_steal api kit i st reg))) \<subseteq> set ?cs"
    unfolding c using m by (metis in_diffD set_mset_mset subsetI)
  show "to_propagate (fst (evict_for_steal api kit i st reg)) = to_propagate reg" by (simp add: evict_for_steal_def log_def Let_def)
  have len: "length (swap_remove i ?cs) = length ?cs - 1" using i(1) by (simp add: swap_remove_def)
  have "participants (reg_metrics (fst (evict_for_steal api kit i st reg))) = participants (reg_metrics reg) - 1"
    by (simp add: evict_for_steal_def log_def Let_def participants_neutral neutral_scrub)
  moreover have "int (length ?cs - 1) = int (length ?cs) - 1" using i(1) by simp
  ultimately show "participants (reg_metrics (fst (evict_for_steal api kit i st reg))) = int (length (clients (fst (evict_for_steal api kit i st reg))))"
    unfolding c using assms(1) len by (simp add: reg_ok_def)
  have "count (mset (sessions ?cs)) (Some pid) \<le> 1"
    using r distinct_count_atmost_1 [of "sessions ?cs"] by (simp add: room_ok_def)
  moreover have "mset (sessions ?cs) = add_mset (Some pid) (mset (sessions (swap_remove i ?cs)))"
  proof -
    have e: "mset (sessions xs) = filter_mset (\<lambda>x. x \<noteq> None) (image_mset external_peer_id (mset xs))" for xs :: "('a, 'b) client list"
      by (simp add: sessions_def)
    have "mset ?cs = add_mset (?cs ! i) (mset (swap_remove i ?cs))" using m in_cs by simp
    then show ?thesis unfolding e by (simp add: i(2))
  qed
  ultimately have "count (mset (sessions (swap_remove i ?cs))) (Some pid) = 0" by simp
  then have "Some pid \<notin> set (sessions (swap_remove i ?cs))" by (metis count_eq_zero_iff set_mset_mset)
  then show "pid_free (Some pid) (clients (fst (evict_for_steal api kit i st reg)))"
    unfolding c pid_free_def sessions_def by auto
qed

lemma room_ok_snoc:
  assumes "room_ok cs" and "pid_free (external_peer_id c) cs" and "cl_id c \<notin> cl_id ` set cs" and "client_ok c"
  shows "room_ok (cs @ [c])"
  using assms unfolding room_ok_def sessions_def pid_free_def by auto

definition after_steal ::
  "('r, 'p) rtc_api \<Rightarrow> ('b, 'd) kit_api \<Rightarrow> nat option \<Rightarrow> track_store \<Rightarrow> ('r, 'p, 'b, 'd) registry
    \<Rightarrow> ('r, 'p, 'b, 'd) registry \<times> track_store" where
  "after_steal api kit pid st reg =
    (case pid of
       None \<Rightarrow> (reg, st)
     | Some new_pid \<Rightarrow>
         (case position (\<lambda>c. external_peer_id c = Some new_pid) (clients reg) of
            None \<Rightarrow> (reg, st)
          | Some idx \<Rightarrow> evict_for_steal api kit idx st reg))"

lemma after_steal_parts:
  assumes "reg_ok reg"
  shows "room_ok (clients (fst (after_steal api kit pid st reg))) \<and> pid_free pid (clients (fst (after_steal api kit pid st reg))) \<and>
    participants (reg_metrics (fst (after_steal api kit pid st reg))) = int (length (clients (fst (after_steal api kit pid st reg)))) \<and>
    set (clients (fst (after_steal api kit pid st reg))) \<subseteq> set (clients reg) \<and>
    to_propagate (fst (after_steal api kit pid st reg)) = to_propagate reg"
proof (cases pid)
  case None
  then show ?thesis using assms by (simp add: after_steal_def pid_free_def reg_ok_def)
next
  case pid: (Some p)
  show ?thesis
  proof (cases "position (\<lambda>c. external_peer_id c = Some p) (clients reg)")
    case None
    have "pid_free (Some p) (clients reg)" using position_None [OF None] by (force simp: pid_free_def)
    then show ?thesis using assms pid None by (simp add: after_steal_def reg_ok_def)
  next
    case (Some idx)
    then show ?thesis using evict_parts [OF assms Some, of api kit st] pid by (simp add: after_steal_def)
  qed
qed

text \<open>What joining comes to: the steal first, then the new client with the tracks that are left.\<close>

definition joined :: "('r, 'p) rtc_api \<Rightarrow> instant \<Rightarrow> ('r, 'p, 'b, 'd) registry \<times> track_store \<Rightarrow> ('r, 'p) client \<Rightarrow> ('r, 'p) client" where
  "joined api now rs c = fold (\<lambda>(_, ref). handle_track_open api now (snd rs) ref) (published (clients (fst rs))) c"

lemma tame_joined: "tame (joined api now rs)"
  unfolding joined_def by (rule tame_fold) (auto simp: tame_track_open)

lemma insert_client_eq:
  fixes reg :: "('r, 'p, 'b, 'd) registry"
  assumes "c0 = c\<lparr>metrics := [], relay_auth_secret := reg_relay_auth_secret reg,
      relay_signing_pubkey := reg_relay_signing_pubkey reg, relay_hs256_fallback_enabled := reg_hs256_fallback_enabled reg\<rparr>"
    and "rs = after_steal api kit (external_peer_id c0) st reg"
  shows "insert_client api kit now st c reg =
      (let reg2 = log (map (\<lambda>(pub, _). Inc ''sfu_subscription_setup_total'' [show_nat pub, client_label c0, ''wired''])
             (published (clients (fst rs))) @
             [Inc ''client_connect_total'' [], Inc ''active_participants'' [], SetGauge ''active_rooms'' [] 1]) (fst rs) in
       (reg2\<lparr>detector := det_add_peer kit (detector reg2) (cl_id c0) (millis_since (detector_epoch reg2) now),
          clients := clients reg2 @ [joined api now rs c0], bandwidth := bw_enable_googcc kit (bandwidth reg2) (cl_id c0),
          solo_since := (if length (clients reg2 @ [joined api now rs c0]) = 1 then Some now else None),
          to_propagate := to_propagate reg2 @ [AudioCodecHint (cl_id c0) True True]\<rparr>, snd rs))"
  unfolding insert_client_def assms(1) [symmetric] Let_def after_steal_def [symmetric] assms(2) [symmetric] prod.case_eq_if [of _ rs]
    joined_def ..

lemma insert_ok:
  assumes "reg_ok reg" and "client_ok c" and "cl_id c \<notin> cl_id ` set (clients reg)"
  shows "reg_ok (fst (insert_client api kit now st c reg))"
proof -
  define c0 where "c0 = c\<lparr>metrics := [], relay_auth_secret := reg_relay_auth_secret reg,
    relay_signing_pubkey := reg_relay_signing_pubkey reg, relay_hs256_fallback_enabled := reg_hs256_fallback_enabled reg\<rparr>"
  define rs where "rs = after_steal api kit (external_peer_id c0) st reg"
  have i0: "ident c0 = ident c" "cap_view c0 = cap_view c" "external_peer_id c0 = external_peer_id c" by (simp_all add: c0_def)
  have c1: "ident (joined api now rs c0) = ident c" "client_ok (joined api now rs c0)"
    using tameD [OF tame_joined, of api now rs c0] i0 client_ok_view [OF assms(2) i0(2)] by simp_all
  have 1: "room_ok (clients (fst rs))" "pid_free (external_peer_id c) (clients (fst rs))"
    "participants (reg_metrics (fst rs)) = int (length (clients (fst rs)))" "set (clients (fst rs)) \<subseteq> set (clients reg)"
    "to_propagate (fst rs) = to_propagate reg"
    using after_steal_parts [OF assms(1), of api kit "external_peer_id c0" st] unfolding rs_def i0(3) by blast+
  have "room_ok (clients (fst rs) @ [joined api now rs c0])"
    using room_ok_snoc [OF 1(1), of "joined api now rs c0"] 1(2,4) assms(3) c1 by (auto simp: ident_def)
  moreover have "participants (map (\<lambda>(pub, _). Inc ''sfu_subscription_setup_total'' [show_nat pub, client_label c0, ''wired'']) xs) = 0"
    for xs :: "(client_id \<times> track_ref) list" by (rule participants_neutral) (auto simp: list_all_iff)
  moreover have "participants [Inc ''client_connect_total'' [], Inc ''active_participants'' [], SetGauge ''active_rooms'' [] 1] = 1"
    by simp
  ultimately show ?thesis unfolding insert_client_eq [OF c0_def rs_def]
    using assms(1) 1(3,5) by (simp add: reg_ok_def log_def Let_def queue_ok_def)
qed


lemma reap_one_frame:
  "clients (reap_one kit c reg) = clients reg" "to_propagate (reap_one kit c reg) = to_propagate reg"
  "solo_since (reap_one kit c reg) = solo_since reg"
  "participants (reg_metrics (reap_one kit c reg)) = participants (reg_metrics reg) - 1"
  by (simp_all add: reap_one_def log_def participants_neutral neutral_scrub)

lemma reap_fold:
  "clients (fold (reap_one kit) ds reg) = clients reg \<and> to_propagate (fold (reap_one kit) ds reg) = to_propagate reg \<and>
    solo_since (fold (reap_one kit) ds reg) = solo_since reg \<and>
    participants (reg_metrics (fold (reap_one kit) ds reg)) = participants (reg_metrics reg) - int (length ds)"
  by (induction ds arbitrary: reg) (simp_all add: reap_one_frame)

lemma reap_ok:
  assumes "reg_ok reg"
  shows "reg_ok (fst (reap_dead api kit now st reg))"
proof -
  let ?alive = "\<lambda>c. rtc_is_alive api (rtc c)"
  let ?dead = "filter (\<lambda>c. \<not> ?alive c) (clients reg)"
  have n: "int (length (filter ?alive (clients reg))) = int (length (clients reg)) - int (length ?dead)"
    using sum_length_filter_compl [of ?alive "clients reg"] by linarith
  have r: "room_ok (filter ?alive (clients reg))"
    by (rule room_ok_mset [of "clients reg"]) (use assms in \<open>simp_all add: reg_ok_def\<close>)
  show ?thesis using assms r n reap_fold [of kit ?dead reg]
    by (auto simp: reg_ok_def reap_dead_def log_def Let_def split: option.splits)
qed

lemma solo_ok: "reg_ok reg \<Longrightarrow> reg_ok (check_solo_timeout api timeout now reg)"
proof -
  assume ok: "reg_ok reg"
  have t: "tame (\<lambda>c. c\<lparr>rtc := rtc_disconnect api (rtc c)\<rparr>)" by (rule tameI) simp_all
  show ?thesis using ok room_ok_tame [OF _ t, of "clients reg"]
    by (auto simp: check_solo_timeout_def reg_ok_def log_def split: list.splits option.splits)
qed

lemma tame_origin: "tame (set_origin og)"
  by (rule tameI) (simp_all add: set_origin_def)

lemma mark_ok: "reg_ok reg \<Longrightarrow> reg_ok (mark_relay_source kit cid url reg)"
  by (auto simp: mark_relay_source_def reg_ok_def room_ok_update_first tame_origin)

section \<open>The event queue\<close>

lemma tame_set_cap: "n < 256 \<Longrightarrow> tame (set_max_vfm_temporal_layer n)"
proof -
  assume n: "n < 256"
  have "client_ok (set_max_vfm_temporal_layer n c)" if "client_ok c" for c :: "('a, 'b) client"
  proof -
    from that obtain f where "sub_inv f c" by (auto simp: client_ok_def)
    from sub_step_inv [OF this, of api "SetCap n"] n obtain f' where "sub_inv f' (set_max_vfm_temporal_layer n c)" by auto
    then show ?thesis using that
      by (intro client_okI) (auto simp: client_ok_def set_max_vfm_temporal_layer_def invalidate_dd_cache_on_cap_engage_def Let_def)
  qed
  then show ?thesis
    by (auto simp: tame_def set_max_vfm_temporal_layer_def invalidate_dd_cache_on_cap_engage_def Let_def)
qed

lemma pace_client_queue_ok: "queue_ok (fst (snd (pace_client api fl now st available est c)))"
proof (rule pace_client_cases [of fl now c api est available st])
  fix tick_ready c1 chosen c2 ms1 c3 q1 c4 q2 c5 ms2
  assume d: "pace_switch now st (desired_layer c) chosen c2 = (c3, q1)" and e: "tier_step c3 = (c4, q2)"
    and q: "fst (snd (pace_client api fl now st available est c)) = q1 @ q2"
  have "queue_ok q1" using d
    by (auto simp: pace_switch_def emit_keyframe_on_layer_switch_def switch_requests_def queue_ok_def list_all_iff Let_def
        split: option.splits if_splits)
  moreover have "queue_ok q2" using e by (auto simp: tier_step_def queue_ok_def Let_def split: option.splits if_splits)
  ultimately show ?thesis by (simp add: q)
qed

lemma pace_all_queue_ok: "pace_all api kit fl now st available cs bw = (cs', bw', q, ms) \<Longrightarrow> queue_ok q"
proof (induction cs arbitrary: bw cs' bw' q ms)
  case (Cons c cs)
  show ?case
    by (rule pace_all_Cons [OF Cons.prems]) (simp add: Cons.IH pace_client_queue_ok)
qed (simp add: queue_ok_def)

lemma update_pacer_ok: "reg_ok reg \<Longrightarrow> reg_ok (update_pacer_layers api kit fl now st og reg)"
proof -
  assume ok: "reg_ok reg"
  define av where "av = (let rs = (case find (\<lambda>c. cl_id c = og) (clients reg) of None \<Rightarrow> [] | Some c \<Rightarrow> active_rids c) in
    if rs = [] then DEFAULT_SIMULCAST_LADDER else rs)"
  obtain cs bw q ms where p: "pace_all api kit fl now st av (clients reg) (bandwidth reg) = (cs, bw, q, ms)"
    by (cases "pace_all api kit fl now st av (clients reg) (bandwidth reg)")
  have u: "update_pacer_layers api kit fl now st og reg =
      log ms (reg\<lparr>clients := cs, bandwidth := bw, to_propagate := to_propagate reg @ q\<rparr>)"
    using p by (simp add: update_pacer_layers_def av_def Let_def)
  have i: "map ident cs = map ident (clients reg)" "list_all client_ok cs"
    using pace_all_ok [OF p] ok by (simp_all add: reg_ok_def room_ok_def)
  have "room_ok cs" using ok by (intro room_ok_ident [OF _ i]) (simp add: reg_ok_def)
  moreover have "length cs = length (clients reg)" using i(1) by (metis length_map)
  ultimately show ?thesis
    using ok participants_neutral [OF neutral_pace_all [OF p]] pace_all_queue_ok [OF p]
    by (simp add: u reg_ok_def log_def)
qed

lemma consume_ok:
  assumes "reg_ok reg" and "queue_ok [p]" and "consume api kit fl now st p reg = (b, reg1)"
  shows "reg_ok reg1"
proof -
  have v: "reg_ok (reg\<lparr>clients := update_first f1 (set_max_vfm_temporal_layer n) (clients reg)\<rparr>)" if "n < 256" for f1 n
    using assms(1) room_ok_update_first [OF _ tame_set_cap [OF that], of "clients reg" f1] by (auto simp: reg_ok_def)
  have w: "reg_ok (log [IncBy nm ls k] reg)" for nm ls k using assms(1) by (simp add: reg_ok_def log_def)
  have b: "reg_ok (reg\<lparr>bandwidth := bw\<rparr>)" for bw using assms(1) by (simp add: reg_ok_def)
  show ?thesis using assms v w b
    by (cases p) (auto simp: consume_def queue_ok_def mark_ok update_pacer_ok)
qed

lemma fanout_pending_ok:
  "reg_ok reg \<Longrightarrow> \<exists>reg'. fanout_pending api kit fl now wall st reg = Done reg' \<and> reg_ok reg' \<and> to_propagate reg' = []"
proof (induction api kit fl now wall st reg rule: fanout_pending.induct)
  case (1 api kit fl now wall st reg)
  show ?case
  proof (cases "to_propagate reg")
    case Nil
    then show ?thesis using 1(3) by (subst fanout_pending.simps) simp
  next
    case (Cons p ps)
    let ?r0 = "reg\<lparr>to_propagate := ps\<rparr>"
    have r0: "reg_ok ?r0" "queue_ok [p]" using 1(3) Cons by (simp_all add: reg_ok_def queue_ok_def)
    obtain b reg1 where c: "consume api kit fl now st p ?r0 = (b, reg1)" by (cases "consume api kit fl now st p ?r0")
    have ok1: "reg_ok reg1" by (rule consume_ok [OF r0 c])
    show ?thesis
    proof (cases b)
      case True
      then show ?thesis using 1(1) [OF Cons c [symmetric] _ ok1] Cons c by (subst fanout_pending.simps) simp
    next
      case False
      from ok1 have "list_all client_ok (clients reg1)" by (simp add: reg_ok_def room_ok_def)
      from fanout_ok [OF this, of api now wall st p] obtain cs where
        f: "fanout api now wall st p (clients reg1) = Done cs" "list_all client_ok cs" by blast
      have i: "map ident cs = map ident (clients reg1)" by (rule fanout_ident [OF f(1)])
      have "room_ok cs" using ok1 by (intro room_ok_ident [OF _ i f(2)]) (simp add: reg_ok_def)
      moreover have "length cs = length (clients reg1)" using i by (metis length_map)
      ultimately have "reg_ok (reg1\<lparr>clients := cs\<rparr>)" using ok1 by (simp add: reg_ok_def)
      from 1(2) [OF Cons c [symmetric] _ f(1) this] False show ?thesis
        using Cons c f(1) by (subst fanout_pending.simps) simp
    qed
  qed
qed


section \<open>Polling\<close>

lemma event_queue_ok: "event_ok cid label data ev \<Longrightarrow> queue_ok [ev]"
  by (cases ev) (auto simp: event_ok_def queue_ok_def)

lemma throttled_frame:
  "ident (request_keyframe_throttled api now m r k c) = ident c \<and> cap_view (request_keyframe_throttled api now m r k c) = cap_view c"
  by (simp add: request_keyframe_throttled_def mark_requested_def split: option.splits)

lemma media_frame:
  "track_in_media api now d c = (ev, c') \<Longrightarrow> ident c' = ident c \<and> cap_view c' = cap_view c \<and> queue_ok [ev]"
  by (auto simp: track_in_media_def throttled_frame queue_ok_def Let_def split: option.splits if_splits)

lemma stat_frame [simp]:
  "ident (set_if nm ls v c) = ident c" "cap_view (set_if nm ls v c) = cap_view c"
  "ident (inc_if nm ls n c) = ident c" "cap_view (inc_if nm ls n c) = cap_view c"
  by (simp_all add: set_if_def inc_if_def split: option.splits)

lemma connected_frame:
  "ident (on_connected api js c) = ident c \<and> cap_view (on_connected api js c) = cap_view c"
  by (simp add: on_connected_def Let_def split: option.splits)

lemma handle_event_ok:
  "\<exists>ev c' st'. handle_event api lib js p now unix ref st e c = Done (ev, c', st') \<and>
    ident c' = ident c \<and> cap_view c' = cap_view c \<and> queue_ok [ev]"
proof (cases e)
  case (ChannelData i data)
  obtain ev where "handle_channel_data lib unix p (cl_id c) (channel_label api c i) data (relay_auth_secret c)
      (relay_signing_pubkey c) (relay_hs256_fallback_enabled c) = Done ev" "queue_ok [ev]"
    using channel_event_ok [of lib unix p "cl_id c" "channel_label api c i" data "relay_auth_secret c"
        "relay_signing_pubkey c" "relay_hs256_fallback_enabled c"] event_queue_ok by blast
  then show ?thesis by (simp add: handle_event_def ChannelData Let_def)
next
  case (Media d)
  obtain ev c' where "track_in_media api now d c = (ev, c')" by (cases "track_in_media api now d c")
  with media_frame [OF this] show ?thesis by (simp add: handle_event_def Media)
next
  case (KeyframeReq req)
  have "queue_ok [incoming_keyframe_req st c req]"
    by (simp add: incoming_keyframe_req_def queue_ok_def split: option.splits)
  then show ?thesis by (simp add: handle_event_def KeyframeReq)
next
  case (MediaAdded m kind d)
  then show ?thesis by (simp add: handle_event_def track_in_added_def open_negotiated_def queue_ok_def)
qed (simp_all add: handle_event_def queue_ok_def connected_frame Let_def)

lemma poll_once_ok:
  "\<exists>ev c' st'. poll_once env st c = Done (ev, c', st') \<and> ident c' = ident c \<and> cap_view c' = cap_view c \<and> queue_ok [ev]"
proof -
  have h: "\<exists>ev c' st'. handle_output api lib js p now unix ref st out1 d = Done (ev, c', st') \<and>
      ident c' = ident d \<and> cap_view c' = cap_view d \<and> queue_ok [ev]" for api lib js p now unix ref out1 and d :: "('a, 'b) client"
  proof (cases out1)
    case (Event e)
    show ?thesis
      using handle_event_ok [of api lib js p now unix ref st e "bump (Inc ''sfu_str0m_output_total'' [client_label d, kind_of_output out1]) d"]
      by (simp add: handle_output_def Event Let_def)
  qed (simp_all add: handle_output_def queue_ok_def Let_def)
  show ?thesis
  proof (cases "pe_poll env (rtc c)")
    case (Pair out1 r)
    show ?thesis
      using h [of "pe_api env" "pe_lib env" "pe_json_str env" "pe_policy env" "pe_now env" "pe_unix env" "pe_fresh env st" _ "c\<lparr>rtc := r\<rparr>"] Pair
      by (cases out1) (auto simp: poll_once_def poll_output_def queue_ok_def Let_def)
  qed
qed

lemma observe_queue: "pp_queue (observe_media env c ev ps) = pp_queue ps"
  by (simp add: observe_media_def Let_def split: propagated.splits option.splits)

definition polled ::
  "('r, 'p) client \<Rightarrow> 'd poll_pass \<Rightarrow> (('r, 'p) client \<times> 'd poll_pass) out \<Rightarrow> bool" where
  "polled c ps r \<longleftrightarrow> (\<exists>c' ps'. r = Done (c', ps') \<and> ident c' = ident c \<and> (client_ok c \<longrightarrow> client_ok c') \<and>
    (queue_ok (pp_queue ps) \<longrightarrow> queue_ok (pp_queue ps')))"

lemma polled_refl: "polled c ps (Done (c, ps))"
  by (simp add: polled_def)

lemma polled_step:
  assumes "polled c1 ps1 r" and "ident c1 = ident c" and "cap_view c1 = cap_view c"
    and "queue_ok (pp_queue ps) \<Longrightarrow> queue_ok (pp_queue ps1)"
  shows "polled c ps r"
  using assms client_ok_view [OF _ assms(3)] unfolding polled_def by metis

lemma poll_client_ok:
  fixes env :: "('a, 'b, 'c, 'd) poll_env"
  shows "poll_client env c ps = Some r \<Longrightarrow> polled c ps r"
proof (erule poll_client.raw_induct [where P = "\<lambda>_ c ps r. polled c ps r", rotated])
  fix pc :: "('a, 'b, 'c, 'd) poll_env \<Rightarrow> ('a, 'b) client \<Rightarrow> 'd poll_pass \<Rightarrow> (('a, 'b) client \<times> 'd poll_pass) out option"
    and env c ps r
  assume 1: "\<And>env c ps r. pc env c ps = Some r \<Longrightarrow> polled c ps r"
    and 2: "(if \<not> rtc_is_alive (pe_api env) (rtc c) then Some (Done (c, ps))
      else case poll_once env (pp_store ps) c of Panic \<Rightarrow> Some Panic | Fail \<Rightarrow> Some Fail
        | Done (ev, c1, st1) \<Rightarrow>
            let ps1 = ps\<lparr>pp_store := st1\<rparr>
            in case ev of Noop \<Rightarrow> pc env c1 ps1
              | Timeout t \<Rightarrow> Some (Done (c1, ps1\<lparr>pp_deadline := min (pp_deadline ps1) t\<rparr>))
              | _ \<Rightarrow> pc env c1 ((observe_media env c1 ev ps1)\<lparr>pp_queue := pp_queue ps1 @ [ev]\<rparr>)) = Some r"
  obtain ev c1 st1 where o1: "poll_once env (pp_store ps) c = Done (ev, c1, st1)" "ident c1 = ident c"
    "cap_view c1 = cap_view c" "queue_ok [ev]" using poll_once_ok by blast
  let ?ps1 = "ps\<lparr>pp_store := st1\<rparr>"
  have stop: "polled c ps (Done (c1, ?ps1\<lparr>pp_deadline := t\<rparr>))" for t
    by (rule polled_step [OF polled_refl o1(2,3)]) simp
  have go: "polled c ps r" if "pc env c1 ps2 = Some r" "pp_queue ps2 = pp_queue ps \<or> pp_queue ps2 = pp_queue ps @ [ev]" for ps2
    by (rule polled_step [OF 1 [OF that(1)] o1(2,3)]) (use that(2) o1(4) in auto)
  show "polled c ps r"
  proof (cases "rtc_is_alive (pe_api env) (rtc c)")
    case False
    then show ?thesis using 2 polled_refl [of c ps] by simp
  next
    case alive: True
    let ?ps2 = "(observe_media env c1 ev ?ps1)\<lparr>pp_queue := pp_queue ?ps1 @ [ev]\<rparr>"
    have "r = Done (c1, ?ps1\<lparr>pp_deadline := min (pp_deadline ?ps1) t\<rparr>) \<or> pc env c1 ?ps1 = Some r \<or> pc env c1 ?ps2 = Some r"
      if "ev = Timeout t" for t using 2 alive o1 that by simp
    moreover have "pc env c1 ?ps1 = Some r \<or> pc env c1 ?ps2 = Some r" if "\<forall>t. ev \<noteq> Timeout t"
      using 2 alive o1 that by (cases ev) (simp_all add: Let_def)
    ultimately consider t where "r = Done (c1, ?ps1\<lparr>pp_deadline := min (pp_deadline ?ps1) t\<rparr>)"
      | "pc env c1 ?ps1 = Some r" | "pc env c1 ?ps2 = Some r" by blast
    then show ?thesis using stop go [of ?ps1] go [of ?ps2] by cases auto
  qed
qed

lemma poll_clients_ok:
  assumes "poll_clients env cs ps = Some r"
  shows "\<exists>cs' ps'. r = Done (cs', ps') \<and> map ident cs' = map ident cs \<and> (list_all client_ok cs \<longrightarrow> list_all client_ok cs') \<and>
    (queue_ok (pp_queue ps) \<longrightarrow> queue_ok (pp_queue ps'))"
  using assms
proof (induction cs arbitrary: ps r)
  case (Cons c cs)
  obtain r1 where r1: "poll_client env c ps = Some r1" using Cons.prems by (auto split: option.splits)
  obtain c1 ps1 where c1: "r1 = Done (c1, ps1)" "ident c1 = ident c" "client_ok c \<longrightarrow> client_ok c1"
    "queue_ok (pp_queue ps) \<longrightarrow> queue_ok (pp_queue ps1)"
    using poll_client_ok [OF r1] by (auto simp: polled_def)
  obtain r2 where r2: "poll_clients env cs ps1 = Some r2" using Cons.prems r1 c1 by (auto split: option.splits)
  from Cons.IH [OF r2] show ?case using Cons.prems r1 c1 r2 by auto
qed simp

lemma poll_all_ok:
  assumes "reg_ok reg" and "poll_all env st reg = Some r"
  shows "\<exists>t reg' st'. r = Done (t, reg', st') \<and> reg_ok reg'"
proof -
  let ?ps = "\<lparr>pp_store = st, pp_queue = to_propagate reg, pp_detector = detector reg, pp_timing = None,
             pp_deadline = pe_now env + 100000000\<rparr>"
  obtain r1 where r1: "poll_clients env (clients reg) ?ps = Some r1"
    using assms(2) by (auto simp: poll_all_def split: option.splits)
  from poll_clients_ok [OF r1] obtain cs ps where c: "r1 = Done (cs, ps)" "map ident cs = map ident (clients reg)"
    "list_all client_ok (clients reg) \<longrightarrow> list_all client_ok cs" "queue_ok (to_propagate reg) \<longrightarrow> queue_ok (pp_queue ps)" by auto
  have "list_all client_ok cs" using c(3) assms(1) by (simp add: reg_ok_def room_ok_def)
  then have "room_ok cs" using assms(1) by (intro room_ok_ident [OF _ c(2)]) (simp_all add: reg_ok_def)
  moreover have "length cs = length (clients reg)" using c(2) by (metis length_map)
  ultimately show ?thesis using assms r1 c(1,4) by (auto simp: poll_all_def reg_ok_def)
qed


section \<open>The other passes\<close>

lemma map_ok:
  assumes "reg_ok reg" and "tame f"
  shows "reg_ok (reg\<lparr>clients := map f (clients reg)\<rparr>)"
  using assms room_ok_tame [OF _ assms(2)] by (auto simp: reg_ok_def)

lemma queue_ok_concat: "list_all client_ok cs \<Longrightarrow> queue_ok (concat (map pending_propagated cs))"
  by (induction cs) (auto simp: client_ok_def queue_ok_def)

lemma pump_ok:
  assumes "reg_ok reg"
  shows "reg_ok (pump_ws_ctrl api now st reg)"
proof -
  let ?f = "\<lambda>c. pump_keyframe_waits now st (drain_ws_ctrl api now st c)"
  let ?cs = "map ?f (clients reg)"
  have t: "tame ?f" by (rule tame_comp [OF tame_drain tame_pump])
  have ok: "room_ok ?cs" using assms by (intro room_ok_tame [OF _ t]) (simp add: reg_ok_def)
  have taken: "tame (\<lambda>c. c\<lparr>pending_propagated := []\<rparr>)" by (simp add: tame_def client_ok_taken)
  have "room_ok (map (\<lambda>c. c\<lparr>pending_propagated := []\<rparr>) ?cs)" by (rule room_ok_tame [OF ok taken])
  moreover have "queue_ok (concat (map pending_propagated ?cs))"
    using ok by (intro queue_ok_concat) (simp add: room_ok_def)
  ultimately show ?thesis using assms by (simp add: reg_ok_def pump_ws_ctrl_def Let_def)
qed

lemma active_speaker_ok: "reg_ok reg \<Longrightarrow> reg_ok (tick_active_speaker kit now reg)"
  by (auto simp: tick_active_speaker_def log_def reg_ok_def queue_ok_def split: prod.splits option.splits)

lemma speaker_scores_ok: "reg_ok reg \<Longrightarrow> reg_ok (tick_speaker_scores kit reg)"
proof -
  assume ok: "reg_ok reg"
  have n: "list_all neutral (concat (map (\<lambda>(pid, imm, med, lng).
             [SetGauge ''speaker_immediate'' [show_nat pid] imm, SetGauge ''speaker_medium'' [show_nat pid] med,
              SetGauge ''speaker_long'' [show_nat pid] lng]) xs))" for xs
    by (induction xs) auto
  show ?thesis using ok
    by (simp add: tick_speaker_scores_def log_def reg_ok_def queue_ok_def participants_neutral [OF n] Let_def)
qed

lemma tame_input: "tame (handle_input api feed i)"
  by (rule tameI) (simp_all add: handle_input_def Let_def split: prod.splits bool.splits)

lemma tick_ok: "reg_ok reg \<Longrightarrow> reg_ok (tick api feed now reg)"
  unfolding tick_def by (rule map_ok [OF _ tame_input])

lemma hints_ok: "reg_ok reg \<Longrightarrow> reg_ok (emit_publisher_layer_hints st reg)"
proof -
  assume ok: "reg_ok reg"
  have "queue_ok (map (\<lambda>(pub, r). PublisherLayerHint pub r) xs)" for xs
    by (induction xs) (auto simp: queue_ok_def)
  then show ?thesis using ok by (simp add: emit_publisher_layer_hints_def reg_ok_def)
qed

lemma incoming_ok: "reg_ok reg \<Longrightarrow> reg_ok (snd (handle_incoming api decode accepts feed m reg))"
  using room_ok_update_first [OF _ tame_input]
  by (auto simp: handle_incoming_def reg_ok_def split: option.splits)

lemma drain_ok: "reg_ok reg \<Longrightarrow> reg_ok (snd (drain_transmits reg))"
  unfolding drain_transmits_def snd_conv
  by (erule map_ok) (rule tameI; simp add: drain_pending_out_def)

end
