(* ===== verification/Sfu_Loop.thy ===== *)
theory Sfu_Loop
  imports Sfu_Room
begin

text \<open>
  The UDP loop of the SFU (\<open>src/crates/sfu/src/udp_loop.rs\<close>): the pass over the registry, the arms of
  its \<open>select!\<close>, and the flush of outbound datagrams with its filter of bogon destinations.
\<close>

unbundle bit_operations_syntax

section \<open>Bogon destinations\<close>

text \<open>\<open>octets()\<close> and the predicates of \<open>std::net\<close> the classifier calls.\<close>

definition octet :: "nat \<Rightarrow> 32 word \<Rightarrow> nat" where
  "octet i a = unat (drop_bit (24 - 8 * i) a) mod 256"

definition segment0 :: "128 word \<Rightarrow> 16 word" where
  "segment0 a = ucast (drop_bit 112 a)"

definition is_private :: "32 word \<Rightarrow> bool" where
  "is_private a \<longleftrightarrow> octet 0 a = 10 \<or> octet 0 a = 172 \<and> 16 \<le> octet 1 a \<and> octet 1 a \<le> 31 \<or>
    octet 0 a = 192 \<and> octet 1 a = 168"

fun is_bogon_ip :: "ip_addr \<Rightarrow> string option" where
  "is_bogon_ip (V4 a) =
    (if octet 0 a = 127 then Some ''loopback''
     else if octet 0 a = 169 \<and> octet 1 a = 254 then Some ''link_local''
     else if 224 \<le> octet 0 a \<and> octet 0 a \<le> 239 then Some ''multicast''
     else if is_private a then Some ''rfc1918''
     else if octet 0 a = 100 \<and> (of_nat (octet 1 a) :: 8 word) AND 0xc0 = 64 then Some ''cgnat''
     else if a = 0 \<or> a = 0xffffffff then Some ''other''
     else None)"
| "is_bogon_ip (V6 a) =
    (if a = 1 then Some ''loopback''
     else if segment0 a AND 0xffc0 = 0xfe80 then Some ''link_local''
     else if segment0 a AND 0xff00 = 0xff00 then Some ''multicast''
     else if segment0 a AND 0xfe00 = 0xfc00 then Some ''rfc1918''
     else if a = 0 then Some ''other''
     else None)"

definition is_bogon :: "socket_addr \<Rightarrow> string option" where
  "is_bogon addr = is_bogon_ip (sa_ip addr)"

text \<open>The reference: a table of prefixes, as the registries of special addresses list them.\<close>

definition in_prefix :: "nat \<Rightarrow> nat \<Rightarrow> nat \<Rightarrow> nat \<Rightarrow> bool" where
  "in_prefix width net len x \<longleftrightarrow> x div 2 ^ (width - len) = net"

text \<open>Each row: the leading bits of the network, how many, and the label.\<close>

definition bogon_v4 :: "(nat \<times> nat \<times> string) list" where
  "bogon_v4 =
    [(127, 8, ''loopback''), (169 * 256 + 254, 16, ''link_local''), (14, 4, ''multicast''), (10, 8, ''rfc1918''),
     (172 * 16 + 1, 12, ''rfc1918''), (192 * 256 + 168, 16, ''rfc1918''), (100 * 4 + 1, 10, ''cgnat''),
     (0, 32, ''other''), (2 ^ 32 - 1, 32, ''other'')]"

definition bogon_v6 :: "(nat \<times> nat \<times> string) list" where
  "bogon_v6 =
    [(1, 128, ''loopback''), (0x3fa, 10, ''link_local''), (0xff, 8, ''multicast''), (0x7e, 7, ''rfc1918''), (0, 128, ''other'')]"

definition first_match :: "nat \<Rightarrow> (nat \<times> nat \<times> string) list \<Rightarrow> nat \<Rightarrow> string option" where
  "first_match width rows x = map_option (\<lambda>(_, _, k). k) (find (\<lambda>(net, len, _). in_prefix width net len x) rows)"

fun bogon_table :: "ip_addr \<Rightarrow> string option" where
  "bogon_table (V4 a) = first_match 32 bogon_v4 (unat a)"
| "bogon_table (V6 a) = first_match 128 bogon_v6 (unat a)"

lemma octet_div: "octet 0 a = unat a div 2 ^ 24" "octet 1 a = unat a div 2 ^ 16 mod 256"
proof -
  have "unat a < 2 ^ 32" using unsigned_less [of a] by simp
  then have "unat a div 2 ^ 24 < 256" by (simp add: div_less_iff_less_mult)
  then show "octet 0 a = unat a div 2 ^ 24" unfolding octet_def unat_drop_bit_eq by (simp add: drop_bit_eq_div)
  show "octet 1 a = unat a div 2 ^ 16 mod 256" unfolding octet_def unat_drop_bit_eq by (simp add: drop_bit_eq_div)
qed

text \<open>Masking off the low bits and comparing is dividing.\<close>

lemma high_mask_eq:
  fixes w :: "'a::len word"
  assumes "n \<le> LENGTH('a)"
  shows "w AND NOT (mask n) = v \<longleftrightarrow> unat w div 2 ^ n * 2 ^ n = unat v"
proof -
  have "w AND NOT (mask n) = push_bit n (drop_bit n w)"
    by (rule bit_word_eqI) (auto simp: bit_simps)
  moreover have "unat (push_bit n (drop_bit n w)) = unat w div 2 ^ n * 2 ^ n"
  proof -
    have "unat w div 2 ^ n * 2 ^ n < 2 ^ LENGTH('a)"
      using unsigned_less [of w] by (rule order.strict_trans1 [rotated]) simp
    then show ?thesis unfolding unsigned_push_bit_eq unat_drop_bit_eq
      by (simp add: push_bit_eq_mult drop_bit_eq_div take_bit_nat_eq_self)
  qed
  ultimately show ?thesis by (metis word_eq_iff_unsigned)
qed

lemma mult_cancel_iff: "0 < k \<Longrightarrow> q * k = m * k \<longleftrightarrow> q = (m :: nat)"
  by simp

lemma cgnat_octet:
  assumes "b < 256"
  shows "(of_nat b :: 8 word) AND 0xc0 = 64 \<longleftrightarrow> b div 64 = 1"
proof -
  have m: "(0xc0 :: 8 word) = NOT (mask 6)" by (simp add: mask_eq_exp_minus_1)
  have "unat (of_nat b :: 8 word) = b" using assms by (simp add: unsigned_of_nat take_bit_nat_eq_self)
  then show ?thesis unfolding m by (subst high_mask_eq) (use mult_cancel_iff [of 64 "b div 64" 1] in simp_all)
qed

lemma segment0_div: "unat (segment0 a) = unat a div 2 ^ 112"
proof -
  have "unat a < 2 ^ 128" using unsigned_less [of a] by simp
  then have "unat a div 2 ^ 112 < 2 ^ 16" by (simp add: div_less_iff_less_mult)
  then show ?thesis unfolding segment0_def unsigned_ucast_eq unat_drop_bit_eq
    by (simp add: drop_bit_eq_div take_bit_nat_eq_self)
qed

lemma segment0_prefix:
  assumes "n \<le> 16" and "m * 2 ^ n < 2 ^ 16"
  shows "segment0 a AND NOT (mask n) = of_nat (m * 2 ^ n) \<longleftrightarrow> unat a div 2 ^ (112 + n) = m"
proof -
  have "unat (of_nat (m * 2 ^ n) :: 16 word) = m * 2 ^ n"
    using assms(2) unfolding unsigned_of_nat of_nat_id by (intro take_bit_nat_eq_self) simp
  then have "segment0 a AND NOT (mask n) = of_nat (m * 2 ^ n) \<longleftrightarrow> unat a div 2 ^ 112 div 2 ^ n * 2 ^ n = m * 2 ^ n"
    using assms(1) by (subst high_mask_eq) (simp_all add: segment0_div)
  then show ?thesis by (simp add: power_add div_mult2_eq)
qed

lemma first_match_Cons:
  "first_match w [] x = None"
  "first_match w ((net, len, k) # rows) x = (if in_prefix w net len x then Some k else first_match w rows x)"
  by (simp_all add: first_match_def)

lemma digits_eq: "r < k \<Longrightarrow> s < k \<Longrightarrow> p * k + r = p' * k + s \<longleftrightarrow> p = p' \<and> r = (s :: nat)"
proof -
  assume "r < k" "s < k"
  then have "(p * k + r) div k = p" "(p' * k + s) div k = p'" by simp_all
  then show ?thesis by (metis add_left_cancel)
qed

lemma div_eq_range: "0 < k \<Longrightarrow> x div k = m \<longleftrightarrow> m * k \<le> x \<and> x < Suc m * (k :: nat)"
  using dividend_less_div_times [of k x] by (auto intro: div_nat_eqI simp: ac_simps)

lemma sixteen: "(16 :: nat) \<noteq> 0" and sixtyfour: "(64 :: nat) \<noteq> 0"
  by simp_all

lemma bogon_v4_correct: "is_bogon_ip (V4 a) = bogon_table (V4 a)"
proof -
  define x where "x = unat a"
  define p q where "p = octet 0 a" and "q = octet 1 a"
  have q: "q < 256" by (simp add: q_def octet_def)
  have y: "x div 65536 = p * 256 + q"
    using div_mult_mod_eq [of "x div 65536" 256] unfolding p_def q_def octet_div x_def by (simp flip: div_mult2_eq)
  have d: "x div (65536 * k) = (p * 256 + q) div k" for k by (simp add: div_mult2_eq y)
  have a: "x div 16777216 = p" using d [of 256] q by simp
  have b: "x div 65536 = 43518 \<longleftrightarrow> p = 169 \<and> q = 254" unfolding y using digits_eq [of q 256 254 p 169] q by simp
  have c: "x div 268435456 = 14 \<longleftrightarrow> 224 \<le> p \<and> p \<le> 239"
  proof -
    have "x div 268435456 = (p * 256 + q) div 256 div 16" using d [of 4096] by (simp flip: div_mult2_eq)
    then have "x div 268435456 = p div 16" using q by simp
    then show ?thesis using div_eq_range [of 16 p 14] by auto
  qed
  have e: "x div 1048576 = 2753 \<longleftrightarrow> p = 172 \<and> 16 \<le> q \<and> q \<le> 31"
  proof -
    have "x div 1048576 = (q + p * 16 * 16) div 16" using d [of 16] by (simp add: ac_simps)
    then have "x div 1048576 = p * 16 + q div 16" unfolding div_mult_self1 [OF sixteen] by simp
    moreover have "q div 16 < 16" using q by simp
    ultimately show ?thesis using digits_eq [of "q div 16" 16 1 p 172] div_eq_range [of 16 q 1] by auto
  qed
  have f: "x div 65536 = 49320 \<longleftrightarrow> p = 192 \<and> q = 168" unfolding y using digits_eq [of q 256 168 p 192] q by simp
  have g: "x div 4194304 = 401 \<longleftrightarrow> p = 100 \<and> q div 64 = 1"
  proof -
    have "x div 4194304 = (q + p * 4 * 64) div 64" using d [of 64] by (simp add: ac_simps)
    then have "x div 4194304 = p * 4 + q div 64" unfolding div_mult_self1 [OF sixtyfour] by simp
    moreover have "q div 64 < 4" using q by simp
    ultimately show ?thesis using digits_eq [of "q div 64" 4 1 p 100] by simp
  qed
  have z: "a = 0 \<longleftrightarrow> x = 0" "a = 0xffffffff \<longleftrightarrow> x = 4294967295"
    by (simp_all add: x_def word_unat_eq_iff)
  show ?thesis
    unfolding is_bogon_ip.simps bogon_table.simps bogon_v4_def first_match_Cons in_prefix_def is_private_def
      p_def [symmetric] q_def [symmetric] x_def [symmetric] cgnat_octet [OF q] z
    by (simp add: a b c e f g)
qed

lemma bogon_v6_correct: "is_bogon_ip (V6 a) = bogon_table (V6 a)"
proof -
  have m: "(0xffc0 :: 16 word) = NOT (mask 6)" "(0xff00 :: 16 word) = NOT (mask 8)" "(0xfe00 :: 16 word) = NOT (mask 9)"
    by (simp_all add: mask_eq_exp_minus_1)
  have l: "segment0 a AND 0xffc0 = 0xfe80 \<longleftrightarrow> unat a div 2 ^ 118 = 0x3fa"
    using segment0_prefix [of 6 "0x3fa" a] by (simp add: m(1))
  have k: "segment0 a AND 0xff00 = 0xff00 \<longleftrightarrow> unat a div 2 ^ 120 = 0xff"
    using segment0_prefix [of 8 "0xff" a] by (simp add: m(2))
  have u: "segment0 a AND 0xfe00 = 0xfc00 \<longleftrightarrow> unat a div 2 ^ 121 = 0x7e"
    using segment0_prefix [of 9 "0x7e" a] by (simp add: m(3))
  have z: "a = 0 \<longleftrightarrow> unat a = 0" "a = 1 \<longleftrightarrow> unat a = 1" by (simp_all add: word_unat_eq_iff)
  show ?thesis
    unfolding is_bogon_ip.simps bogon_table.simps bogon_v6_def first_match_Cons in_prefix_def l k u z
    by simp
qed


section \<open>Flushing outbound datagrams\<close>

definition SEND_FAIL_DEDUP_WINDOW :: nat where "SEND_FAIL_DEDUP_WINDOW = 10 * 10 ^ 9"
definition MAX_SLEEP :: nat where "MAX_SLEEP = 100 * 10 ^ 6"

text \<open>The label of a failed send, by its \<open>raw_os_error\<close>.\<close>

definition classify_send_error :: "nat option \<Rightarrow> string" where
  "classify_send_error e =
    (if e = Some 89 then ''dest_required'' else if e = Some 101 then ''network_unreachable''
     else if e = Some 113 then ''host_unreachable'' else if e = Some 13 then ''perm'' else ''other'')"

text \<open>
  The socket is a parameter: \<open>send\<close> takes the state of the network and a datagram and says whether the
  call failed, with the \<open>errno\<close> if there is one.  \<open>fs_attempted\<close> and \<open>fs_warned\<close> record the calls and
  the warnings.
\<close>

type_synonym 'w sender = "'w \<Rightarrow> transmit \<Rightarrow> nat option option \<times> 'w"
type_synonym dedup = "socket_addr \<Rightarrow> instant option"

record 'w flush_state =
  fs_dedup :: dedup
  fs_net :: 'w
  fs_metrics :: "metric list"
  fs_attempted :: "transmit list"
  fs_warned :: "socket_addr list"

definition should_log :: "instant \<Rightarrow> socket_addr \<Rightarrow> dedup \<Rightarrow> bool" where
  "should_log now dest d = (case d dest of None \<Rightarrow> True | Some prev \<Rightarrow> \<not> now - prev < SEND_FAIL_DEDUP_WINDOW)"

definition flush_one :: "'w sender \<Rightarrow> instant \<Rightarrow> transmit \<Rightarrow> 'w flush_state \<Rightarrow> 'w flush_state" where
  "flush_one send now t s =
    (case is_bogon (destination t) of
       Some kind \<Rightarrow> s\<lparr>fs_metrics := fs_metrics s @ [Inc ''udp_bogon_dest_dropped_total'' [kind]]\<rparr>
     | None \<Rightarrow>
         (case send (fs_net s) t of (res, net) \<Rightarrow>
          (let s1 = s\<lparr>fs_net := net, fs_attempted := fs_attempted s @ [t]\<rparr> in
           case res of
             None \<Rightarrow> s1
           | Some e \<Rightarrow>
               (let s2 = s1\<lparr>fs_metrics := fs_metrics s1 @ [Inc ''udp_send_failed'' [classify_send_error e]]\<rparr> in
                if should_log now (destination t) (fs_dedup s2)
                then s2\<lparr>fs_dedup := (fs_dedup s2)(destination t \<mapsto> now), fs_warned := fs_warned s2 @ [destination t]\<rparr>
                else s2))))"

definition flush_transmits ::
  "'w sender \<Rightarrow> instant \<Rightarrow> dedup \<Rightarrow> 'w \<Rightarrow> ('r, 'p, 'b, 'd) registry \<Rightarrow> 'w flush_state \<times> ('r, 'p, 'b, 'd) registry" where
  "flush_transmits send now d net reg =
    (case drain_transmits reg of (pending, reg1) \<Rightarrow>
     case fold (flush_one send now) pending
            \<lparr>fs_dedup = d, fs_net = net, fs_metrics = [], fs_attempted = [], fs_warned = []\<rparr> of
       s \<Rightarrow> (s, log (fs_metrics s) reg1))"

definition retain_recent :: "instant \<Rightarrow> dedup \<Rightarrow> dedup" where
  "retain_recent now d =
    (\<lambda>a. case d a of None \<Rightarrow> None | Some t \<Rightarrow> if now - t < SEND_FAIL_DEDUP_WINDOW * 6 then Some t else None)"

section \<open>The loop\<close>

text \<open>
  The environment of the loop: the transport with its inputs, the socket, the configured solo timeout and
  the pacer configuration.  \<open>clocks\<close> are the readings of \<open>Instant::now()\<close> and of the wall clock one
  iteration takes, in program order.
\<close>

record ('r, 'p, 'b, 'd, 'm, 'i, 'w) loop_env =
  le_poll :: "('r, 'p, 'b, 'd) poll_env"
  le_flags :: pacer_flags
  le_feed_time :: "instant \<Rightarrow> 'r \<Rightarrow> bool \<times> 'r"
  le_decode :: "'m \<Rightarrow> 'i option"
  le_accepts :: "'r \<Rightarrow> 'i \<Rightarrow> bool"
  le_feed :: "'i \<Rightarrow> 'r \<Rightarrow> bool \<times> 'r"
  le_send :: "'w sender"
  le_solo_kick :: "nat option"
  le_with_config :: "pacer_config \<Rightarrow> 'p"
  le_pacer_config :: pacer_config

record clocks =
  ck_reap :: instant
  ck_solo :: instant
  ck_pump :: instant
  ck_poll :: instant
  ck_unix :: nat
  ck_fanout :: instant
  ck_wall :: nat
  ck_sleep :: instant
  ck_arm :: instant

record ('r, 'p, 'b, 'd, 'w) loop_state =
  ls_registry :: "('r, 'p, 'b, 'd) registry"
  ls_tracks :: track_store
  ls_dedup :: dedup
  ls_net :: 'w
  ls_warned :: "(instant \<times> socket_addr) list"
  ls_next_id :: nat
  ls_relay_open :: bool
  ls_client_open :: bool

text \<open>\<open>next_client_id\<close> reads and increments a 64-bit counter.\<close>

definition next_client_id :: "nat \<Rightarrow> client_id \<times> nat" where
  "next_client_id n = (n, (n + 1) mod 2 ^ 64)"

definition sleep_for :: "instant \<Rightarrow> instant \<Rightarrow> nat" where
  "sleep_for deadline now = min MAX_SLEEP (max (10 ^ 6) (deadline - now))"

text \<open>The part of an iteration before the \<open>select!\<close>; \<open>None\<close> when the transport never stops emitting.\<close>

definition serve_pass ::
  "('r, 'p, 'b, 'd, 'm, 'i, 'w) loop_env \<Rightarrow> clocks \<Rightarrow> ('r, 'p, 'b, 'd, 'w) loop_state
    \<Rightarrow> (nat \<times> ('r, 'p, 'b, 'd, 'w) loop_state) out option" where
  "serve_pass env ck s =
    (let pe = le_poll env; api = pe_api pe; kit = pe_kit pe;
         reg0 = log [Inc ''udp_loop_iterations_total'' []] (ls_registry s);
         (reg1, st1) = reap_dead api kit (ck_reap ck) (ls_tracks s) reg0;
         reg2 = (case le_solo_kick env of None \<Rightarrow> reg1 | Some timeout \<Rightarrow> check_solo_timeout api timeout (ck_solo ck) reg1);
         reg3 = pump_ws_ctrl api (ck_pump ck) st1 reg2 in
     case poll_all (pe\<lparr>pe_now := ck_poll ck, pe_unix := ck_unix ck, pe_epoch := detector_epoch reg3\<rparr>) st1 reg3 of
       None \<Rightarrow> None
     | Some Panic \<Rightarrow> Some Panic
     | Some Fail \<Rightarrow> Some Fail
     | Some (Done (deadline, reg4, st)) \<Rightarrow>
         (case fanout_pending api kit (le_flags env) (ck_fanout ck) (ck_wall ck) st reg4 of
            Panic \<Rightarrow> Some Panic
          | Fail \<Rightarrow> Some Fail
          | Done reg5 \<Rightarrow>
              (case flush_transmits (le_send env) (ck_poll ck) (ls_dedup s) (ls_net s) reg5 of (fs, reg6) \<Rightarrow>
                 Some (Done (sleep_for deadline (ck_sleep ck),
                   s\<lparr>ls_registry := reg6, ls_tracks := st, ls_dedup := retain_recent (ck_poll ck) (fs_dedup fs),
                     ls_net := fs_net fs, ls_warned := ls_warned s @ map (Pair (ck_poll ck)) (fs_warned fs)\<rparr>)))))"

section \<open>The arms\<close>

record 'r pending_relay =
  pr_rtc :: 'r
  pr_dc_id :: channel_id
  pr_upstream_url :: string
  pr_upstream_room_token :: string

record 'r pending_client =
  pc_rtc :: 'r
  pc_external_peer_id :: nat
  pc_ws_msg_tx :: ws_chan
  pc_ws_ctrl_rx :: ws_ctrl

definition tracks_map :: "('r, 'p) client list \<Rightarrow> (string \<times> nat) list" where
  "tracks_map cs = map (\<lambda>pid. (''peer-'' @ show_nat pid, pid)) (List.map_filter external_peer_id cs)"

definition browser_client ::
  "('r, 'p, 'b, 'd, 'm, 'i, 'w) loop_env \<Rightarrow> client_id \<Rightarrow> ws_chan \<Rightarrow> 'r pending_client \<Rightarrow> ('r, 'p) client" where
  "browser_client env cid tx pc =
    (let api = pe_api (le_poll env) in
     with_ws_ctrl_rx (pc_ws_ctrl_rx pc) (with_ws_msg_tx tx (with_close_signal (with_external_peer_id (pc_external_peer_id pc)
       (with_sfu_events_dc api (with_reactions_dc api (with_chat_dcs api (with_keys_dc api
         (new_client api (le_with_config env) (le_pacer_config env) cid (pc_rtc pc))))))))))"

definition inject_client ::
  "('r, 'p, 'b, 'd, 'm, 'i, 'w) loop_env \<Rightarrow> instant \<Rightarrow> 'r pending_client \<Rightarrow> ('r, 'p, 'b, 'd, 'w) loop_state
    \<Rightarrow> ('r, 'p, 'b, 'd, 'w) loop_state" where
  "inject_client env now pc s =
    (let tracks = tracks_map (clients (ls_registry s));
         has_peers = tracks \<noteq> [];
         tx = snd (try_send (TracksMap tracks) (pc_ws_msg_tx pc));
         (cid, n) = next_client_id (ls_next_id s);
         c = browser_client env cid tx pc;
         reg = log ([Inc ''tracks_map_sent_total'' [if has_peers then ''true'' else ''false''],
                     Inc ''sfu_late_join_resync_total''
                       [''peer_joined_late'', if has_peers then ''tracks_map_sent'' else ''no_op_empty_room'']] @ metrics c)
                 (ls_registry s);
         (reg1, st1) = insert_client (pe_api (le_poll env)) (pe_kit (le_poll env)) now (ls_tracks s) c reg in
     s\<lparr>ls_registry := reg1, ls_tracks := st1, ls_next_id := n\<rparr>)"

definition inject_relay ::
  "('r, 'p, 'b, 'd, 'm, 'i, 'w) loop_env \<Rightarrow> instant \<Rightarrow> 'r pending_relay \<Rightarrow> ('r, 'p, 'b, 'd, 'w) loop_state
    \<Rightarrow> ('r, 'p, 'b, 'd, 'w) loop_state" where
  "inject_relay env now pr s =
    (let (cid, n) = next_client_id (ls_next_id s);
         c = new_outbound_relay (pe_api (le_poll env)) (le_with_config env) (le_pacer_config env) cid (pr_rtc pr)
               (pr_dc_id pr) (pr_upstream_url pr) (pr_upstream_room_token pr);
         (reg1, st1) = insert_client (pe_api (le_poll env)) (pe_kit (le_poll env)) now (ls_tracks s) c (ls_registry s) in
     s\<lparr>ls_registry := reg1, ls_tracks := st1, ls_next_id := n\<rparr>)"

datatype ('r, 'm) arm =
    Slept
  | AsoTick
  | Received 'm
  | RecvFailed
  | RelayPending "'r pending_relay"
  | RelayClosed
  | ClientPending "'r pending_client"
  | ClientClosed

fun arm_ready :: "('r, 'm) arm \<Rightarrow> ('r, 'p, 'b, 'd, 'w) loop_state \<Rightarrow> bool" where
  "arm_ready (RelayPending _) s = ls_relay_open s"
| "arm_ready RelayClosed s = ls_relay_open s"
| "arm_ready (ClientPending _) s = ls_client_open s"
| "arm_ready ClientClosed s = ls_client_open s"
| "arm_ready _ s = True"

fun serve_arm ::
  "('r, 'p, 'b, 'd, 'm, 'i, 'w) loop_env \<Rightarrow> instant \<Rightarrow> ('r, 'm) arm \<Rightarrow> ('r, 'p, 'b, 'd, 'w) loop_state
    \<Rightarrow> ('r, 'p, 'b, 'd, 'w) loop_state" where
  "serve_arm env now Slept s =
    s\<lparr>ls_registry := Sfu_Registry.tick (pe_api (le_poll env)) (le_feed_time env) now (ls_registry s)\<rparr>"
| "serve_arm env now AsoTick s =
    s\<lparr>ls_registry := emit_publisher_layer_hints (ls_tracks s) (tick_speaker_scores (pe_kit (le_poll env))
        (tick_active_speaker (pe_kit (le_poll env)) now (ls_registry s)))\<rparr>"
| "serve_arm env now (Received m) s =
    s\<lparr>ls_registry := snd (handle_incoming (pe_api (le_poll env)) (le_decode env) (le_accepts env) (le_feed env) m (ls_registry s))\<rparr>"
| "serve_arm env now RecvFailed s = s"
| "serve_arm env now (RelayPending pr) s = inject_relay env now pr s"
| "serve_arm env now RelayClosed s =
    s\<lparr>ls_registry := log [Inc ''inject_channel_closed_total'' [''relay'']] (ls_registry s), ls_relay_open := False\<rparr>"
| "serve_arm env now (ClientPending pc) s = inject_client env now pc s"
| "serve_arm env now ClientClosed s =
    s\<lparr>ls_registry := log [Inc ''inject_channel_closed_total'' [''client'']] (ls_registry s), ls_client_open := False\<rparr>"

text \<open>One iteration that does not shut down, and the states the loop goes through.\<close>

definition serve_start ::
  "'d \<Rightarrow> 'b \<Rightarrow> instant \<Rightarrow> string option \<Rightarrow> string option \<Rightarrow> bool \<Rightarrow> 'w \<Rightarrow> bool \<Rightarrow> bool \<Rightarrow> ('r, 'p, 'b, 'd, 'w) loop_state" where
  "serve_start det bw now secret pubkey fallback net relay client =
    \<lparr>ls_registry = with_relay_auth det bw now secret pubkey fallback, ls_tracks = Map.empty, ls_dedup = Map.empty, ls_net = net,
     ls_warned = [], ls_next_id = 0, ls_relay_open = relay, ls_client_open = client\<rparr>"

inductive serve_step ::
  "('r, 'p, 'b, 'd, 'm, 'i, 'w) loop_env \<Rightarrow> clocks \<Rightarrow> ('r, 'p, 'b, 'd, 'w) loop_state \<Rightarrow> ('r, 'p, 'b, 'd, 'w) loop_state \<Rightarrow> bool"
  for env ck where
  iteration: "serve_pass env ck s = Some (Done (sleep, s1)) \<Longrightarrow> arm_ready arm s1 \<Longrightarrow>
    serve_step env ck s (serve_arm env (ck_arm ck) arm s1)"

text \<open>The runs of the loop, with the clock readings of each iteration.\<close>

inductive serve_run ::
  "('r, 'p, 'b, 'd, 'm, 'i, 'w) loop_env \<Rightarrow> clocks list \<Rightarrow> ('r, 'p, 'b, 'd, 'w) loop_state \<Rightarrow> ('r, 'p, 'b, 'd, 'w) loop_state \<Rightarrow> bool"
  for env where
  stay: "serve_run env [] s s"
| more: "serve_run env cks s s1 \<Longrightarrow> serve_step env ck s1 s2 \<Longrightarrow> serve_run env (cks @ [ck]) s s2"


section \<open>What a flush sends\<close>

lemma is_bogon_table: "is_bogon addr = bogon_table (sa_ip addr)"
  unfolding is_bogon_def by (cases "sa_ip addr") (simp_all only: bogon_v4_correct bogon_v6_correct)

definition routable :: "transmit \<Rightarrow> bool" where
  "routable t \<longleftrightarrow> bogon_table (sa_ip (destination t)) = None"

definition bogon_drop :: "metric \<Rightarrow> bool" where
  "bogon_drop m \<longleftrightarrow> (\<exists>k. m = Inc ''udp_bogon_dest_dropped_total'' [k])"

lemma flush_one_attempted: "fs_attempted (flush_one send now t s) = fs_attempted s @ (if routable t then [t] else [])"
  by (simp add: flush_one_def routable_def is_bogon_table Let_def split: option.splits prod.splits)

lemma flush_one_drops:
  "filter bogon_drop (fs_metrics (flush_one send now t s)) = filter bogon_drop (fs_metrics s) @
    (case bogon_table (sa_ip (destination t)) of None \<Rightarrow> [] | Some k \<Rightarrow> [Inc ''udp_bogon_dest_dropped_total'' [k]])"
  by (simp add: flush_one_def is_bogon_table bogon_drop_def Let_def split: option.splits prod.splits)

lemma flush_fold_attempted: "fs_attempted (fold (flush_one send now) ts s) = fs_attempted s @ filter routable ts"
  by (induction ts arbitrary: s) (simp_all add: flush_one_attempted)

definition dropped_log :: "transmit list \<Rightarrow> metric list" where
  "dropped_log ts = map (\<lambda>k. Inc ''udp_bogon_dest_dropped_total'' [k])
    (List.map_filter (\<lambda>t. bogon_table (sa_ip (destination t))) ts)"

lemma flush_fold_drops:
  "filter bogon_drop (fs_metrics (fold (flush_one send now) ts s)) = filter bogon_drop (fs_metrics s) @ dropped_log ts"
  by (induction ts arbitrary: s) (simp_all add: flush_one_drops dropped_log_def map_filter_simps split: option.splits)

text \<open>C18: A flush hands to the socket exactly the queued datagrams of all clients whose destination is in
  none of the reserved prefixes (loopback, link-local, multicast, private, shared and the unspecified and
  broadcast addresses, of IPv4 and IPv6), in order and once each; each of the others is counted once under
  the label of its prefix, and no client keeps a datagram.\<close>

theorem flush_sends_exactly_routable:
  "fs_attempted (fst (flush_transmits send now d net reg)) =
     filter (\<lambda>t. bogon_table (sa_ip (destination t)) = None) (concat (map pending_out (clients reg))) \<and>
   filter bogon_drop (fs_metrics (fst (flush_transmits send now d net reg))) = dropped_log (concat (map pending_out (clients reg))) \<and>
   list_all (\<lambda>c. pending_out c = []) (clients (snd (flush_transmits send now d net reg)))"
proof -
  have "routable = (\<lambda>t. bogon_table (sa_ip (destination t)) = None)" by (simp add: fun_eq_iff routable_def)
  then show ?thesis
    by (auto simp: flush_transmits_def drain_transmits_def flush_fold_attempted flush_fold_drops log_def
        drain_pending_out_def list_all_iff)
qed

section \<open>Warnings are rate limited\<close>

text \<open>The last warning of a destination is on record while it is younger than the window.\<close>

definition dedup_covers :: "instant \<Rightarrow> dedup \<Rightarrow> (instant \<times> socket_addr) list \<Rightarrow> bool" where
  "dedup_covers now d ws \<longleftrightarrow> (\<forall>(t, a) \<in> set ws. t \<le> now \<and>
    (now - t < SEND_FAIL_DEDUP_WINDOW \<longrightarrow> (\<exists>t'. d a = Some t' \<and> t \<le> t' \<and> t' \<le> now)))"

definition warnings_spaced :: "(instant \<times> socket_addr) list \<Rightarrow> bool" where
  "warnings_spaced ws \<longleftrightarrow> (\<forall>i j. i < j \<longrightarrow> j < length ws \<longrightarrow> snd (ws ! i) = snd (ws ! j) \<longrightarrow>
    SEND_FAIL_DEDUP_WINDOW \<le> fst (ws ! j) - fst (ws ! i))"

lemma warnings_spaced_snoc: "warnings_spaced ws \<Longrightarrow> \<forall>t. (t, a) \<in> set ws \<longrightarrow> SEND_FAIL_DEDUP_WINDOW \<le> now - t \<Longrightarrow> warnings_spaced (ws @ [(now, a)])"
  unfolding warnings_spaced_def by (auto simp: nth_append less_Suc_eq) (metis nth_mem prod.collapse)?

lemma flush_one_warned:
  assumes "dedup_covers now (fs_dedup s) (ws @ map (Pair now) (fs_warned s))" and "warnings_spaced (ws @ map (Pair now) (fs_warned s))"
    and "s' = flush_one send now t s"
  shows "dedup_covers now (fs_dedup s') (ws @ map (Pair now) (fs_warned s')) \<and> warnings_spaced (ws @ map (Pair now) (fs_warned s'))"
proof -
  let ?a = "destination t" and ?ws = "ws @ map (Pair now) (fs_warned s)"
  have "(fs_dedup s' = fs_dedup s \<and> fs_warned s' = fs_warned s) \<or>
      (should_log now ?a (fs_dedup s) \<and> fs_dedup s' = (fs_dedup s)(?a \<mapsto> now) \<and> fs_warned s' = fs_warned s @ [?a])"
    unfolding assms(3) by (auto simp: flush_one_def Let_def split: option.splits prod.splits)
  then show ?thesis
  proof (elim disjE conjE)
    assume l: "should_log now ?a (fs_dedup s)" and d: "fs_dedup s' = (fs_dedup s)(?a \<mapsto> now)"
      and w: "fs_warned s' = fs_warned s @ [?a]"
    have far: "SEND_FAIL_DEDUP_WINDOW \<le> now - u" if "(u, ?a) \<in> set ?ws" for u
    proof (rule ccontr)
      assume n: "\<not> SEND_FAIL_DEDUP_WINDOW \<le> now - u"
      with assms(1) that obtain t' where "fs_dedup s ?a = Some t'" "u \<le> t'" unfolding dedup_covers_def by fastforce
      with l n show False by (auto simp: should_log_def)
    qed
    have sp: "warnings_spaced (?ws @ [(now, ?a)])" by (rule warnings_spaced_snoc [OF assms(2)]) (use far in blast)
    have "dedup_covers now (fs_dedup s') (?ws @ [(now, ?a)])"
      using assms(1) unfolding dedup_covers_def d by (fastforce split: if_splits)
    with sp show ?thesis by (simp add: w)
  qed (use assms(1,2) in simp)
qed

lemma flush_fold_warned:
  "dedup_covers now (fs_dedup s) (ws @ map (Pair now) (fs_warned s)) \<Longrightarrow> warnings_spaced (ws @ map (Pair now) (fs_warned s)) \<Longrightarrow>
   dedup_covers now (fs_dedup (fold (flush_one send now) ts s)) (ws @ map (Pair now) (fs_warned (fold (flush_one send now) ts s))) \<and>
   warnings_spaced (ws @ map (Pair now) (fs_warned (fold (flush_one send now) ts s)))"
proof (induction ts arbitrary: s)
  case (Cons t ts)
  from flush_one_warned [OF Cons.prems refl, of send t] show ?case using Cons.IH by simp
qed simp

lemma covers_later:
  assumes "dedup_covers t0 d ws" and "t0 \<le> t1"
  shows "dedup_covers t1 (retain_recent t1 d) ws \<and> dedup_covers t1 d ws"
proof -
  have "\<exists>t'. retain_recent t1 d a = Some t' \<and> t \<le> t' \<and> t' \<le> t1" "\<exists>t'. d a = Some t' \<and> t \<le> t' \<and> t' \<le> t1" "t \<le> t1"
    if "(t, a) \<in> set ws" "t1 - t < SEND_FAIL_DEDUP_WINDOW" for t a
  proof -
    have "t \<le> t0" "t0 - t < SEND_FAIL_DEDUP_WINDOW" using assms that unfolding dedup_covers_def by fastforce+
    with assms(1) that(1) obtain t' where "d a = Some t'" "t \<le> t'" "t' \<le> t0" unfolding dedup_covers_def by fastforce
    moreover have "t1 - t' < SEND_FAIL_DEDUP_WINDOW * 6" using that(2) \<open>t \<le> t'\<close> by linarith
    ultimately show "\<exists>t'. retain_recent t1 d a = Some t' \<and> t \<le> t' \<and> t' \<le> t1" "\<exists>t'. d a = Some t' \<and> t \<le> t' \<and> t' \<le> t1" "t \<le> t1"
      using assms(2) \<open>t \<le> t0\<close> by (auto simp: retain_recent_def)
  qed
  moreover have "t \<le> t1" if "(t, a) \<in> set ws" for t a using assms that unfolding dedup_covers_def by fastforce
  ultimately show ?thesis unfolding dedup_covers_def by fast
qed

end
