(* ===== verification/Sfu_Serve.thy ===== *)
theory Sfu_Serve
  imports Sfu_Loop
begin

text \<open>
  The UDP loop over time: what every iteration of \<open>serve\<close> keeps, that a pass ends without a panic and with
  an empty event queue, and that failed sends are reported at most once per destination and window.
\<close>

section \<open>The ids of a room\<close>

definition ids :: "('r, 'p, 'b, 'd) registry \<Rightarrow> client_id set" where
  "ids reg = cl_id ` set (clients reg)"

lemma ids_clients: "clients reg' = clients reg \<Longrightarrow> ids reg' = ids reg"
  by (simp add: ids_def)

lemma ids_ident: "map ident cs' = map ident cs \<Longrightarrow> cl_id ` set cs' = cl_id ` set cs"
proof -
  assume "map ident cs' = map ident cs"
  then have "map fst (map ident cs') = map fst (map ident cs)" by simp
  then have "map cl_id cs' = map cl_id cs" by (simp add: comp_def ident_def)
  then show ?thesis by (metis set_map)
qed

lemma ids_map: "tame f \<Longrightarrow> cl_id ` set (map f cs) = cl_id ` set cs"
  by (rule ids_ident) (simp add: tame_def)

lemma ids_update_first: "tame f \<Longrightarrow> cl_id ` set (update_first P f cs) = cl_id ` set cs"
proof (rule ids_ident)
  assume t: "tame f"
  show "map ident (update_first P f cs) = map ident cs" by (induction cs) (use t in \<open>auto simp: tame_def\<close>)
qed

lemma ids_frame [simp]: "ids (log ms reg) = ids reg" "ids (reg\<lparr>bandwidth := bw\<rparr>) = ids reg"
  by (simp_all add: ids_def log_def)

lemma ids_reap: "ids (fst (reap_dead api kit now st reg)) \<subseteq> ids reg"
  by (auto simp: reap_dead_def ids_def Let_def log_def)

lemma ids_solo: "ids (check_solo_timeout api timeout now reg) = ids reg"
  by (auto simp: check_solo_timeout_def ids_def log_def split: list.splits option.splits)

lemma ids_pump: "ids (pump_ws_ctrl api now st reg) = ids reg"
proof -
  let ?f = "\<lambda>c. (pump_keyframe_waits now st (drain_ws_ctrl api now st c))\<lparr>pending_propagated := []\<rparr>"
  have "tame ?f" by (rule tame_comp [OF tame_comp [OF tame_drain tame_pump]]) (simp add: tame_def client_ok_taken)
  then have "cl_id ` set (map ?f (clients reg)) = ids reg" unfolding ids_def by (rule ids_map)
  moreover have "clients (pump_ws_ctrl api now st reg) = map ?f (clients reg)" by (simp add: pump_ws_ctrl_def Let_def)
  ultimately show ?thesis by (simp only: ids_def)
qed

lemma ids_poll:
  assumes "poll_all env st reg = Some (Done (t, reg', st'))"
  shows "ids reg' = ids reg"
proof -
  obtain cs ps ps0 where c: "poll_clients env (clients reg) ps0 = Some (Done (cs, ps))" "clients reg' = cs"
    using assms unfolding poll_all_def by (auto split: option.splits out.splits prod.splits)
  have "map ident cs = map ident (clients reg)" using poll_clients_ok [OF c(1)] by simp
  then show ?thesis unfolding ids_def c(2) by (rule ids_ident)
qed

lemma ids_pacer: "ids (update_pacer_layers api kit fl now st og reg) = ids reg"
proof -
  define av where "av = (let rs = (case find (\<lambda>c. cl_id c = og) (clients reg) of None \<Rightarrow> [] | Some c \<Rightarrow> active_rids c) in
    if rs = [] then DEFAULT_SIMULCAST_LADDER else rs)"
  obtain cs bw q ms where p: "pace_all api kit fl now st av (clients reg) (bandwidth reg) = (cs, bw, q, ms)"
    by (cases "pace_all api kit fl now st av (clients reg) (bandwidth reg)")
  then have c: "clients (update_pacer_layers api kit fl now st og reg) = cs"
    by (simp add: update_pacer_layers_def av_def log_def Let_def)
  show ?thesis unfolding ids_def c by (rule ids_ident) (use pace_all_ok [OF p] in blast)
qed

lemma ids_mark: "ids (mark_relay_source kit cid url reg) = ids reg"
  by (simp add: mark_relay_source_def ids_def ids_update_first tame_origin)

lemma ids_cap: "n < 256 \<Longrightarrow> ids (reg\<lparr>clients := update_first P (set_max_vfm_temporal_layer n) (clients reg)\<rparr>) = ids reg"
  by (simp add: ids_def ids_update_first tame_set_cap)

lemma ids_consume: "consume api kit fl now st p reg = (b, reg1) \<Longrightarrow> queue_ok [p] \<Longrightarrow> ids reg1 = ids reg"
  by (cases p) (auto simp: consume_def queue_ok_def ids_pacer ids_mark ids_cap)

lemma ids_fanout_pending:
  "reg_ok reg \<Longrightarrow> fanout_pending api kit fl now wall st reg = Done reg' \<Longrightarrow> ids reg' = ids reg"
proof (induction api kit fl now wall st reg rule: fanout_pending.induct)
  case (1 api kit fl now wall st reg)
  show ?case
  proof (cases "to_propagate reg")
    case Nil
    then show ?thesis using 1(4) by (simp add: fanout_pending.simps)
  next
    case (Cons p ps)
    let ?r0 = "reg\<lparr>to_propagate := ps\<rparr>"
    obtain b reg1 where c: "consume api kit fl now st p ?r0 = (b, reg1)" by (cases "consume api kit fl now st p ?r0")
    have r0: "reg_ok ?r0" "queue_ok [p]" using 1(3) Cons by (simp_all add: reg_ok_def queue_ok_def)
    have ok1: "reg_ok reg1" by (rule consume_ok [OF r0 c])
    have i1: "ids reg1 = ids reg" using ids_consume [OF c r0(2)] by (simp add: ids_def)
    show ?thesis
    proof (cases b)
      case True
      then show ?thesis using 1(1) [OF Cons c [symmetric] _ ok1] 1(4) Cons c i1 by (subst (asm) fanout_pending.simps) simp
    next
      case False
      from ok1 have "list_all client_ok (clients reg1)" by (simp add: reg_ok_def room_ok_def)
      from fanout_ok [OF this, of api now wall st p] obtain cs where
        f: "fanout api now wall st p (clients reg1) = Done cs" "list_all client_ok cs" by blast
      have i: "map ident cs = map ident (clients reg1)" by (rule fanout_ident [OF f(1)])
      have "room_ok cs" using ok1 by (intro room_ok_ident [OF _ i f(2)]) (simp add: reg_ok_def)
      moreover have "length cs = length (clients reg1)" using i by (metis length_map)
      ultimately have "reg_ok (reg1\<lparr>clients := cs\<rparr>)" using ok1 by (simp add: reg_ok_def)
      moreover have "ids (reg1\<lparr>clients := cs\<rparr>) = ids reg" using ids_ident [OF i] i1 by (simp add: ids_def)
      ultimately show ?thesis using 1(2) [OF Cons c [symmetric] _ f(1)] False 1(4) Cons c f(1)
        by (subst (asm) fanout_pending.simps) simp
    qed
  qed
qed

lemma ids_insert:
  assumes "reg_ok reg"
  shows "ids (fst (insert_client api kit now st c reg)) \<subseteq> insert (cl_id c) (ids reg)"
proof -
  define c0 where "c0 = c\<lparr>metrics := [], relay_auth_secret := reg_relay_auth_secret reg,
    relay_signing_pubkey := reg_relay_signing_pubkey reg, relay_hs256_fallback_enabled := reg_hs256_fallback_enabled reg\<rparr>"
  define rs where "rs = after_steal api kit (external_peer_id c0) st reg"
  have "cl_id (joined api now rs c0) = cl_id c" using tameD [OF tame_joined, of api now rs c0] by (simp add: c0_def ident_def)
  moreover have "set (clients (fst rs)) \<subseteq> set (clients reg)"
    unfolding rs_def using after_steal_parts [OF assms] by blast
  ultimately show ?thesis unfolding insert_client_eq [OF c0_def rs_def] by (auto simp: ids_def log_def Let_def)
qed

lemma ids_tick: "ids (Sfu_Registry.tick api feed t reg) = ids reg"
  using ids_map [OF tame_input] by (simp add: ids_def Sfu_Registry.tick_def del: set_map)

lemma ids_incoming: "ids (snd (handle_incoming api decode accepts feed m reg)) = ids reg"
  by (simp add: handle_incoming_def ids_def ids_update_first tame_input split: option.splits)

lemma tame_drain_out: "tame (\<lambda>c. snd (drain_pending_out c))"
  by (rule tameI) (simp_all add: drain_pending_out_def)

lemma ids_flush: "ids (snd (flush_transmits send now d net reg)) = ids reg"
  using ids_map [of "\<lambda>c. snd (drain_pending_out c)" "clients reg"]
  by (simp add: flush_transmits_def drain_transmits_def ids_def log_def tame_drain_out)

section \<open>One iteration\<close>

lemma flush_ok: "reg_ok reg \<Longrightarrow> flush_transmits send now d net reg = (fs, reg') \<Longrightarrow> reg_ok reg'"
proof -
  assume ok: "reg_ok reg" and f: "flush_transmits send now d net reg = (fs, reg')"
  have n: "list_all neutral (fs_metrics (fold (flush_one send now) ts s))" if "list_all neutral (fs_metrics s)" for ts s
    using that
  proof (induction ts arbitrary: s)
    case (Cons t ts)
    have "list_all neutral (fs_metrics (flush_one send now t s))" using Cons.prems
      by (simp add: flush_one_def Let_def split: option.splits prod.splits)
    then show ?case using Cons.IH by simp
  qed simp
  have "reg' = log (fs_metrics fs) (snd (drain_transmits reg))" "list_all neutral (fs_metrics fs)"
    using f n by (auto simp: flush_transmits_def split: prod.splits)
  then show ?thesis using drain_ok [OF ok] by (simp add: reg_ok_def log_def participants_neutral)
qed

definition loop_ok :: "('r, 'p, 'b, 'd, 'w) loop_state \<Rightarrow> bool" where
  "loop_ok s \<longleftrightarrow> reg_ok (ls_registry s) \<and> (\<forall>i \<in> ids (ls_registry s). i < ls_next_id s)"

lemma reg_ok_log: "reg_ok reg \<Longrightarrow> participants ms = 0 \<Longrightarrow> reg_ok (log ms reg)"
  by (simp add: reg_ok_def log_def)

lemma serve_start_ok: "loop_ok (serve_start det bw now secret pubkey fallback net relay client)"
  by (simp add: loop_ok_def serve_start_def with_relay_auth_def reg_ok_def room_ok_def sessions_def queue_ok_def ids_def)

text \<open>The registry and the tracks before the transports are polled.\<close>

definition serve_reaped ::
  "('r, 'p, 'b, 'd, 'm, 'i, 'w) loop_env \<Rightarrow> clocks \<Rightarrow> ('r, 'p, 'b, 'd, 'w) loop_state \<Rightarrow> ('r, 'p, 'b, 'd) registry \<times> track_store" where
  "serve_reaped env ck s = reap_dead (pe_api (le_poll env)) (pe_kit (le_poll env)) (ck_reap ck) (ls_tracks s)
     (log [Inc ''udp_loop_iterations_total'' []] (ls_registry s))"

definition serve_before_poll ::
  "('r, 'p, 'b, 'd, 'm, 'i, 'w) loop_env \<Rightarrow> clocks \<Rightarrow> ('r, 'p, 'b, 'd, 'w) loop_state \<Rightarrow> ('r, 'p, 'b, 'd) registry" where
  "serve_before_poll env ck s =
    (let api = pe_api (le_poll env); reg1 = fst (serve_reaped env ck s) in
     pump_ws_ctrl api (ck_pump ck) (snd (serve_reaped env ck s))
       (case le_solo_kick env of None \<Rightarrow> reg1 | Some timeout \<Rightarrow> check_solo_timeout api timeout (ck_solo ck) reg1))"

definition poll_env_at :: "('r, 'p, 'b, 'd, 'm, 'i, 'w) loop_env \<Rightarrow> clocks \<Rightarrow> ('r, 'p, 'b, 'd) registry \<Rightarrow> ('r, 'p, 'b, 'd) poll_env" where
  "poll_env_at env ck reg = (le_poll env)\<lparr>pe_now := ck_poll ck, pe_unix := ck_unix ck, pe_epoch := detector_epoch reg\<rparr>"

lemma serve_pass_eq:
  "serve_pass env ck s =
    (case poll_all (poll_env_at env ck (serve_before_poll env ck s)) (snd (serve_reaped env ck s)) (serve_before_poll env ck s) of
       None \<Rightarrow> None
     | Some Panic \<Rightarrow> Some Panic
     | Some Fail \<Rightarrow> Some Fail
     | Some (Done (deadline, reg4, st)) \<Rightarrow>
         (case fanout_pending (pe_api (le_poll env)) (pe_kit (le_poll env)) (le_flags env) (ck_fanout ck) (ck_wall ck) st reg4 of
            Panic \<Rightarrow> Some Panic
          | Fail \<Rightarrow> Some Fail
          | Done reg5 \<Rightarrow>
              (case flush_transmits (le_send env) (ck_poll ck) (ls_dedup s) (ls_net s) reg5 of (fs, reg6) \<Rightarrow>
                 Some (Done (sleep_for deadline (ck_sleep ck),
                   s\<lparr>ls_registry := reg6, ls_tracks := st, ls_dedup := retain_recent (ck_poll ck) (fs_dedup fs),
                     ls_net := fs_net fs, ls_warned := ls_warned s @ map (Pair (ck_poll ck)) (fs_warned fs)\<rparr>)))))"
  unfolding serve_pass_def serve_before_poll_def poll_env_at_def Let_def serve_reaped_def [symmetric] prod.case_eq_if [of _ "serve_reaped env ck s"] ..

lemma before_poll_ok:
  assumes "loop_ok s"
  shows "reg_ok (serve_before_poll env ck s) \<and> ids (serve_before_poll env ck s) \<subseteq> ids (ls_registry s)"
proof -
  let ?r0 = "log [Inc ''udp_loop_iterations_total'' []] (ls_registry s)"
  let ?r1 = "fst (serve_reaped env ck s)"
  have "reg_ok ?r0" using assms by (intro reg_ok_log) (simp_all add: loop_ok_def)
  then have "reg_ok ?r1" unfolding serve_reaped_def by (rule reap_ok)
  moreover have "ids ?r1 \<subseteq> ids (ls_registry s)" unfolding serve_reaped_def using ids_reap [of _ _ _ _ ?r0] by simp
  ultimately show ?thesis unfolding serve_before_poll_def Let_def
    by (auto simp: ids_pump ids_solo solo_ok intro!: pump_ok split: option.splits)
qed

lemma serve_pass_ok:
  assumes "loop_ok s" and "serve_pass env ck s = Some r"
  shows "\<exists>sleep s1. r = Done (sleep, s1) \<and> loop_ok s1 \<and> to_propagate (ls_registry s1) = [] \<and> ls_next_id s1 = ls_next_id s \<and>
    10 ^ 6 \<le> sleep \<and> sleep \<le> MAX_SLEEP"
proof -
  let ?reg = "serve_before_poll env ck s"
  have b: "reg_ok ?reg" "ids ?reg \<subseteq> ids (ls_registry s)" using before_poll_ok [OF assms(1)] by auto
  obtain r1 where p: "poll_all (poll_env_at env ck ?reg) (snd (serve_reaped env ck s)) ?reg = Some r1"
    using assms(2) unfolding serve_pass_eq by (auto split: option.splits)
  from poll_all_ok [OF b(1) p] obtain t reg4 st where r1: "r1 = Done (t, reg4, st)" "reg_ok reg4" by blast
  have i4: "ids reg4 = ids ?reg" by (rule ids_poll) (use p r1(1) in simp)
  obtain reg5 where f: "fanout_pending (pe_api (le_poll env)) (pe_kit (le_poll env)) (le_flags env) (ck_fanout ck) (ck_wall ck) st reg4
      = Done reg5" "reg_ok reg5" "to_propagate reg5 = []"
    using fanout_pending_ok [OF r1(2)] by blast
  have i5: "ids reg5 = ids reg4" by (rule ids_fanout_pending [OF r1(2) f(1)])
  obtain fs reg6 where l: "flush_transmits (le_send env) (ck_poll ck) (ls_dedup s) (ls_net s) reg5 = (fs, reg6)"
    by (cases "flush_transmits (le_send env) (ck_poll ck) (ls_dedup s) (ls_net s) reg5")
  have "reg_ok reg6" by (rule flush_ok [OF f(2) l])
  moreover have "ids reg6 = ids reg5" using ids_flush [of "le_send env" "ck_poll ck" "ls_dedup s" "ls_net s" reg5] l by simp
  moreover have "to_propagate reg6 = to_propagate reg5"
    using l by (auto simp: flush_transmits_def drain_transmits_def log_def)
  moreover have "10 ^ 6 \<le> sleep_for t n \<and> sleep_for t n \<le> MAX_SLEEP" for n by (simp add: sleep_for_def MAX_SLEEP_def)
  moreover have "\<forall>i \<in> ids ?reg. i < ls_next_id s" using b(2) assms(1) by (auto simp: loop_ok_def)
  ultimately show ?thesis using assms p r1(1) f(1,3) l i4 i5 unfolding serve_pass_eq loop_ok_def by auto
qed

section \<open>The arms\<close>

lemma browser_client_ok:
  "client_ok (browser_client env cid tx pc) \<and> cl_id (browser_client env cid tx pc) = cid \<and>
    list_all neutral (metrics (browser_client env cid tx pc))"
proof -
  let ?c = "new_client (pe_api (le_poll env)) (le_with_config env) (le_pacer_config env) cid (pc_rtc pc)"
  have v: "cap_view (browser_client env cid tx pc) = cap_view ?c"
    by (simp add: browser_client_def with_ws_ctrl_rx_def with_ws_msg_tx_def with_close_signal_def with_external_peer_id_def
        with_sfu_events_dc_def with_reactions_dc_def with_chat_dcs_def with_keys_dc_def cap_view_def bump_def Let_def split: prod.splits)
  have n: "cl_id ?c = cid" "metrics ?c = []" by (simp_all add: new_client_def split: prod.splits)
  then have "cl_id (browser_client env cid tx pc) = cid \<and> list_all neutral (metrics (browser_client env cid tx pc))"
    by (simp add: browser_client_def with_ws_ctrl_rx_def with_ws_msg_tx_def with_close_signal_def with_external_peer_id_def
        with_sfu_events_dc_def with_reactions_dc_def with_chat_dcs_def with_keys_dc_def bump_def Let_def split: prod.splits)
  then show ?thesis using client_ok_view [OF client_ok_new v] by simp
qed

lemma outbound_relay_ok:
  "client_ok (new_outbound_relay api wc cfg cid r dc url tok) \<and> cl_id (new_outbound_relay api wc cfg cid r dc url tok) = cid"
  using client_ok_view [OF client_ok_new [of api wc cfg cid r], of "new_outbound_relay api wc cfg cid r dc url tok"]
  by (auto simp: new_outbound_relay_def cap_view_def new_client_def split: prod.splits)

lemma insert_loop_ok:
  assumes "loop_ok s" and "client_ok c" and "cl_id c = ls_next_id s" and "ls_next_id s + 1 < 2 ^ 64" and "participants ms = 0"
  shows "loop_ok (s\<lparr>ls_registry := fst (insert_client api kit now st c (log ms (ls_registry s))), ls_tracks := st', ls_next_id := (ls_next_id s + 1) mod 2 ^ 64\<rparr>)"
proof -
  have ok: "reg_ok (log ms (ls_registry s))" using assms(1,5) by (intro reg_ok_log) (simp_all add: loop_ok_def)
  have "cl_id c \<notin> cl_id ` set (clients (log ms (ls_registry s)))"
    using assms(1,3) by (auto simp: loop_ok_def ids_def log_def)
  from insert_ok [OF ok assms(2) this] ids_insert [OF ok, of api kit now st c] show ?thesis
    using assms(1,3,4) by (fastforce simp: loop_ok_def)
qed

lemma log_Nil [simp]: "log [] reg = reg"
  by (simp add: log_def)

lemma serve_arm_ok:
  assumes "loop_ok s" and "ls_next_id s + 1 < 2 ^ 64"
  shows "loop_ok (serve_arm env now arm s) \<and> ls_next_id (serve_arm env now arm s) \<le> ls_next_id s + 1"
proof (cases arm)
  case Slept
  then show ?thesis using assms(1) by (auto simp: loop_ok_def tick_ok ids_tick)
next
  case AsoTick
  have "clients (emit_publisher_layer_hints st (tick_speaker_scores kit (tick_active_speaker kit t reg))) = clients reg"
    for st kit t and reg :: "('a, 'b, 'c, 'd) registry"
    by (simp add: emit_publisher_layer_hints_def tick_speaker_scores_def tick_active_speaker_def log_def Let_def
        split: prod.splits option.splits)
  then show ?thesis using assms(1) AsoTick
    by (auto simp: loop_ok_def ids_def intro!: hints_ok speaker_scores_ok active_speaker_ok)
next
  case (Received m)
  then show ?thesis using assms(1) by (auto simp: loop_ok_def incoming_ok ids_incoming)
next
  case (RelayPending pr)
  let ?c = "new_outbound_relay (pe_api (le_poll env)) (le_with_config env) (le_pacer_config env) (ls_next_id s) (pr_rtc pr)
      (pr_dc_id pr) (pr_upstream_url pr) (pr_upstream_room_token pr)"
  have "client_ok ?c" "cl_id ?c = ls_next_id s"
    using outbound_relay_ok [of "pe_api (le_poll env)" "le_with_config env" "le_pacer_config env" "ls_next_id s" "pr_rtc pr"
        "pr_dc_id pr" "pr_upstream_url pr" "pr_upstream_room_token pr"] by auto
  from insert_loop_ok [OF assms(1) this assms(2), of "[]"] RelayPending assms(2) show ?thesis
    by (simp add: inject_relay_def next_client_id_def Let_def split_def)
next
  case (ClientPending pc)
  let ?tracks = "tracks_map (clients (ls_registry s))"
  let ?c = "browser_client env (ls_next_id s) (snd (try_send (TracksMap ?tracks) (pc_ws_msg_tx pc))) pc"
  let ?ms = "[Inc ''tracks_map_sent_total'' [if ?tracks \<noteq> [] then ''true'' else ''false''], Inc ''sfu_late_join_resync_total''
      [''peer_joined_late'', if ?tracks \<noteq> [] then ''tracks_map_sent'' else ''no_op_empty_room'']] @ metrics ?c"
  have c: "client_ok ?c" "cl_id ?c = ls_next_id s" "list_all neutral (metrics ?c)"
    using browser_client_ok [of env "ls_next_id s" _ pc] by blast+
  have "participants ?ms = 0" by (rule participants_neutral) (simp add: c(3))
  from insert_loop_ok [OF assms(1) c(1,2) assms(2) this] ClientPending assms(2) show ?thesis
    by (simp add: inject_client_def next_client_id_def Let_def split_def split del: if_split)
qed (use assms(1) in \<open>auto simp: loop_ok_def reg_ok_log\<close>)

section \<open>A pass returns\<close>

text \<open>
  What the loop relies on of the transport: a measure of the outputs it still holds, which every output
  decreases; an event is worth more than the outputs the one call its handler makes can cause; and a
  disconnected transport is not alive.
\<close>

definition bounded_outputs :: "('r, 'p) rtc_api \<Rightarrow> ('r \<Rightarrow> rtc_output option \<times> 'r) \<Rightarrow> ('r \<Rightarrow> nat) \<Rightarrow> nat \<Rightarrow> bool" where
  "bounded_outputs api poll held k \<longleftrightarrow>
    (\<forall>r r' t. poll r = (Some (Transmit t), r') \<longrightarrow> held r' < held r) \<and>
    (\<forall>r r' e. poll r = (Some (Event e), r') \<longrightarrow> held r' + k < held r) \<and>
    (\<forall>r m rd kind. held (rtc_request_keyframe api r m rd kind) \<le> held r + k) \<and>
    (\<forall>r i d. held (snd (rtc_channel_write api r i d)) \<le> held r + k) \<and>
    (\<forall>r. \<not> rtc_is_alive api (rtc_disconnect api r))"

lemma rtc_bump [simp]: "rtc (bump m c) = rtc c"
  by (simp add: bump_def)

lemma rtc_stat [simp]: "rtc (set_if nm ls v c) = rtc c" "rtc (inc_if nm ls n c) = rtc c"
  by (simp_all add: set_if_def inc_if_def split: option.splits)

lemma rtc_throttled:
  "rtc (request_keyframe_throttled api now m r k c) = rtc c \<or>
   rtc (request_keyframe_throttled api now m r k c) = rtc_request_keyframe api (rtc c) m r k"
  by (simp add: request_keyframe_throttled_def mark_requested_def split: option.splits)

lemma handle_event_held:
  assumes "bounded_outputs api poll held k" and "handle_event api lib js p now unix ref st e c = Done (ev, c', st')"
  shows "held (rtc c') \<le> held (rtc c) + k \<or> \<not> rtc_is_alive api (rtc c')"
proof (cases e)
  case (Media d)
  have "held (rtc (request_keyframe_throttled api now (md_mid d) (md_rid d) Fir c)) \<le> held (rtc c) + k"
    using rtc_throttled [of api now "md_mid d" "md_rid d" Fir c] assms(1) unfolding bounded_outputs_def by auto
  then show ?thesis using assms(2)
    by (auto simp: handle_event_def Media track_in_media_def Let_def split: option.splits if_splits)
next
  case Connected
  have "held (rtc (on_connected api js c)) \<le> held (rtc c) + k"
    using assms(1) unfolding bounded_outputs_def by (auto simp: on_connected_def Let_def split: option.splits)
  then show ?thesis using assms(2) by (simp add: handle_event_def Connected)
next
  case (IceConnectionStateChange x)
  then show ?thesis using assms unfolding bounded_outputs_def by (auto simp: handle_event_def Let_def split: if_splits)
qed (use assms(2) in \<open>auto simp: handle_event_def track_in_added_def open_negotiated_def Let_def split: if_splits out.splits\<close>)

lemma poll_once_held:
  assumes "bounded_outputs (pe_api env) (pe_poll env) held k" and "rtc_is_alive (pe_api env) (rtc c)"
    and "poll_once env st c = Done (ev, c', st')"
  shows "(\<exists>t. ev = Timeout t) \<or> held (rtc c') < held (rtc c) \<or> \<not> rtc_is_alive (pe_api env) (rtc c')"
proof -
  obtain out1 r where p: "pe_poll env (rtc c) = (out1, r)" by (cases "pe_poll env (rtc c)")
  show ?thesis
  proof (cases out1)
    case None
    then show ?thesis using assms p unfolding bounded_outputs_def by (auto simp: poll_once_def poll_output_def Let_def)
  next
    case o: (Some x)
    show ?thesis
    proof (cases x)
      case (Transmit t)
      then have "held r < held (rtc c)" using assms(1) p o unfolding bounded_outputs_def by blast
      then show ?thesis using assms(2,3) p o Transmit by (auto simp: poll_once_def poll_output_def handle_output_def Let_def)
    next
      case (TimeoutAt t)
      then show ?thesis using assms(2,3) p o by (auto simp: poll_once_def poll_output_def handle_output_def Let_def)
    next
      case (Event e)
      then have h: "held r + k < held (rtc c)" using assms(1) p o unfolding bounded_outputs_def by blast
      let ?c = "bump (Inc ''sfu_str0m_output_total'' [client_label (c\<lparr>rtc := r\<rparr>), kind_of_output x]) (c\<lparr>rtc := r\<rparr>)"
      have "\<exists>ref. handle_event (pe_api env) (pe_lib env) (pe_json_str env) (pe_policy env) (pe_now env) (pe_unix env) ref st e ?c
          = Done (ev, c', st')"
        using assms(2,3) p o Event by (auto simp: poll_once_def poll_output_def handle_output_def Let_def)
      then obtain ref where "handle_event (pe_api env) (pe_lib env) (pe_json_str env) (pe_policy env) (pe_now env) (pe_unix env) ref st e ?c
          = Done (ev, c', st')" ..
      from handle_event_held [OF assms(1) this] h show ?thesis by auto
    qed
  qed
qed

lemma poll_client_returns:
  assumes "bounded_outputs (pe_api env) (pe_poll env) held k"
  shows "\<exists>r. poll_client env c ps = Some r"
proof (induction "held (rtc c)" arbitrary: c ps rule: less_induct)
  case less
  show ?case
  proof (cases "rtc_is_alive (pe_api env) (rtc c)")
    case False
    then show ?thesis by (subst poll_client.simps) simp
  next
    case alive: True
    obtain ev c1 st1 where o1: "poll_once env (pp_store ps) c = Done (ev, c1, st1)" using poll_once_ok by blast
    have go: "\<exists>r. poll_client env c1 qs = Some r" if "\<forall>t. ev \<noteq> Timeout t" for qs
    proof (cases "rtc_is_alive (pe_api env) (rtc c1)")
      case False
      then show ?thesis by (subst poll_client.simps) simp
    next
      case True
      then show ?thesis using poll_once_held [OF assms alive o1] that by (intro less) auto
    qed
    show ?thesis using alive o1 go by (subst poll_client.simps) (cases ev; simp add: Let_def)
  qed
qed

lemma poll_clients_returns:
  assumes "bounded_outputs (pe_api env) (pe_poll env) held k"
  shows "\<exists>r. poll_clients env cs ps = Some r"
proof (induction cs arbitrary: ps)
  case (Cons c cs)
  obtain r1 where r1: "poll_client env c ps = Some r1" using poll_client_returns [OF assms] by blast
  then obtain c1 ps1 where c1: "poll_client env c ps = Some (Done (c1, ps1))"
    using poll_client_ok [OF r1] by (auto simp: polled_def)
  obtain r2 where r2: "poll_clients env cs ps1 = Some r2" using Cons.IH by blast
  then show ?case using poll_clients_ok [OF r2] c1 by auto
qed simp

lemma serve_pass_returns_any:
  assumes "bounded_outputs (pe_api (le_poll env)) (pe_poll (le_poll env)) held k" and "loop_ok s"
  shows "\<exists>r. serve_pass env ck s = Some r"
proof -
  let ?reg = "serve_before_poll env ck s" and ?pe = "poll_env_at env ck (serve_before_poll env ck s)"
  have b: "bounded_outputs (pe_api ?pe) (pe_poll ?pe) held k" using assms(1) by (simp add: poll_env_at_def)
  obtain r1 where p: "poll_all ?pe (snd (serve_reaped env ck s)) ?reg = Some r1"
    using poll_clients_returns [OF b, of "clients ?reg"] unfolding poll_all_def
    by (fastforce split: option.splits out.splits)
  from poll_all_ok [OF _ p] before_poll_ok [OF assms(2)] obtain t reg4 st where r1: "r1 = Done (t, reg4, st)" "reg_ok reg4" by blast
  then show ?thesis using p fanout_pending_ok [OF r1(2)] unfolding serve_pass_eq by (auto split: out.splits prod.splits)
qed

section \<open>The loop over time\<close>

lemma serve_run_ok:
  "serve_run env cks s0 s \<Longrightarrow> loop_ok s0 \<Longrightarrow> ls_next_id s0 + length cks < 2 ^ 64 \<Longrightarrow>
    loop_ok s \<and> ls_next_id s \<le> ls_next_id s0 + length cks"
proof (induction rule: serve_run.induct)
  case (more cks s s1 ck s2)
  then have 1: "loop_ok s1" "ls_next_id s1 \<le> ls_next_id s + length cks" by auto
  from more(2) show ?case
  proof (cases rule: serve_step.cases)
    case (iteration sleep s3 arm)
    from serve_pass_ok [OF 1(1) iteration(2)] have 3: "loop_ok s3" "ls_next_id s3 = ls_next_id s1" by auto
    moreover have "ls_next_id s3 + 1 < 2 ^ 64" using 3 1(2) more.prems(2) by simp
    ultimately show ?thesis using serve_arm_ok [of s3 env "ck_arm ck" arm] 1(2) iteration(1) by simp
  qed
qed auto

lemma serve_run_start_ok:
  assumes "serve_run env cks (serve_start det bw now secret pubkey fallback net relay client) s" and "length cks < 2 ^ 64"
  shows "loop_ok s"
  using serve_run_ok [OF assms(1) serve_start_ok] assms(2) by (simp add: serve_start_def)

text \<open>C6: Whatever datagrams, browsers and relays reach the loop, in any order, whatever the transports do
  and for fewer than \<open>2\<^sup>6\<^sup>4\<close> iterations: client ids are distinct, no browser peer has two sessions in the
  room, the solo clock only runs in a room of one, the gauge \<open>active_participants\<close> is the number of clients,
  and no pending event carries a temporal cap outside its byte.\<close>

theorem serve_invariant:
  assumes "serve_run env cks (serve_start det bw now secret pubkey fallback net relay client) s" and "length cks < 2 ^ 64"
  shows "distinct (map cl_id (clients (ls_registry s))) \<and>
    distinct (filter (\<lambda>x. x \<noteq> None) (map external_peer_id (clients (ls_registry s)))) \<and>
    (solo_since (ls_registry s) \<noteq> None \<longrightarrow> length (clients (ls_registry s)) = 1) \<and>
    participants (reg_metrics (ls_registry s)) = int (length (clients (ls_registry s))) \<and>
    queue_ok (to_propagate (ls_registry s))"
  using serve_run_start_ok [OF assms] by (simp add: loop_ok_def reg_ok_def room_ok_def sessions_def)

text \<open>C7: From every state the loop reaches, with a transport whose pending outputs are bounded, the next pass
  over the registry returns: no client makes it panic, no packet makes the event queue feed itself, the
  queue is empty afterwards, and the loop then waits at least one and at most 100 milliseconds.\<close>

theorem serve_pass_returns:
  assumes "serve_run env cks (serve_start det bw now secret pubkey fallback net relay client) s" and "length cks < 2 ^ 64"
    and "bounded_outputs (pe_api (le_poll env)) (pe_poll (le_poll env)) held k"
  shows "\<exists>sleep s1. serve_pass env ck s = Some (Done (sleep, s1)) \<and> to_propagate (ls_registry s1) = [] \<and>
    10 ^ 6 \<le> sleep \<and> sleep \<le> MAX_SLEEP"
proof -
  have ok: "loop_ok s" by (rule serve_run_start_ok [OF assms(1,2)])
  obtain r where r: "serve_pass env ck s = Some r" using serve_pass_returns_any [OF assms(3) ok] by blast
  from serve_pass_ok [OF ok r] show ?thesis using r by auto
qed

lemma serve_arm_warned [simp]: "ls_warned (serve_arm env now arm s) = ls_warned s" "ls_dedup (serve_arm env now arm s) = ls_dedup s"
  by (cases arm; simp add: inject_relay_def inject_client_def next_client_id_def Let_def split_def)+

lemma serve_pass_warned:
  fixes env :: "('r, 'p, 'b, 'd, 'm, 'i, 'w) loop_env"
  assumes "serve_pass env ck s = Some (Done (sleep, s1))" and "dedup_covers t0 (ls_dedup s) (ls_warned s)" and "t0 \<le> ck_poll ck"
    and "warnings_spaced (ls_warned s)"
  shows "dedup_covers (ck_poll ck) (ls_dedup s1) (ls_warned s1) \<and> warnings_spaced (ls_warned s1)"
proof -
  obtain fs reg6 and reg5 :: "('r, 'p, 'b, 'd) registry" where f: "flush_transmits (le_send env) (ck_poll ck) (ls_dedup s) (ls_net s) reg5 = (fs, reg6)"
    "ls_dedup s1 = retain_recent (ck_poll ck) (fs_dedup fs)"
    "ls_warned s1 = ls_warned s @ map (Pair (ck_poll ck)) (fs_warned fs)"
    using assms(1) unfolding serve_pass_eq by (auto split: option.splits out.splits prod.splits)
  let ?fs0 = "\<lparr>fs_dedup = ls_dedup s, fs_net = ls_net s, fs_metrics = [], fs_attempted = [], fs_warned = []\<rparr>"
  have "dedup_covers (ck_poll ck) (ls_dedup s) (ls_warned s)" using covers_later [OF assms(2,3)] ..
  then have "dedup_covers (ck_poll ck) (fs_dedup fs) (ls_warned s1) \<and> warnings_spaced (ls_warned s1)"
    using flush_fold_warned [of "ck_poll ck" ?fs0 "ls_warned s" "le_send env"] assms(4) f(1,3)
    by (auto simp: flush_transmits_def split: prod.splits)
  then show ?thesis using covers_later [of "ck_poll ck" "fs_dedup fs" "ls_warned s1" "ck_poll ck"] by (simp add: f(2))
qed

lemma serve_run_warned:
  "serve_run env cks s0 s \<Longrightarrow> ls_warned s0 = [] \<Longrightarrow> sorted (map ck_poll cks) \<Longrightarrow>
    dedup_covers (if cks = [] then 0 else ck_poll (last cks)) (ls_dedup s) (ls_warned s) \<and> warnings_spaced (ls_warned s)"
proof (induction rule: serve_run.induct)
  case (more cks s s1 ck s2)
  let ?t = "if cks = [] then 0 else ck_poll (last cks)"
  have o: "sorted (map ck_poll cks)" "?t \<le> ck_poll ck" using more.prems(2) by (auto simp: sorted_append)
  from more.IH [OF more.prems(1) o(1)] have "dedup_covers ?t (ls_dedup s1) (ls_warned s1)" "warnings_spaced (ls_warned s1)" by auto
  with more(2) o(2) show ?case by (auto elim!: serve_step.cases dest!: serve_pass_warned)
qed (simp add: dedup_covers_def warnings_spaced_def)

text \<open>C31: Over any run of the loop with a clock that does not go back, two warnings about failed sends to one
  destination are at least ten seconds apart, even though the record of past failures is pruned on every
  iteration.\<close>

theorem send_warnings_rate_limited:
  assumes "serve_run env cks (serve_start det bw now secret pubkey fallback net relay client) s" and "sorted (map ck_poll cks)"
  shows "warnings_spaced (ls_warned s)"
  using serve_run_warned [OF assms(1) _ assms(2)] by (simp add: serve_start_def)

section \<open>A concrete loop\<close>

text \<open>
  A transport that holds datagrams: its state counts them, zero is a disconnected one, and above five it
  emits one per poll.  The network refuses every datagram.
\<close>

definition far_addr :: socket_addr where
  "far_addr = \<lparr>sa_ip = V4 0x08080808, sa_port = 443\<rparr>"

definition loop_api :: "(nat, nat) rtc_api" where
  "loop_api = demo_api\<lparr>rtc_is_alive := (\<lambda>r. 0 < r), rtc_disconnect := (\<lambda>_. 0)\<rparr>"

definition loop_poll :: "nat \<Rightarrow> rtc_output option \<times> nat" where
  "loop_poll r = (if r \<le> 5 then (Some (TimeoutAt 0), r) else (Some (Transmit \<lparr>destination = far_addr, contents = []\<rparr>), r - 1))"

definition loop_kit :: "(unit, unit) kit_api" where
  "loop_kit = \<lparr>bw_estimate_with_term = (\<lambda>b _ _. (None, b)), bw_record_native_estimate = (\<lambda>b _ _. b),
    bw_record_client_hint = (\<lambda>b _ _ _. b), bw_enable_googcc = (\<lambda>b _. b), bw_googcc_receive = (\<lambda>b _ _ _. b),
    bw_reap_dead = (\<lambda>b _. b), det_add_peer = (\<lambda>d _ _. d), det_remove_peer = (\<lambda>d _. d), det_record_level = (\<lambda>d _ _ _. d),
    det_tick = (\<lambda>d _. (None, d)), det_peer_scores = (\<lambda>_. []), det_current_top_k = (\<lambda>_ _. [])\<rparr>"

definition demo_loop :: "(nat, nat, unit, unit, nat, nat, unit) loop_env" where
  "demo_loop = \<lparr>le_poll = \<lparr>pe_api = loop_api, pe_poll = loop_poll, pe_lib = demo_lib, pe_json_str = (\<lambda>s. s), pe_policy = transitional,
      pe_now = 0, pe_unix = 0, pe_fresh = (\<lambda>_. 0), pe_kit = loop_kit, pe_epoch = 0\<rparr>,
    le_flags = \<lparr>floor_enabled = False, bwe_cap_enabled = False, pacer_min_tick = 0\<rparr>, le_feed_time = (\<lambda>_ r. (True, r)),
    le_decode = Some, le_accepts = (\<lambda>_ _. False), le_feed = (\<lambda>_ r. (True, r)), le_send = (\<lambda>w _. (Some (Some 101), w)),
    le_solo_kick = None, le_with_config = (\<lambda>_. 0),
    le_pacer_config = \<lparr>suspend_video_bps = 0, audio_only_bps = 0, low_min_bps = 0, medium_min_bps = 0, high_min_bps = 0,
      upgrade_streak = 0, suspend_streak = 0\<rparr>\<rparr>"

definition demo_clocks :: "instant \<Rightarrow> clocks" where
  "demo_clocks t = \<lparr>ck_reap = t, ck_solo = t, ck_pump = t, ck_poll = t, ck_unix = 0, ck_fanout = t, ck_wall = 0, ck_sleep = t, ck_arm = t\<rparr>"

definition demo_pending :: "nat pending_client" where
  "demo_pending = \<lparr>pc_rtc = 1, pc_external_peer_id = 9, pc_ws_msg_tx = \<lparr>wc_capacity = 4, wc_queue = [], wc_closed = False\<rparr>,
    pc_ws_ctrl_rx = \<lparr>wr_queue = [], wr_disconnected = False\<rparr>\<rparr>"

definition demo_start :: "(nat, nat, unit, unit, unit) loop_state" where
  "demo_start = serve_start () () 0 None None False () True True"

lemma demo_bounded: "bounded_outputs (pe_api (le_poll demo_loop)) (pe_poll (le_poll demo_loop)) id 1"
  by (auto simp: bounded_outputs_def demo_loop_def loop_api_def loop_poll_def demo_api_def split: if_splits)

definition demo_idle :: "(nat, nat, unit, unit, unit) loop_state" where
  "demo_idle = demo_start\<lparr>ls_registry := log [Inc ''udp_loop_iterations_total'' [], SetGauge ''active_rooms'' [] 0] (ls_registry demo_start)\<rparr>"

lemma demo_first_pass:
  "serve_pass demo_loop (demo_clocks 0) demo_start = Some (Done (100000000, demo_idle))"
  by (simp add: serve_pass_def demo_loop_def demo_clocks_def demo_start_def serve_start_def with_relay_auth_def demo_idle_def
      reap_dead_def pump_ws_ctrl_def poll_all_def fanout_pending.simps flush_transmits_def drain_transmits_def retain_recent_def
      log_def Let_def sleep_for_def MAX_SLEEP_def)

lemma demo_joined:
  "serve_run demo_loop [demo_clocks 0] demo_start (serve_arm demo_loop 0 (ClientPending demo_pending) demo_idle)"
proof -
  have "serve_step demo_loop (demo_clocks 0) demo_start (serve_arm demo_loop (ck_arm (demo_clocks 0)) (ClientPending demo_pending) demo_idle)"
    by (rule iteration [OF demo_first_pass]) (simp add: demo_idle_def demo_start_def serve_start_def)
  from serve_run.more [OF stay this] show ?thesis by (simp add: demo_clocks_def)
qed

lemma demo_joined_clients:
  "map ident (clients (ls_registry (serve_arm demo_loop 0 (ClientPending demo_pending) demo_idle))) = [(0, Some 9)]"
  by (simp add: inject_client_def demo_idle_def demo_start_def serve_start_def with_relay_auth_def next_client_id_def insert_client_def
      browser_client_def with_ws_ctrl_rx_def with_ws_msg_tx_def with_close_signal_def with_external_peer_id_def demo_pending_def
      with_sfu_events_dc_def with_reactions_dc_def with_chat_dcs_def with_keys_dc_def new_client_def demo_loop_def loop_api_def
      demo_api_def published_def log_def ident_def bump_def Let_def)

theorem serve_invariant_witness:
  "\<exists>s. serve_run demo_loop [demo_clocks 0] demo_start s \<and> map ident (clients (ls_registry s)) = [(0, Some 9)] \<and>
    distinct (map cl_id (clients (ls_registry s))) \<and> participants (reg_metrics (ls_registry s)) = 1"
proof -
  let ?s = "serve_arm demo_loop 0 (ClientPending demo_pending) demo_idle"
  have "length (clients (ls_registry ?s)) = 1" using arg_cong [OF demo_joined_clients, of length] by simp
  then show ?thesis
    using serve_invariant [OF demo_joined [unfolded demo_start_def]] demo_joined demo_joined_clients by (intro exI [of _ ?s]) simp
qed

theorem serve_pass_returns_witness:
  "serve_run demo_loop [demo_clocks 0] demo_start (serve_arm demo_loop 0 (ClientPending demo_pending) demo_idle) \<and>
   (\<exists>sleep s1. serve_pass demo_loop (demo_clocks 1) (serve_arm demo_loop 0 (ClientPending demo_pending) demo_idle) = Some (Done (sleep, s1)) \<and>
     to_propagate (ls_registry s1) = [])"
  using serve_pass_returns [OF demo_joined [unfolded demo_start_def] _ demo_bounded, of "demo_clocks 1"] demo_joined by auto

lemma far_addr_routable: "is_bogon far_addr = None"
  by (simp add: is_bogon_def far_addr_def octet_div is_private_def)

lemma demo_second_pass:
  "\<exists>sleep s1. serve_pass demo_loop (demo_clocks 1) (serve_arm demo_loop 0 (ClientPending demo_pending) demo_idle) = Some (Done (sleep, s1)) \<and>
    ls_warned s1 = [(1, far_addr)]"
  by (simp add: inject_client_def demo_idle_def demo_start_def serve_start_def with_relay_auth_def next_client_id_def insert_client_def
      browser_client_def with_ws_ctrl_rx_def with_ws_msg_tx_def with_close_signal_def with_external_peer_id_def demo_pending_def
      with_sfu_events_dc_def with_reactions_dc_def with_chat_dcs_def with_keys_dc_def new_client_def demo_loop_def loop_api_def
      demo_api_def published_def log_def bump_def Let_def
      serve_pass_def demo_clocks_def reap_dead_def pump_ws_ctrl_def drain_ws_ctrl_def pump_keyframe_waits_def poll_all_def poll_client.simps
      poll_once_def poll_output_def handle_output_def loop_poll_def observe_media_def
      fanout_pending.simps consume_def fanout_def flush_transmits_def drain_transmits_def flush_one_def far_addr_routable should_log_def
      SEND_FAIL_DEDUP_WINDOW_def)

theorem send_warnings_rate_limited_witness:
  "\<exists>s. serve_run demo_loop [demo_clocks 0, demo_clocks 1] demo_start s \<and> ls_warned s = [(1, far_addr)] \<and> warnings_spaced (ls_warned s)"
proof -
  obtain sleep s1 where p: "serve_pass demo_loop (demo_clocks 1) (serve_arm demo_loop 0 (ClientPending demo_pending) demo_idle)
      = Some (Done (sleep, s1))" "ls_warned s1 = [(1, far_addr)]" using demo_second_pass by blast
  let ?s = "serve_arm demo_loop (ck_arm (demo_clocks 1)) RecvFailed s1"
  have "serve_run demo_loop ([demo_clocks 0] @ [demo_clocks 1]) demo_start ?s"
    by (rule serve_run.more [OF demo_joined iteration [OF p(1)]]) simp
  then have r: "serve_run demo_loop [demo_clocks 0, demo_clocks 1] demo_start ?s" by simp
  have "sorted (map ck_poll [demo_clocks 0, demo_clocks 1])" by (simp add: demo_clocks_def)
  from send_warnings_rate_limited [OF r [unfolded demo_start_def] this] r p(2) show ?thesis by (intro exI [of _ ?s]) simp
qed

end
