(* ===== verification/Sfu_Config.thy ===== *)
theory Sfu_Config
  imports Sfu_Serve
begin

unbundle bit_operations_syntax

text \<open>
  The configuration of the SFU (\<open>src/crates/sfu/src/config.rs\<close>) read from the environment, with the
  address parser of \<open>std::net\<close>, and how the private host candidate meets the filter of the UDP loop.
  The environment is a lookup function: \<open>None\<close> for a variable that is unset or not Unicode.
\<close>

section \<open>Reading an address\<close>

text \<open>The parser of \<open>std::net\<close>: each reader takes a prefix of the input or leaves it alone.\<close>

type_synonym 'a addr_reader = "string \<Rightarrow> ('a \<times> string) option"

definition digit_of :: "int \<Rightarrow> char \<Rightarrow> int option" where
  "digit_of radix c =
    (let l = of_char (to_lower c) :: int;
         v = (if is_digit c then l - 48 else if 97 \<le> l \<and> l \<le> 122 then l - 87 else radix) in
     if v < radix then Some v else None)"

definition read_number :: "int \<Rightarrow> nat \<Rightarrow> int \<Rightarrow> bool \<Rightarrow> int addr_reader" where
  "read_number radix max_digits hi allow_zero_prefix s =
    (let ds = takeWhile (\<lambda>c. digit_of radix c \<noteq> None) s;
         v = foldl (\<lambda>n c. n * radix + the (digit_of radix c)) 0 ds in
     if ds = [] \<or> length ds > max_digits \<or> v > hi then None
     else if \<not> allow_zero_prefix \<and> hd ds = CHR ''0'' \<and> length ds > 1 then None
     else Some (v, drop (length ds) s))"

definition read_separator :: "char \<Rightarrow> nat \<Rightarrow> 'a addr_reader \<Rightarrow> 'a addr_reader" where
  "read_separator sep i inner s =
    (if i = 0 then inner s
     else case s of c # cs \<Rightarrow> if c = sep then inner cs else None | [] \<Rightarrow> None)"

fun read_octets :: "nat \<Rightarrow> nat \<Rightarrow> 32 word \<Rightarrow> (32 word) addr_reader" where
  "read_octets i 0 acc s = Some (acc, s)"
| "read_octets i (Suc k) acc s =
    (case read_separator (CHR ''.'') i (read_number 10 3 255 False) s of
       None \<Rightarrow> None
     | Some (v, r) \<Rightarrow> read_octets (Suc i) k (acc * 256 + word_of_int v) r)"

definition read_ipv4_addr :: "(32 word) addr_reader" where
  "read_ipv4_addr = read_octets 0 4 0"

text \<open>Up to \<open>left\<close> groups, the last two possibly written as an IPv4 address; the flag says they were.\<close>

fun read_groups :: "nat \<Rightarrow> nat \<Rightarrow> string \<Rightarrow> int list \<times> bool \<times> string" where
  "read_groups i 0 s = ([], False, s)"
| "read_groups i (Suc left) s =
    (case (if left > 0 then read_separator (CHR '':'') i read_ipv4_addr s else None) of
       Some (a, r) \<Rightarrow> ([uint a div 65536, uint a mod 65536], True, r)
     | None \<Rightarrow>
         (case read_separator (CHR '':'') i (read_number 16 4 65535 True) s of
            None \<Rightarrow> ([], False, s)
          | Some (g, r) \<Rightarrow> (case read_groups (Suc i) left r of (gs, v4, r') \<Rightarrow> (g # gs, v4, r'))))"

definition from_groups :: "int list \<Rightarrow> 128 word" where
  "from_groups gs = word_of_int (foldl (\<lambda>n g. n * 65536 + g) 0 gs)"

definition read_ipv6_addr :: "(128 word) addr_reader" where
  "read_ipv6_addr s =
    (case read_groups 0 8 s of (head, head_ipv4, r) \<Rightarrow>
     if length head = 8 then Some (from_groups head, r)
     else if head_ipv4 then None
     else (case strip_prefix ''::'' r of
             None \<Rightarrow> None
           | Some r1 \<Rightarrow>
               (case read_groups 0 (8 - (length head + 1)) r1 of (tail, _, r2) \<Rightarrow>
                  Some (from_groups (head @ replicate (8 - length head - length tail) 0 @ tail), r2))))"

definition parse_ip :: "string \<Rightarrow> ip_addr option" where
  "parse_ip s =
    (case (case read_ipv4_addr s of
             Some (a, r) \<Rightarrow> Some (V4 a, r)
           | None \<Rightarrow> map_option (\<lambda>(a, r). (V6 a, r)) (read_ipv6_addr s)) of
       Some (ip, []) \<Rightarrow> Some ip
     | _ \<Rightarrow> None)"

section \<open>The configuration\<close>

record sfu_config =
  udp_port :: nat
  metrics_port :: nat
  bind_address :: string
  log_level :: string
  relay_api_port :: nat
  client_ws_port :: nat
  relay_auth_secret :: "string option"
  fips_mode :: bool
  sfu_signing_public_key :: "string option"
  public_ip :: "ip_addr option"
  local_ip :: "ip_addr option"
  stats_interval_secs :: nat
  solo_kick_after_secs :: nat
  metrics_bind :: "string option"
  relay_api_bind :: "string option"
  client_ws_bind :: "string option"
  relay_hs256_fallback_enabled :: bool

definition default_config :: sfu_config where
  "default_config = \<lparr>udp_port = 3478, metrics_port = 9317, bind_address = ''0.0.0.0'', log_level = ''info'',
     relay_api_port = 8912, client_ws_port = 8920, relay_auth_secret = None, fips_mode = False,
     sfu_signing_public_key = None, public_ip = None, local_ip = None, stats_interval_secs = 2,
     solo_kick_after_secs = 120, metrics_bind = None, relay_api_bind = None, client_ws_bind = None,
     relay_hs256_fallback_enabled = True\<rparr>"

definition additional_host_candidates :: "sfu_config \<Rightarrow> socket_addr \<Rightarrow> socket_addr list" where
  "additional_host_candidates cfg primary =
    (case local_ip cfg of
       Some ip \<Rightarrow> if ip \<noteq> sa_ip primary then [\<lparr>sa_ip = ip, sa_port = sa_port primary\<rparr>] else []
     | None \<Rightarrow> [])"

type_synonym environ = "string \<Rightarrow> string option"

definition env_var_or :: "environ \<Rightarrow> string \<Rightarrow> string \<Rightarrow> string" where
  "env_var_or get key dflt = (case get key of Some v \<Rightarrow> v | None \<Rightarrow> dflt)"

definition parse_hs256_fallback_env :: "environ \<Rightarrow> bool" where
  "parse_hs256_fallback_env get =
    (case get ''SFU_RELAY_HS256_FALLBACK'' of
       None \<Rightarrow> True
     | Some raw \<Rightarrow>
         (let v = trim raw in
          if v = [] then True
          else if map to_lower v = ''false'' \<or> v = ''0'' then False
          else if map to_lower v = ''true'' \<or> v = ''1'' then True
          else True))"

definition parse_public_ip_env :: "environ \<Rightarrow> ip_addr option" where
  "parse_public_ip_env get =
    (case get ''SFU_PUBLIC_IP'' of
       None \<Rightarrow> None
     | Some raw \<Rightarrow> if raw = [] then None else parse_ip raw)"

fun is_private_relay_target :: "ip_addr \<Rightarrow> bool" where
  "is_private_relay_target (V4 a) = is_private a"
| "is_private_relay_target (V6 a) = (and (segment0 a) 0xfe00 = 0xfc00)"

definition parse_local_ip_env :: "environ \<Rightarrow> ip_addr option" where
  "parse_local_ip_env get =
    (case get ''SFU_LOCAL_IP'' of
       None \<Rightarrow> None
     | Some raw \<Rightarrow>
         if raw = [] then None
         else (case parse_ip raw of
                 Some ip \<Rightarrow> if is_private_relay_target ip then Some ip else None
               | None \<Rightarrow> None))"

definition nonempty :: "string option \<Rightarrow> string option" where
  "nonempty v = (case v of Some s \<Rightarrow> if s = [] then None else Some s | None \<Rightarrow> None)"

text \<open>A port that does not parse is an \<open>expect\<close>; the two intervals fall back to their defaults.\<close>

definition port_env :: "environ \<Rightarrow> string \<Rightarrow> nat \<Rightarrow> nat option" where
  "port_env get key dflt = parse_unsigned 65535 (env_var_or get key (show_nat dflt))"

definition secs_env :: "environ \<Rightarrow> string \<Rightarrow> nat \<Rightarrow> nat" where
  "secs_env get key dflt =
    (case Option.bind (get key) (parse_unsigned u64_max) of Some n \<Rightarrow> n | None \<Rightarrow> dflt)"

definition from_env :: "environ \<Rightarrow> sfu_config out" where
  "from_env get =
    (let d = default_config in
     case (port_env get ''SFU_UDP_PORT'' (udp_port d), port_env get ''SFU_METRICS_PORT'' (metrics_port d),
           port_env get ''SFU_RELAY_API_PORT'' (relay_api_port d), port_env get ''SFU_CLIENT_WS_PORT'' (client_ws_port d)) of
       (Some up, Some mp, Some rp, Some cp) \<Rightarrow>
         Done \<lparr>udp_port = up, metrics_port = mp, bind_address = env_var_or get ''SFU_BIND_ADDRESS'' (bind_address d),
           log_level = env_var_or get ''RUST_LOG'' (log_level d), relay_api_port = rp, client_ws_port = cp,
           relay_auth_secret = nonempty (get ''SIGNALING_SFU_SECRET''), fips_mode = (get ''SFU_FIPS'' = Some ''1''),
           sfu_signing_public_key = get ''SFU_SIGNING_PUBLIC_KEY'', public_ip = parse_public_ip_env get,
           local_ip = parse_local_ip_env get, stats_interval_secs = secs_env get ''STR0M_STATS_INTERVAL_SECS'' 2,
           solo_kick_after_secs = secs_env get ''SFU_SOLO_KICK_AFTER_SECS'' 120,
           metrics_bind = nonempty (get ''SFU_METRICS_BIND''), relay_api_bind = nonempty (get ''SFU_RELAY_API_BIND''),
           client_ws_bind = nonempty (get ''SFU_CLIENT_WS_BIND''),
           relay_hs256_fallback_enabled = parse_hs256_fallback_env get\<rparr>
     | _ \<Rightarrow> Panic)"

definition metrics_bind_addr :: "sfu_config \<Rightarrow> string" where
  "metrics_bind_addr cfg = (case metrics_bind cfg of Some a \<Rightarrow> a | None \<Rightarrow> ''127.0.0.1'')"

definition relay_api_bind_addr :: "sfu_config \<Rightarrow> string" where
  "relay_api_bind_addr cfg = (case relay_api_bind cfg of Some a \<Rightarrow> a | None \<Rightarrow> bind_address cfg)"

definition client_ws_bind_addr :: "sfu_config \<Rightarrow> string" where
  "client_ws_bind_addr cfg = (case client_ws_bind cfg of Some a \<Rightarrow> a | None \<Rightarrow> bind_address cfg)"

definition DEFAULT_MAX_PARTICIPANTS :: nat where "DEFAULT_MAX_PARTICIPANTS = 50"

definition max_participants :: "environ \<Rightarrow> nat" where
  "max_participants get =
    (case get ''SFU_MAX_PARTICIPANTS'' of
       Some raw \<Rightarrow> if raw \<noteq> [] then (case parse_unsigned u32_max raw of Some n \<Rightarrow> n | None \<Rightarrow> DEFAULT_MAX_PARTICIPANTS)
                 else DEFAULT_MAX_PARTICIPANTS
     | None \<Rightarrow> DEFAULT_MAX_PARTICIPANTS)"

section \<open>What the configuration guarantees\<close>

lemma unique_local_div: "and (segment0 a) 0xfe00 = 0xfc00 \<longleftrightarrow> unat a div 2 ^ 121 = 0x7e"
proof -
  have "(0xfe00 :: 16 word) = NOT (mask 9)" by (simp add: mask_eq_exp_minus_1)
  then show ?thesis using segment0_prefix [of 9 "0x7e" a] by simp
qed

lemma private_is_rfc1918: "is_private_relay_target ip \<Longrightarrow> is_bogon_ip ip = Some ''rfc1918''"
proof (cases ip)
  case (V4 a)
  then show "is_private_relay_target ip \<Longrightarrow> is_bogon_ip ip = Some ''rfc1918''" by (auto simp: is_private_def)
next
  case (V6 a)
  assume "is_private_relay_target ip"
  then have u: "unat a div 2 ^ 121 = 0x7e" using V6 by (simp only: is_private_relay_target.simps unique_local_div)
  have l: "unat a div 2 ^ 118 \<noteq> 0x3fa"
  proof
    assume "unat a div 2 ^ 118 = 0x3fa"
    then have "unat a div 2 ^ 118 div 2 ^ 3 = 0x7f" by simp
    then show False using u unfolding div_mult2_eq [symmetric] power_add [symmetric] by simp
  qed
  have k: "unat a div 2 ^ 120 \<noteq> 0xff"
  proof
    assume "unat a div 2 ^ 120 = 0xff"
    then have "unat a div 2 ^ 120 div 2 ^ 1 = 0x7f" by simp
    then show False using u unfolding div_mult2_eq [symmetric] power_add [symmetric] by simp
  qed
  have o: "unat a \<noteq> 1" "unat a \<noteq> 0" using u by auto
  show "is_bogon_ip ip = Some ''rfc1918''"
    unfolding V6 bogon_v6_correct bogon_table.simps bogon_v6_def first_match_Cons in_prefix_def using u l k o by simp
qed

lemma parse_local_private: "parse_local_ip_env get = Some ip \<Longrightarrow> is_private_relay_target ip"
  by (auto simp: parse_local_ip_env_def split: option.splits if_splits)

lemma from_env_local_ip: "from_env get = Done cfg \<Longrightarrow> local_ip cfg = parse_local_ip_env get"
  by (auto simp: from_env_def Let_def split: option.splits)

lemma candidate_private:
  assumes "from_env get = Done cfg" and "cand \<in> set (additional_host_candidates cfg primary)"
  shows "is_private_relay_target (sa_ip cand)"
proof -
  have "local_ip cfg = Some (sa_ip cand)"
    using assms(2) by (cases "local_ip cfg") (auto simp: additional_host_candidates_def split: if_splits)
  then show ?thesis using from_env_local_ip [OF assms(1)] by (simp add: parse_local_private)
qed

text \<open>
  The private address that \<open>SFU_LOCAL_IP\<close> adds as a second host candidate is one the UDP loop never
  sends to: whatever configuration \<open>from_env\<close> builds, every additional candidate it advertises is
  classified as a bogon, and a flush attempts no datagram to its address, on any port and whatever is
  queued.  The field's documentation has the co-located TURN server bind its relay sockets to this
  address, so the answers on that path are dropped.
\<close>

theorem local_candidate_unreachable:
  assumes "from_env get = Done cfg" and "cand \<in> set (additional_host_candidates cfg primary)"
  shows "is_bogon cand = Some ''rfc1918'' \<and>
    list_all (\<lambda>t. sa_ip (destination t) \<noteq> sa_ip cand) (fs_attempted (fst (flush_transmits send now d net reg)))"
proof -
  have b: "is_bogon_ip (sa_ip cand) = Some ''rfc1918''"
    using candidate_private [OF assms] by (rule private_is_rfc1918)
  then have "bogon_table (sa_ip cand) = Some ''rfc1918''"
    by (cases "sa_ip cand") (simp_all only: bogon_v4_correct bogon_v6_correct)
  then have "list_all (\<lambda>t. sa_ip (destination t) \<noteq> sa_ip cand) (filter routable ts)" for ts
    by (auto simp: list_all_iff routable_def)
  then show ?thesis using b
    by (simp add: is_bogon_def flush_transmits_def drain_transmits_def flush_fold_attempted del: is_bogon_ip.simps)
qed

definition demo_environ :: environ where
  "demo_environ = [''SFU_LOCAL_IP'' \<mapsto> ''10.0.0.7'', ''SFU_PUBLIC_IP'' \<mapsto> ''203.0.113.9'']"

definition demo_queue :: "(nat, nat, unit, unit) registry" where
  "demo_queue = (ls_registry demo_start)\<lparr>clients := [demo_client\<lparr>pending_out :=
     [\<lparr>destination = \<lparr>sa_ip = V4 0x0a000007, sa_port = 49160\<rparr>, contents = []\<rparr>]\<rparr>]\<rparr>"

lemma port_env_unset: "get key = None \<Longrightarrow> n \<le> 65535 \<Longrightarrow> port_env get key n = Some n"
  by (simp add: port_env_def env_var_or_def parse_unsigned_show_nat)

lemma demo_environ_unset: "k \<noteq> ''SFU_LOCAL_IP'' \<Longrightarrow> k \<noteq> ''SFU_PUBLIC_IP'' \<Longrightarrow> demo_environ k = None"
  by (simp add: demo_environ_def)

lemma demo_environ_port:
  "n \<le> 65535 \<Longrightarrow> port_env demo_environ ''SFU_UDP_PORT'' n = Some n"
  "n \<le> 65535 \<Longrightarrow> port_env demo_environ ''SFU_METRICS_PORT'' n = Some n"
  "n \<le> 65535 \<Longrightarrow> port_env demo_environ ''SFU_RELAY_API_PORT'' n = Some n"
  "n \<le> 65535 \<Longrightarrow> port_env demo_environ ''SFU_CLIENT_WS_PORT'' n = Some n"
  by (simp_all add: port_env_unset demo_environ_def)

lemma demo_environ_ip:
  "parse_public_ip_env demo_environ = Some (V4 0xcb007109)"
  "parse_local_ip_env demo_environ = Some (V4 0x0a000007)"
proof -
  have p: "parse_ip ''203.0.113.9'' = Some (V4 0xcb007109)" "parse_ip ''10.0.0.7'' = Some (V4 0x0a000007)" by code_simp+
  have "is_private_relay_target (V4 0x0a000007)" by (simp add: is_private_def octet_div)
  then show "parse_public_ip_env demo_environ = Some (V4 0xcb007109)"
    "parse_local_ip_env demo_environ = Some (V4 0x0a000007)"
    by (simp_all add: parse_public_ip_env_def parse_local_ip_env_def demo_environ_def p del: is_private_relay_target.simps)
qed

lemma demo_environ_config:
  "from_env demo_environ = Done (default_config\<lparr>public_ip := Some (V4 0xcb007109), local_ip := Some (V4 0x0a000007)\<rparr>)"
  by (simp add: from_env_def default_config_def demo_environ_port demo_environ_ip secs_env_def env_var_or_def nonempty_def
      parse_hs256_fallback_env_def demo_environ_unset Let_def)

theorem local_candidate_unreachable_witness:
  "additional_host_candidates (default_config\<lparr>public_ip := Some (V4 0xcb007109), local_ip := Some (V4 0x0a000007)\<rparr>)
     \<lparr>sa_ip = V4 0xcb007109, sa_port = 3478\<rparr> = [\<lparr>sa_ip = V4 0x0a000007, sa_port = 3478\<rparr>] \<and>
   is_bogon \<lparr>sa_ip = V4 0x0a000007, sa_port = 3478\<rparr> = Some ''rfc1918'' \<and>
   list_all (\<lambda>t. sa_ip (destination t) \<noteq> V4 0x0a000007)
     (fs_attempted (fst (flush_transmits (\<lambda>n t. (None, n + 1)) 5 Map.empty (0 :: nat) demo_queue)))"
proof -
  have c: "additional_host_candidates (default_config\<lparr>public_ip := Some (V4 0xcb007109), local_ip := Some (V4 0x0a000007)\<rparr>)
     \<lparr>sa_ip = V4 0xcb007109, sa_port = 3478\<rparr> = [\<lparr>sa_ip = V4 0x0a000007, sa_port = 3478\<rparr>]"
    by (simp add: additional_host_candidates_def)
  then show ?thesis
    using local_candidate_unreachable [OF demo_environ_config, of "\<lparr>sa_ip = V4 0x0a000007, sa_port = 3478\<rparr>"
        "\<lparr>sa_ip = V4 0xcb007109, sa_port = 3478\<rparr>" "\<lambda>n t. (None, n + 1)" 5 Map.empty "0 :: nat" demo_queue] by simp
qed

end
