(* ===== verification/Spec2Isabelle.thy ===== *)
theory Spec2Isabelle
  imports Awg_Config Awg_Scrub Sfu_Config
begin

text \<open>
  Verification of the two daemons of a partner-edge node: the agent that keeps the AmneziaWG
  parameters of the node in step with central (\<open>src/crates/awg-params-agent/src\<close>) and the selective
  forwarding unit, SFU, that relays the media of group calls (\<open>src/crates/sfu/src\<close>).

  \<^bold>\<open>The programs.\<close>  The agent polls central for a newer epoch of obfuscation parameters, merges the epoch
  into \<open>awg0.conf\<close> under a lock it shares with the installer, applies the file to the kernel interface,
  records the epoch in a state file and reports it; its counters are mirrored to a textfile.  The SFU
  runs one loop over one UDP socket and a registry of clients.  A browser enters through a WebSocket
  with a room token, another SFU through a relay grant; both become clients of the registry.  A pass of
  the loop reaps dead clients, drains their control channels, polls the WebRTC stack of each client,
  fans the resulting events out to the other clients and flushes the datagrams; then one arm of a
  \<open>select!\<close> runs.

  \<^bold>\<open>Shared theories.\<close>
  \<^item> \<open>Prelude\<close>, \<open>Prelude_Text\<close>: the string and number operations of the Rust standard library the crates
    use, results as sums, and the lemmas on them.

  \<^bold>\<open>The agent.\<close>
  \<^item> \<open>Awg_Params\<close> models \<open>params.rs\<close>: the epoch record and a validator per field, with its errors.
    The loop of \<open>validate_i_tag\<close> terminates and accepts exactly the tag language given inductively by
    \<open>i_chain\<close>.
  \<^item> \<open>Awg_Conf_Merge\<close> models \<open>conf_merge.rs\<close>: the table \<open>FIELD_SPECS\<close>, the pass that resolves and
    validates each field, the preconditions across fields, the softening of an inverted junk pair and
    the splice into the text.  \<open>Awg_Conf_Lines\<close> has the facts about lines; \<open>Awg_Merge_Correct\<close> the closed
    form of the merge and the locale \<open>spec_table\<close>, the laws a table needs for the splice to stay local,
    interpreted on \<open>FIELD_SPECS\<close>.  They show that other lines are kept, that must-match values are
    applied or the merge is rejected.  \<open>Awg_Merge_File\<close> reads the written file back: it meets the
    preconditions, and merging again changes nothing.  \<open>Awg_Merge_Props\<close> is about the generated defaults
    and the start-up top-up, including the conf that is rejected because of a default.
  \<^item> \<open>Awg_Metrics\<close> models \<open>metrics.rs\<close>: counters, the written text and its parser; what is written is read
    back, with a bounded set of labels.
  \<^item> \<open>Awg_Agent\<close> models \<open>agent.rs\<close>, \<open>client.rs\<close> and \<open>state.rs\<close>: one tick over the node's files, kernel and
    counters.  The outcome of every system call and HTTP request, and the two points at which the
    installer can write the conf outside the lock's protection, are fields of an environment record
    that the theorems quantify over.  \<open>Awg_Scrub\<close> models the redaction of tool output and \<open>Awg_Config\<close>
    \<open>load_config\<close> of \<open>main.rs\<close>.

  \<^bold>\<open>The SFU.\<close>
  \<^item> \<open>Dd_Parse\<close> (\<open>svc/dd_parse.rs\<close>) is the bit parser of the AV1 dependency descriptor with every index and
    overflow panic as a value; \<open>Dd_Safe\<close> shows it never panics.  \<open>Dd_Cache\<close> (\<open>svc/dd_ext.rs\<close>) is the cache
    of structures; the locale \<open>bounded_cache\<close> is its contract, interpreted on it, and it refines a
    first-in first-out list.
  \<^item> \<open>Sfu_Client\<close> (\<open>client/mod.rs\<close>, \<open>construct.rs\<close>, \<open>layer.rs\<close>, \<open>tracks.rs\<close>, \<open>propagate.rs\<close>, \<open>pacer.rs\<close>) has the
    client record, its builders and the events between clients; \<open>Sfu_Keyframe\<close> (\<open>client/keyframe.rs\<close>) the
    keyframe requests, their throttle and the bounded retry loop; \<open>Sfu_Fanout\<close> (\<open>client/fanout.rs\<close>) the
    choice of layer, the temporal cap and the forwarding of one packet with its accounting;
    \<open>Sfu_Temporal\<close> the histories of a subscriber; \<open>Sfu_Renego\<close> (\<open>client/renegotiation.rs\<close>) offers, answers
    and the queue of tracks, with the reachable clients as an inductive relation.
  \<^item> \<open>Sfu_Auth\<close> (\<open>room_auth.rs\<close>, \<open>relay/mod.rs\<close>, \<open>relay/handler.rs\<close>, \<open>relay/activation.rs\<close>,
    \<open>relay/allowlist.rs\<close>, \<open>client_ws/handler.rs\<close>) has the tokens, grants, the replay cache and the upstream
    allow-list.  The locale \<open>dual_credential\<close> is the policy its three verifiers share while HS256 is
    being replaced by EdDSA; it is interpreted on each of them.
  \<^item> \<open>Sfu_Dc\<close> (\<open>client/dc.rs\<close>, \<open>chat.rs\<close>, \<open>voice.rs\<close>, \<open>keys.rs\<close>, \<open>sfu_events.rs\<close>) has the data channels;
    \<open>Sfu_Dispatch\<close> (\<open>client/dispatch.rs\<close>, \<open>fanout.rs\<close>, part of \<open>relay/client.rs\<close>) the outputs of the stack and
    their delivery, the announcement of a relay and how it is lost.
  \<^item> \<open>Sfu_Registry\<close> (\<open>registry/mod.rs\<close>, \<open>bwe.rs\<close>, \<open>poll.rs\<close>) has the registry, \<open>Sfu_Room\<close> what its operations
    keep; \<open>Sfu_Loop\<close> (\<open>udp_loop.rs\<close>) the loop and the filter of destinations, \<open>Sfu_Serve\<close> the loop over
    time; \<open>Sfu_Config\<close> (\<open>config.rs\<close>) the configuration, and that the private host candidate it advertises is
    an address the loop never sends to.

  \<^bold>\<open>How state corresponds.\<close>  A struct is a record with the source's field names (prefixed where HOL or
  another record has the name), an enum a datatype, a \<open>HashMap\<close> a map, a \<open>VecDeque\<close> a list.  An
  \<open>Arc<TrackIn>\<close> is an address of an explicit store and \<open>Weak::upgrade\<close> the lookup: the store gains an entry
  when a client gets an incoming track and loses the entries of a client when the registry drops it
  (\<open>reap_dead\<close>, \<open>evict_for_steal\<close>).  The allocator of addresses (\<open>pe_fresh\<close>) is arbitrary.  Instants are
  nanoseconds, wall clocks seconds; every place of the source that reads a clock has its own reading.
  Counters are a log of increments.  Widths are kept where they matter: \<open>wrap_i64\<close>, arithmetic modulo
  \<open>2\<^sup>6\<^sup>4\<close>, IPv4 and IPv6 addresses as words.  Cargo features are those of \<open>images/Dockerfile.sfu\<close> (\<open>vfm\<close> on).

  \<^bold>\<open>Code that is not in the repository\<close> is a parameter: \<open>rtc_api\<close> (str0m and the pacer of the media kit),
  \<open>kit_api\<close> (bandwidth estimator and speaker detector), \<open>jwt_lib\<close>, the URI parser, the JSON string writer,
  base64, the duration parser, the random draws, the network.  What is assumed of it is a named
  hypothesis of the theorems that need it: \<open>jwt_checks_exp\<close> and \<open>jwt_accepts_through_exp\<close> (when \<open>decode\<close>
  rejects an expired token), \<open>writes_plain\<close> (JSON text without escapes), \<open>bounded_outputs\<close> (the stack's
  pending outputs are finite).  The progress theorems of \<open>Sfu_Renego\<close> assume nothing of the transport in
  general: \<open>rounds_ok\<close> and \<open>can_offer_all\<close> speak of its answers in the run at hand.

  \<^bold>\<open>Termination.\<close>  Loops are structural or have a termination proof: the lock loop of the agent by its
  deadline, the bit loops by the bits left, the event queue by the number of packets and then its
  length.  There is no fuel.  Polling one client may run forever in the code, when the stack never
  stops emitting; \<open>poll_client\<close> is a partial function into option, and a pass of the loop is shown to
  return under \<open>bounded_outputs\<close>.

  \<^bold>\<open>Simplifications.\<close>  Text of log messages is left out.  \<open>client_reach\<close> leaves out the event \<open>MediaAdded\<close>
  with direction \<open>SendOnly\<close>, which the source documents as never emitted in the offerer role; the handler
  itself is modelled (\<open>open_negotiated\<close>).  In the agent, failures of the best-effort write of the marker
  file for dropped parameters are not modelled: the source ignores them.  The temp-file-and-rename
  write of a file is one step.

  \<^bold>\<open>Not modelled.\<close>  The asynchronous sessions of the browser WebSocket (\<open>client_ws/session.rs\<close>, apart from the
  record it hands to the loop) and of the relay client, the rewriting of SDP (\<open>client_ws/sdp_msid.rs\<close>), the
  interval of bandwidth hints (\<open>bwe_hint.rs\<close>), the Prometheus and telemetry set-up and the mains are I/O and
  wiring.  The crates \<open>opec\<close> and \<open>partner-cli\<close> are command-line tools over files and HTTP; the installer, the
  relay-only node and the templates are shell scripts and configuration text.
\<close>

end
